(* ===== verification/Prelude.thy ===== *)
theory Prelude
  imports Main "HOL-Library.Word"
begin

text \<open>
  Shared base of the development: the outcomes a C++ operation can have, the
  machine integers and the little-endian memory layout of them, association
  lists that behave as \<^verbatim>\<open>std::map::emplace\<close> does, and the list lemmas the
  components share. Collections: \<^verbatim>\<open>model_defs\<close> holds the definitions a
  component unfolds together, \<^verbatim>\<open>inv_intros\<close> the preservation lemmas, \<^verbatim>\<open>pres\<close>,
  \<^verbatim>\<open>kept\<close> and \<^verbatim>\<open>given\<close> the rules for programs over a state.
\<close>

unbundle bit_operations_syntax

named_theorems model_defs
named_theorems inv_intros

subsection \<open>Outcomes of operations\<close>

text \<open>
  What ends an operation other than a return: undefined behaviour (a read or
  write outside an allocation, a null dereference), a failed \<^verbatim>\<open>assert\<close>,
  a thrown value.
\<close>

datatype failure = Ub | Assertion | Throw string

type_synonym 'a res = "failure + 'a"

fun bind_res :: "'a res \<Rightarrow> ('a \<Rightarrow> 'b res) \<Rightarrow> 'b res" where
  "bind_res (Inl e) f = Inl e"
| "bind_res (Inr x) f = f x"

lemma bind_res_Inr [simp]: "bind_res m f = Inr y \<longleftrightarrow> (\<exists>x. m = Inr x \<and> f x = Inr y)"
  by (cases m) auto

lemma bind_res_assoc: "bind_res (bind_res m f) g = bind_res m (\<lambda>x. bind_res (f x) g)"
  by (cases m) auto

lemma bind_res_cong [fundef_cong]:
  "m = m' \<Longrightarrow> (\<And>x. m' = Inr x \<Longrightarrow> f x = f' x) \<Longrightarrow> bind_res m f = bind_res m' f'"
  by (cases m') auto

text \<open>
  Where the state survives a throw (the event loop catches what a callback
  throws and goes on), an operation is a program over the state: it returns a value,
  throws, or is stuck.
\<close>

datatype ('a, 's) exec = Done 'a 's | Threw 's | Stuck failure

type_synonym ('s, 'a) prog = "'s \<Rightarrow> ('a, 's) exec"

definition ret :: "'a \<Rightarrow> ('s, 'a) prog" where
  "ret a = (\<lambda>s. Done a s)"

definition bnd :: "('s, 'a) prog \<Rightarrow> ('a \<Rightarrow> ('s, 'b) prog) \<Rightarrow> ('s, 'b) prog" where
  "bnd m f = (\<lambda>s. case m s of Done a s' \<Rightarrow> f a s' | Threw s' \<Rightarrow> Threw s' | Stuck e \<Rightarrow> Stuck e)"

definition skip :: "('s, unit) prog" where
  "skip = ret ()"

definition gets :: "('s \<Rightarrow> 'a) \<Rightarrow> ('s, 'a) prog" where
  "gets f = (\<lambda>s. Done (f s) s)"

definition modify :: "('s \<Rightarrow> 's) \<Rightarrow> ('s, unit) prog" where
  "modify g = (\<lambda>s. Done () (g s))"

definition throw :: "('s, 'a) prog" where
  "throw = Threw"

definition stuck :: "failure \<Rightarrow> ('s, 'a) prog" where
  "stuck e = (\<lambda>s. Stuck e)"

text \<open>\<^verbatim>\<open>assert(b)\<close>: nothing in a build with \<^verbatim>\<open>NDEBUG\<close>.\<close>

definition assertion :: "bool \<Rightarrow> bool \<Rightarrow> ('s, unit) prog" where
  "assertion ndebug b = (if b \<or> ndebug then skip else stuck Assertion)"

text \<open>\<^verbatim>\<open>try { ... } catch (const char *) { ... } catch (...) {}\<close> (\<^verbatim>\<open>mythrow.h\<close>):
  what was thrown is dropped, the state reached is kept.\<close>

definition try_catch :: "('s, unit) prog \<Rightarrow> ('s, unit) prog" where
  "try_catch m = (\<lambda>s. case m s of Done a s' \<Rightarrow> Done () s' | Threw s' \<Rightarrow> Done () s' | Stuck e \<Rightarrow> Stuck e)"

text \<open>A program whose throws end the caller.\<close>

definition as_res :: "('s, unit) prog \<Rightarrow> 's \<Rightarrow> 's res" where
  "as_res m s = (case m s of Done _ s' \<Rightarrow> Inr s' | Threw s' \<Rightarrow> Inl (Throw []) | Stuck e \<Rightarrow> Inl e)"

primrec each :: "('x \<Rightarrow> ('s, unit) prog) \<Rightarrow> 'x list \<Rightarrow> ('s, unit) prog" where
  "each f [] = skip"
| "each f (x # xs) = bnd (f x) (\<lambda>_. each f xs)"

lemma run_simps [simp]:
  "ret a s = Done a s" "skip s = Done () s" "gets f s = Done (f s) s" "modify g s = Done () (g s)"
  "throw s = Threw s" "stuck e s = Stuck e"
  by (simp_all add: ret_def skip_def gets_def modify_def throw_def stuck_def)

lemma bnd_Done [simp]: "m s = Done a s' \<Longrightarrow> bnd m f s = f a s'"
  and bnd_Threw [simp]: "m s = Threw s' \<Longrightarrow> bnd m f s = Threw s'"
  and bnd_Stuck [simp]: "m s = Stuck e \<Longrightarrow> bnd m f s = Stuck e"
  by (simp_all add: bnd_def)

lemma bnd_eq_Done:
  "bnd m f s = Done b t \<longleftrightarrow> (\<exists>a s'. m s = Done a s' \<and> f a s' = Done b t)"
  by (auto simp: bnd_def split: exec.splits)

lemma bnd_assoc: "bnd (bnd m f) g = bnd m (\<lambda>a. bnd (f a) g)"
  by (auto simp: bnd_def fun_eq_iff split: exec.splits)

lemma bnd_skip [simp]: "bnd skip f = f ()"
  by (simp add: fun_eq_iff)

lemma bnd_then_skip [simp]: "bnd m (\<lambda>_. skip) = m" for m :: "('s, unit) prog"
  by (auto simp: fun_eq_iff bnd_def split: exec.splits)

lemma each_append: "each f (xs @ ys) = bnd (each f xs) (\<lambda>_. each f ys)"
  by (induction xs) (simp_all add: bnd_assoc)

lemma assertion_True [simp]: "assertion nd True = skip"
  by (simp add: assertion_def)

lemma assertion_ndebug [simp]: "assertion True b = skip"
  by (simp add: assertion_def)

text \<open>
  Partial correctness of a program: from a state with \<open>P\<close> it is not stuck unless it
  was allowed to be, and a return satisfies \<open>Q\<close>, a throw \<open>R\<close>. \<open>preserves I m\<close>: whatever
  happens, \<open>I\<close> holds where the program goes on.
\<close>

definition preserves :: "('s \<Rightarrow> bool) \<Rightarrow> ('s, 'a) prog \<Rightarrow> bool" where
  "preserves I m \<longleftrightarrow>
     (\<forall>s. I s \<longrightarrow> (case m s of Done a s' \<Rightarrow> I s' | Threw s' \<Rightarrow> I s' | Stuck e \<Rightarrow> True))"

named_theorems pres

lemma preserves_bnd [pres]:
  "preserves I m \<Longrightarrow> (\<And>a. preserves I (f a)) \<Longrightarrow> preserves I (bnd m f)"
  unfolding preserves_def
proof (intro allI impI)
  fix s
  assume m: "\<forall>s. I s \<longrightarrow> (case m s of Done a s' \<Rightarrow> I s' | Threw s' \<Rightarrow> I s' | Stuck e \<Rightarrow> True)"
    and f: "\<And>a. \<forall>s. I s \<longrightarrow> (case f a s of Done a s' \<Rightarrow> I s' | Threw s' \<Rightarrow> I s' | Stuck e \<Rightarrow> True)"
    and "I s"
  then have ms: "case m s of Done a s' \<Rightarrow> I s' | Threw s' \<Rightarrow> I s' | Stuck e \<Rightarrow> True" by blast
  show "case bnd m f s of Done a s' \<Rightarrow> I s' | Threw s' \<Rightarrow> I s' | Stuck e \<Rightarrow> True"
  proof (cases "m s")
    case (Done a s')
    then show ?thesis using ms f [of a] by simp
  qed (use ms in simp_all)
qed

lemma preserves_basic [pres]:
  "preserves I (ret a)" "preserves I skip" "preserves I (gets f)" "preserves I throw"
  "preserves I (stuck e)" "preserves I (assertion nd b)"
  by (auto simp: preserves_def assertion_def)

lemma preserves_modify [pres]: "(\<And>s. I s \<Longrightarrow> I (g s)) \<Longrightarrow> preserves I (modify g)"
  by (simp add: preserves_def)

lemma preserves_if [pres]:
  "(b \<Longrightarrow> preserves I m) \<Longrightarrow> (\<not> b \<Longrightarrow> preserves I n) \<Longrightarrow> preserves I (if b then m else n)"
  by simp

lemma preserves_try [pres]: "preserves I m \<Longrightarrow> preserves I (try_catch m)"
  unfolding preserves_def try_catch_def
proof (intro allI impI)
  fix s
  assume "\<forall>s. I s \<longrightarrow> (case m s of Done a s' \<Rightarrow> I s' | Threw s' \<Rightarrow> I s' | Stuck e \<Rightarrow> True)" and "I s"
  then have "case m s of Done a s' \<Rightarrow> I s' | Threw s' \<Rightarrow> I s' | Stuck e \<Rightarrow> True" by blast
  then show "case (case m s of Done a s' \<Rightarrow> Done () s' | Threw s' \<Rightarrow> Done () s' | Stuck e \<Rightarrow> Stuck e) of
      Done a s' \<Rightarrow> I s' | Threw s' \<Rightarrow> I s' | Stuck e \<Rightarrow> True"
    by (cases "m s") simp_all
qed

lemma preserves_each [pres]:
  "(\<And>x. x \<in> set xs \<Longrightarrow> preserves I (f x)) \<Longrightarrow> preserves I (each f xs)"
  by (induction xs) (simp_all add: preserves_basic preserves_bnd)

lemma preserves_Done: "preserves I m \<Longrightarrow> I s \<Longrightarrow> m s = Done a s' \<Longrightarrow> I s'"
  unfolding preserves_def by (drule spec [of _ s]) simp

text \<open>\<open>keeps I m\<close>: from a state with \<open>I\<close> the program returns, in a state with \<open>I\<close>.\<close>

definition keeps :: "('s \<Rightarrow> bool) \<Rightarrow> ('s, 'a) prog \<Rightarrow> bool" where
  "keeps I m \<longleftrightarrow> (\<forall>s. I s \<longrightarrow> (\<exists>a s'. m s = Done a s' \<and> I s'))"

named_theorems kept

lemma keepsD: "keeps I m \<Longrightarrow> I s \<Longrightarrow> \<exists>a s'. m s = Done a s' \<and> I s'"
  by (simp add: keeps_def)

lemma keepsI: "(\<And>s. I s \<Longrightarrow> \<exists>a s'. m s = Done a s' \<and> I s') \<Longrightarrow> keeps I m"
  by (simp add: keeps_def)

lemma keeps_bnd [kept]:
  assumes "keeps I m" "\<And>a. keeps I (f a)"
  shows "keeps I (bnd m f)"
proof (rule keepsI)
  fix s assume "I s"
  then obtain a s1 where "m s = Done a s1" "I s1" using keepsD [OF assms(1)] by blast
  then show "\<exists>b t. bnd m f s = Done b t \<and> I t" using keepsD [OF assms(2)] by simp
qed

lemma keeps_try_bnd:
  assumes "keeps I m" "\<And>a. keeps I (try_catch (f a))"
  shows "keeps I (try_catch (bnd m f))"
proof (rule keepsI)
  fix s assume "I s"
  then obtain a s1 where "m s = Done a s1" "I s1" using keepsD [OF assms(1)] by blast
  then show "\<exists>b t. try_catch (bnd m f) s = Done b t \<and> I t"
    using keepsD [OF assms(2), of s1 a] by (simp add: try_catch_def)
qed

lemma keeps_basic [kept]:
  "keeps I (ret a)" "keeps I skip" "keeps I (gets f)" "keeps I (assertion True b)"
  by (auto simp: keeps_def)

lemma keeps_modify [kept]: "(\<And>s. I s \<Longrightarrow> I (g s)) \<Longrightarrow> keeps I (modify g)"
  by (simp add: keeps_def)

lemma keeps_if [kept]:
  "(b \<Longrightarrow> keeps I m) \<Longrightarrow> (\<not> b \<Longrightarrow> keeps I n) \<Longrightarrow> keeps I (if b then m else n)"
  by simp

lemma keeps_each [kept]:
  "(\<And>x. x \<in> set xs \<Longrightarrow> keeps I (f x)) \<Longrightarrow> keeps I (each f xs)"
  by (induction xs) (simp_all add: keeps_basic keeps_bnd)

text \<open>\<open>gives I R m\<close>: from a state with \<open>I\<close> the program returns a value with \<open>R\<close>.\<close>

definition gives :: "('s \<Rightarrow> bool) \<Rightarrow> ('a \<Rightarrow> bool) \<Rightarrow> ('s, 'a) prog \<Rightarrow> bool" where
  "gives I R m \<longleftrightarrow> (\<forall>s. I s \<longrightarrow> (\<exists>a s'. m s = Done a s' \<and> R a))"

named_theorems given

lemma givesD: "gives I R m \<Longrightarrow> I s \<Longrightarrow> \<exists>a s'. m s = Done a s' \<and> R a"
  by (simp add: gives_def)

lemma gives_ret [given]: "R a \<Longrightarrow> gives I R (ret a)"
  by (simp add: gives_def)

lemma gives_bnd [given]:
  assumes "keeps I m" "\<And>a. gives I R (f a)"
  shows "gives I R (bnd m f)"
  unfolding gives_def
proof (intro allI impI)
  fix s assume "I s"
  then obtain a s1 where "m s = Done a s1" "I s1" using keepsD [OF assms(1)] by blast
  then show "\<exists>b t. bnd m f s = Done b t \<and> R b" using givesD [OF assms(2)] by simp
qed

lemma gives_if [given]:
  "(b \<Longrightarrow> gives I R m) \<Longrightarrow> (\<not> b \<Longrightarrow> gives I R n) \<Longrightarrow> gives I R (if b then m else n)"
  by simp

subsection \<open>Machine integers\<close>

type_synonym byte = "8 word"
type_synonym u16 = "16 word"
type_synonym u32 = "32 word"
type_synonym u64 = "64 word"

text \<open>A \<^verbatim>\<open>size_t\<close> or \<^verbatim>\<open>u32\<close> passed where the callee takes an \<^verbatim>\<open>int\<close>.\<close>

definition int32_of_nat :: "nat \<Rightarrow> int" where
  "int32_of_nat n = sint (word_of_nat n :: u32)"

lemma int32_of_nat_small [simp]:
  assumes "n < 2 ^ 31"
  shows "int32_of_nat n = int n"
proof -
  have "signed_take_bit 31 (int n) = int n"
    using assms by (simp add: signed_take_bit_int_eq_self)
  then show ?thesis
    by (simp add: int32_of_nat_def signed_of_nat)
qed

lemma sint_u32_small:
  assumes "unat (w :: u32) < 2 ^ 31"
  shows "sint w = int (unat w)"
proof -
  have "sint w = int32_of_nat (unat w)" by (simp add: int32_of_nat_def)
  with assms show ?thesis by simp
qed

lemma unat_of_nat_u32: "n < 2 ^ 32 \<Longrightarrow> unat (word_of_nat n :: u32) = n"
  by (simp add: unat_of_nat)

lemma unat_word_eqI: "unat x = unat (y :: 'a::len word) \<Longrightarrow> x = y"
  by (simp add: word_unat_eq_iff)

lemma unat_drop_word: "unat (drop_bit n (w :: 'a::len word)) = unat w div 2 ^ n"
proof -
  have "take_bit LENGTH('a) (unat w) = unat w"
    by (rule take_bit_nat_eq_self) (rule unsigned_less)
  then show ?thesis
    by (simp only: unsigned_drop_bit_eq drop_bit_eq_div [where 'a = nat])
qed

subsection \<open>Little-endian layout of an integer in memory\<close>

fun le_bytes :: "nat \<Rightarrow> 'a::len word \<Rightarrow> byte list" where
  "le_bytes 0 w = []"
| "le_bytes (Suc n) w = ucast w # le_bytes n (drop_bit 8 w)"

fun of_le_bytes :: "byte list \<Rightarrow> 'a::len word" where
  "of_le_bytes [] = 0"
| "of_le_bytes (b # bs) = ucast b OR push_bit 8 (of_le_bytes bs)"

lemma length_le_bytes [simp]: "length (le_bytes n w) = n"
  by (induction n arbitrary: w) auto

lemma le_bytes_0 [simp]: "le_bytes n 0 = replicate n 0"
  by (induction n) simp_all

lemma le_bytes_Nil_iff [simp]: "le_bytes n w = [] \<longleftrightarrow> n = 0"
  by (cases n) auto

lemma bit_of_le_bytes:
  "bit (of_le_bytes bs :: 'a::len word) i \<longleftrightarrow>
     i < LENGTH('a) \<and> i div 8 < length bs \<and> bit (bs ! (i div 8)) (i mod 8)"
proof (induction bs arbitrary: i)
  case Nil
  then show ?case by simp
next
  case (Cons b bs)
  show ?case
  proof (cases "i < 8")
    case True
    then show ?thesis by (auto simp: bit_or_iff bit_push_bit_iff bit_ucast_iff)
  next
    case False
    then obtain j where j: "i = j + 8" by (metis add.commute le_Suc_ex not_less)
    have "(j + 8) div 8 = Suc (j div 8)" "(j + 8) mod 8 = j mod 8" by simp_all
    moreover have "\<not> bit b (j + 8)"
      by (rule notI) (drule bit_imp_le_length, simp)
    ultimately show ?thesis
      by (auto simp: j bit_or_iff bit_push_bit_iff bit_ucast_iff Cons.IH)
  qed
qed

lemma nth_le_bytes: "k < n \<Longrightarrow> le_bytes n w ! k = ucast (drop_bit (8 * k) w)"
proof (induction n arbitrary: k w)
  case 0
  then show ?case by simp
next
  case (Suc n)
  then show ?case by (cases k) (auto simp: add.commute)
qed

lemma of_le_bytes_le_bytes [simp]:
  assumes "LENGTH('a) \<le> 8 * n"
  shows "(of_le_bytes (le_bytes n w) :: 'a word) = (w :: 'a::len word)"
proof (rule bit_word_eqI)
  fix i
  assume i: "i < LENGTH('a)"
  with assms have "i div 8 < n" by linarith
  moreover have "8 * (i div 8) + i mod 8 = i" by simp
  ultimately show "bit (of_le_bytes (le_bytes n w) :: 'a word) i \<longleftrightarrow> bit w i"
    using i by (simp add: bit_of_le_bytes nth_le_bytes bit_ucast_iff bit_drop_bit_eq)
qed

subsection \<open>Tables filled by emplace\<close>

text \<open>
  \<^verbatim>\<open>std::map::emplace\<close> and \<^verbatim>\<open>std::unordered_map::emplace\<close> leave an entry that is
  there: the first registration of a key wins.
\<close>

definition emplace_map :: "'k \<Rightarrow> 'v \<Rightarrow> ('k \<rightharpoonup> 'v) \<Rightarrow> ('k \<rightharpoonup> 'v)" where
  "emplace_map k v m = (case m k of None \<Rightarrow> m(k \<mapsto> v) | Some _ \<Rightarrow> m)"

lemma emplace_map_apply:
  "emplace_map k v m j = (if j = k \<and> m k = None then Some v else m j)"
  by (auto simp: emplace_map_def split: option.splits)

lemma dom_emplace_map [simp]: "dom (emplace_map k v m) = insert k (dom m)"
  by (auto simp: dom_def emplace_map_apply)

subsection \<open>Arrays and memcpy\<close>

text \<open>\<open>overwrite pos xs ys\<close> is the array \<open>ys\<close> after
  \<^verbatim>\<open>memcpy(ys + pos, xs, n)\<close>; the caller checks that the copy fits.\<close>

definition overwrite :: "nat \<Rightarrow> 'a list \<Rightarrow> 'a list \<Rightarrow> 'a list" where
  "overwrite pos xs ys = take pos ys @ xs @ drop (pos + length xs) ys"

lemma length_overwrite [simp]:
  "pos + length xs \<le> length ys \<Longrightarrow> length (overwrite pos xs ys) = length ys"
  by (simp add: overwrite_def)

lemma take_overwrite [simp]:
  assumes "pos + length xs \<le> length ys"
  shows "take (pos + length xs) (overwrite pos xs ys) = take pos ys @ xs"
proof -
  have "length (take pos ys @ xs) = pos + length xs" using assms by simp
  then show ?thesis by (simp add: overwrite_def)
qed

lemma take_overwrite_before:
  "n \<le> pos \<Longrightarrow> pos \<le> length ys \<Longrightarrow> take n (overwrite pos xs ys) = take n ys"
  by (simp add: overwrite_def)

subsection \<open>Lists\<close>

lemma foldl_snoc_append: "foldl (\<lambda>acc x. acc @ [f x]) acc xs = acc @ map f xs"
  by (induction xs arbitrary: acc) auto

end
