(* ===== verification/IoBuffer.thy ===== *)
theory IoBuffer
  imports Prelude
begin

text \<open>
  \<^verbatim>\<open>src/src/ioBuffer.h\<close>: the growable buffer every connection reads into, and
  \<^verbatim>\<open>ioBufferEx\<close>, which adds a read position. A buffer is its four fields;
  \<open>m_buffer\<close> is the whole allocation, so an access outside it is \<open>Ub\<close>. What
  \<^verbatim>\<open>operator new[]\<close> leaves in a new allocation is the parameter \<open>fresh\<close>
  (the value of each cell); it is assumed to succeed. The abstraction
  \<open>live\<close> / \<open>ex_live\<close> is the byte string a client sees; the locale
  \<open>byte_queue\<close> is the contract (append at the end, drop at the front), and
  both buffers are instances of it.
\<close>

subsection \<open>The class ioBuffer\<close>

record 'a iobuffer =
  m_max :: nat
  m_size :: nat
  m_expand_size :: nat
  m_buffer :: "'a list"

definition new_array :: "(nat \<Rightarrow> 'a) \<Rightarrow> nat \<Rightarrow> 'a list" where
  "new_array fresh n = map fresh [0..<n]"

definition ioBuffer_new :: "(nat \<Rightarrow> 'a) \<Rightarrow> nat \<Rightarrow> 'a iobuffer" where
  "ioBuffer_new fresh n =
     \<lparr>m_max = n, m_size = 0, m_expand_size = 0x1000, m_buffer = new_array fresh n\<rparr>"

text \<open>The move constructor starts from the member initialisers (no allocation, a null
  \<^verbatim>\<open>m_buffer\<close>, yet \<^verbatim>\<open>m_max = 0x1000\<close>) and swaps with its argument. Results:
  the new buffer, then the moved-from one.\<close>

definition ioBuffer_null :: "'a iobuffer" where
  "ioBuffer_null = \<lparr>m_max = 0x1000, m_size = 0, m_expand_size = 0x1000, m_buffer = []\<rparr>"

definition ioBuffer_move_assign :: "'a iobuffer \<Rightarrow> 'a iobuffer \<Rightarrow> 'a iobuffer \<times> 'a iobuffer" where
  "ioBuffer_move_assign b o' = (o', b)"

definition ioBuffer_move :: "'a iobuffer \<Rightarrow> 'a iobuffer \<times> 'a iobuffer" where
  "ioBuffer_move o' = ioBuffer_move_assign ioBuffer_null o'"

definition memcpy_at :: "nat \<Rightarrow> 'a list \<Rightarrow> 'a iobuffer \<Rightarrow> 'a iobuffer res" where
  "memcpy_at pos xs b =
     (if pos + length xs \<le> length (m_buffer b)
      then Inr (b\<lparr>m_buffer := overwrite pos xs (m_buffer b)\<rparr>) else Inl Ub)"

definition reserve :: "(nat \<Rightarrow> 'a) \<Rightarrow> nat \<Rightarrow> 'a iobuffer \<Rightarrow> 'a iobuffer res" where
  "reserve fresh n b =
     (if n < m_max b then Inl Assertion
      else if n < m_size b then Inl Assertion
      else if length (m_buffer b) < m_size b then Inl Ub
      else Inr (b\<lparr>m_max := n,
                  m_buffer := overwrite 0 (take (m_size b) (m_buffer b)) (new_array fresh n)\<rparr>))"

text \<open>\<^verbatim>\<open>m_buffer[m_size++] = other\<close>\<close>

definition store_back :: "'a \<Rightarrow> 'a iobuffer \<Rightarrow> 'a iobuffer res" where
  "store_back x b =
     bind_res (memcpy_at (m_size b) [x] b) (\<lambda>b. Inr (b\<lparr>m_size := m_size b + 1\<rparr>))"

definition push_back :: "(nat \<Rightarrow> 'a) \<Rightarrow> 'a \<Rightarrow> 'a iobuffer \<Rightarrow> 'a iobuffer res" where
  "push_back fresh x b =
     (if m_size b < m_max b then store_back x b
      else bind_res (reserve fresh (m_max b * 2) b) (store_back x))"

definition push_back_n :: "(nat \<Rightarrow> 'a) \<Rightarrow> 'a list \<Rightarrow> 'a iobuffer \<Rightarrow> 'a iobuffer res" where
  "push_back_n fresh xs b =
     bind_res
       (if m_size b + length xs \<le> m_max b then Inr b
        else reserve fresh (max (m_max b) (length xs) * 2) b)
       (\<lambda>b. bind_res (memcpy_at (m_size b) xs b)
              (\<lambda>b. Inr (b\<lparr>m_size := m_size b + length xs\<rparr>)))"

definition emplace :: "(nat \<Rightarrow> 'a) \<Rightarrow> nat \<Rightarrow> 'a iobuffer \<Rightarrow> 'a iobuffer res" where
  "emplace fresh n b =
     (if m_max b < m_size b + n then reserve fresh (max (m_max b) n * 2) b else Inr b)"

text \<open>Placement new of the element built from the arguments.\<close>

definition emplace_back :: "(nat \<Rightarrow> 'a) \<Rightarrow> 'a \<Rightarrow> 'a iobuffer \<Rightarrow> 'a iobuffer res" where
  "emplace_back fresh x b =
     (if m_size b < m_max b then store_back x b
      else bind_res (reserve fresh (m_max b * 2) b) (store_back x))"

definition resize :: "(nat \<Rightarrow> 'a) \<Rightarrow> nat \<Rightarrow> 'a iobuffer \<Rightarrow> 'a iobuffer res" where
  "resize fresh n b =
     bind_res (if m_max b < n then reserve fresh n b else Inr b)
       (\<lambda>b. Inr (b\<lparr>m_size := n\<rparr>))"

text \<open>
  \<^verbatim>\<open>append(f)\<close>: \<open>f\<close> is given the free room after the live bytes, answers a
  count and writes; its answer and the cells it wrote are the pair \<open>f room\<close>.
\<close>

definition append_with :: "(nat \<Rightarrow> 'a) \<Rightarrow> (nat \<Rightarrow> int \<times> 'a list) \<Rightarrow> 'a iobuffer \<Rightarrow>
    (int \<times> 'a iobuffer) res" where
  "append_with fresh f b =
     bind_res (emplace fresh (m_expand_size b) b) (\<lambda>b.
       let (r, xs) = f (m_max b - m_size b)
       in bind_res (memcpy_at (m_size b) xs b) (\<lambda>b.
            bind_res (if 0 < r then resize fresh (m_size b + nat r) b else Inr b)
              (\<lambda>b. Inr (r, b))))"

definition pop_front :: "nat \<Rightarrow> 'a iobuffer \<Rightarrow> 'a iobuffer res" where
  "pop_front n b =
     (if n = m_size b then Inr (b\<lparr>m_size := 0\<rparr>)
      else if n < m_size b then
        (if length (m_buffer b) < m_size b then Inl Ub
         else Inr (b\<lparr>m_size := m_size b - n,
                     m_buffer := overwrite 0 (take (m_size b - n) (drop n (m_buffer b)))
                                   (m_buffer b)\<rparr>))
      else Inl (Throw ''pop_front size is error''))"

definition at_index :: "nat \<Rightarrow> 'a iobuffer \<Rightarrow> 'a res" where
  "at_index pos b =
     (if pos < m_size b
      then (if pos < length (m_buffer b) then Inr (m_buffer b ! pos) else Inl Ub)
      else Inl (Throw ''beyond max size!''))"

definition copy_assign :: "(nat \<Rightarrow> 'a) \<Rightarrow> 'a iobuffer \<Rightarrow> 'a iobuffer \<Rightarrow> 'a iobuffer res" where
  "copy_assign fresh other b =
     (let b = b\<lparr>m_size := 0\<rparr>
      in bind_res (if m_max b < m_size other then reserve fresh (m_max other) b else Inr b)
           (\<lambda>b. if length (m_buffer other) < m_size other then Inl Ub
                 else memcpy_at 0 (take (m_size other) (m_buffer other))
                        (b\<lparr>m_size := m_size other\<rparr>)))"

definition buf_clear :: "'a iobuffer \<Rightarrow> 'a iobuffer" where
  "buf_clear b = b\<lparr>m_size := 0\<rparr>"

definition buf_empty :: "'a iobuffer \<Rightarrow> bool" where
  "buf_empty b \<longleftrightarrow> m_size b = 0"

text \<open>Pointers into the allocation are offsets from its start.\<close>

definition end_off :: "'a iobuffer \<Rightarrow> nat" where
  "end_off b = m_size b"

definition back_off :: "'a iobuffer \<Rightarrow> nat" where
  "back_off b = (if m_size b = 0 then end_off b else end_off b - 1)"

definition set_expand_size :: "nat \<Rightarrow> 'a iobuffer \<Rightarrow> 'a iobuffer" where
  "set_expand_size n b = b\<lparr>m_expand_size := n\<rparr>"

subsection \<open>The class ioBufferEx\<close>

record 'a iobuffer_ex =
  base :: "'a iobuffer"
  m_Pos :: nat

definition ex_new :: "(nat \<Rightarrow> 'a) \<Rightarrow> 'a iobuffer_ex" where
  "ex_new fresh = \<lparr>base = ioBuffer_new fresh 0x1000, m_Pos = 0\<rparr>"

definition ex_move_assign ::
    "'a iobuffer_ex \<Rightarrow> 'a iobuffer_ex \<Rightarrow> 'a iobuffer_ex \<times> 'a iobuffer_ex" where
  "ex_move_assign e o' =
     (let (b, ob) = ioBuffer_move_assign (base e) (base o')
      in (\<lparr>base = b, m_Pos = m_Pos o'\<rparr>, \<lparr>base = ob, m_Pos = m_Pos e\<rparr>))"

definition ex_move :: "'a iobuffer_ex \<Rightarrow> 'a iobuffer_ex \<times> 'a iobuffer_ex" where
  "ex_move o' =
     (let (b, ob) = ioBuffer_move (base o')
      in (\<lparr>base = b, m_Pos = m_Pos o'\<rparr>, \<lparr>base = ob, m_Pos = 0\<rparr>))"

text \<open>\<^verbatim>\<open>data()\<close>: the memory from the read position to the end of the allocation.\<close>

definition ex_data :: "'a iobuffer_ex \<Rightarrow> 'a list" where
  "ex_data e = drop (m_Pos e) (m_buffer (base e))"

definition ex_size :: "'a iobuffer_ex \<Rightarrow> nat" where
  "ex_size e = m_size (base e) - m_Pos e"

text \<open>\<^verbatim>\<open>if (base::size() + n >= base::max()) ...\<close>: move the live bytes to the front.\<close>

definition ex_compact :: "nat \<Rightarrow> 'a iobuffer_ex \<Rightarrow> 'a iobuffer_ex res" where
  "ex_compact n e =
     (if m_max (base e) \<le> m_size (base e) + n \<and> 0 < m_Pos e
      then bind_res (pop_front (m_Pos e) (base e)) (\<lambda>b. Inr \<lparr>base = b, m_Pos = 0\<rparr>)
      else Inr e)"

definition ex_push_back :: "(nat \<Rightarrow> 'a) \<Rightarrow> 'a list \<Rightarrow> 'a iobuffer_ex \<Rightarrow> 'a iobuffer_ex res" where
  "ex_push_back fresh xs e =
     bind_res (ex_compact (length xs) e) (\<lambda>e.
       bind_res (push_back_n fresh xs (base e)) (\<lambda>b. Inr (e\<lparr>base := b\<rparr>)))"

definition ex_emplace :: "(nat \<Rightarrow> 'a) \<Rightarrow> nat \<Rightarrow> 'a iobuffer_ex \<Rightarrow> 'a iobuffer_ex res" where
  "ex_emplace fresh n e =
     bind_res (ex_compact n e) (\<lambda>e.
       bind_res (emplace fresh n (base e)) (\<lambda>b. Inr (e\<lparr>base := b\<rparr>)))"

text \<open>\<^verbatim>\<open>base::pop_front(base::size()); m_Pos = 0\<close> always takes the first branch.\<close>

definition ex_reset :: "'a iobuffer_ex \<Rightarrow> 'a iobuffer_ex" where
  "ex_reset e = \<lparr>base = buf_clear (base e), m_Pos = 0\<rparr>"

definition ex_pop_front :: "nat \<Rightarrow> 'a iobuffer_ex \<Rightarrow> 'a iobuffer_ex" where
  "ex_pop_front n e =
     (let e = e\<lparr>m_Pos := m_Pos e + n\<rparr>
      in if m_size (base e) \<le> m_Pos e then ex_reset e else e)"

text \<open>\<^verbatim>\<open>empty()\<close> may reset the positions, so it returns the buffer too.\<close>

definition ex_empty :: "'a iobuffer_ex \<Rightarrow> bool \<times> 'a iobuffer_ex" where
  "ex_empty e =
     (if buf_empty (base e) then (True, e)
      else if m_Pos e < m_size (base e) then (False, e)
      else (True, ex_reset e))"

definition ex_at :: "nat \<Rightarrow> 'a iobuffer_ex \<Rightarrow> nat res" where
  "ex_at pos e =
     (if m_Pos e + pos < m_size (base e) then Inr (m_Pos e + pos)
      else Inl (Throw ''at error pos''))"

definition ex_max :: "'a iobuffer_ex \<Rightarrow> nat res" where
  "ex_max e = (if m_Pos e \<le> m_max (base e) then Inr (m_max (base e) - m_Pos e) else Inl Assertion)"

definition ex_reserve :: "(nat \<Rightarrow> 'a) \<Rightarrow> nat \<Rightarrow> 'a iobuffer_ex \<Rightarrow> 'a iobuffer_ex res" where
  "ex_reserve fresh c e =
     bind_res (ex_max e) (\<lambda>m.
       if c < m then Inr e
       else bind_res (reserve fresh (m_Pos e + c) (base e)) (\<lambda>b. Inr (e\<lparr>base := b\<rparr>)))"

definition ex_clear :: "'a iobuffer_ex \<Rightarrow> 'a iobuffer_ex" where
  "ex_clear e = ex_pop_front (ex_size e) e"

text \<open>\<^verbatim>\<open>using base::append\<close>: the base operation, which never compacts.\<close>

definition ex_append :: "(nat \<Rightarrow> 'a) \<Rightarrow> (nat \<Rightarrow> int \<times> 'a list) \<Rightarrow> 'a iobuffer_ex \<Rightarrow>
    (int \<times> 'a iobuffer_ex) res" where
  "ex_append fresh f e =
     bind_res (append_with fresh f (base e)) (\<lambda>(r, b). Inr (r, e\<lparr>base := b\<rparr>))"

subsection \<open>Invariant and abstraction of ioBuffer\<close>

definition buf_inv :: "'a iobuffer \<Rightarrow> bool" where
  "buf_inv b \<longleftrightarrow> length (m_buffer b) = m_max b \<and> m_size b \<le> m_max b"

definition live :: "'a iobuffer \<Rightarrow> 'a list" where
  "live b = take (m_size b) (m_buffer b)"

text \<open>What \<open>reserve\<close> leaves: the live cells, then new ones.\<close>

definition grown :: "(nat \<Rightarrow> 'a) \<Rightarrow> nat \<Rightarrow> 'a iobuffer \<Rightarrow> 'a iobuffer" where
  "grown fresh n b = b\<lparr>m_max := n, m_buffer := overwrite 0 (live b) (new_array fresh n)\<rparr>"

text \<open>What a copy of \<open>xs\<close> behind the live cells leaves.\<close>

definition pushed :: "'a list \<Rightarrow> 'a iobuffer \<Rightarrow> 'a iobuffer" where
  "pushed xs b = b\<lparr>m_buffer := overwrite (m_size b) xs (m_buffer b),
                    m_size := m_size b + length xs\<rparr>"

lemma length_new_array [simp]: "length (new_array fresh n) = n"
  by (simp add: new_array_def)

lemma length_live [simp]: "buf_inv b \<Longrightarrow> length (live b) = m_size b"
  by (simp add: buf_inv_def live_def)

lemma reserve_grown [simp]:
  "buf_inv b \<Longrightarrow> m_max b \<le> n \<Longrightarrow> reserve fresh n b = Inr (grown fresh n b)"
  by (auto simp: reserve_def grown_def live_def buf_inv_def)

lemma grown_fields [simp]:
  "m_max (grown fresh n b) = n" "m_size (grown fresh n b) = m_size b"
  "m_expand_size (grown fresh n b) = m_expand_size b"
  by (simp_all add: grown_def)

lemma grown_inv [inv_intros]:
  "buf_inv b \<Longrightarrow> m_max b \<le> n \<Longrightarrow> buf_inv (grown fresh n b)"
  using length_live [of b] by (auto simp: grown_def buf_inv_def)

lemma live_grown [simp]: "buf_inv b \<Longrightarrow> m_max b \<le> n \<Longrightarrow> live (grown fresh n b) = live b"
  using length_live [of b] take_overwrite [of 0 "live b" "new_array fresh n"]
  by (simp add: grown_def live_def [of "b\<lparr>m_max := n, m_buffer := _\<rparr>"] buf_inv_def)

lemma pushed_fields [simp]:
  "m_max (pushed xs b) = m_max b" "m_size (pushed xs b) = m_size b + length xs"
  "m_expand_size (pushed xs b) = m_expand_size b"
  by (simp_all add: pushed_def)

lemma pushed_inv [inv_intros]:
  "buf_inv b \<Longrightarrow> m_size b + length xs \<le> m_max b \<Longrightarrow> buf_inv (pushed xs b)"
  by (simp add: pushed_def buf_inv_def)

lemma live_pushed [simp]:
  "buf_inv b \<Longrightarrow> m_size b + length xs \<le> m_max b \<Longrightarrow> live (pushed xs b) = live b @ xs"
  by (simp add: pushed_def live_def buf_inv_def)

lemma store_back_pushed [simp]:
  "buf_inv b \<Longrightarrow> m_size b < m_max b \<Longrightarrow> store_back x b = Inr (pushed [x] b)"
  by (simp add: store_back_def memcpy_at_def pushed_def buf_inv_def)

subsection \<open>What each operation does on a well-formed buffer\<close>

lemma ioBuffer_new_inv [inv_intros]: "buf_inv (ioBuffer_new fresh n)"
  by (simp add: buf_inv_def ioBuffer_new_def)

lemma live_ioBuffer_new [simp]: "live (ioBuffer_new fresh n) = []"
  by (simp add: live_def ioBuffer_new_def)

lemma push_back_ok:
  assumes "buf_inv b" "0 < m_max b"
  shows "\<exists>b'. push_back fresh x b = Inr b' \<and> buf_inv b' \<and> 0 < m_max b' \<and> live b' = live b @ [x]"
proof (cases "m_size b < m_max b")
  case True
  then show ?thesis using assms by (auto simp: push_back_def intro!: inv_intros)
next
  case False
  let ?g = "grown fresh (m_max b * 2) b"
  have "m_size b = m_max b" using assms False by (simp add: buf_inv_def)
  moreover have "buf_inv ?g" "live ?g = live b" using assms by (auto intro!: inv_intros)
  ultimately show ?thesis
    using assms False by (auto simp: push_back_def intro!: inv_intros)
qed

lemma push_back_n_ok:
  assumes b: "buf_inv b"
  shows "\<exists>b'. push_back_n fresh xs b = Inr b' \<and> buf_inv b' \<and> m_max b \<le> m_max b' \<and>
     live b' = live b @ xs \<and> m_expand_size b' = m_expand_size b"
proof -
  define c where "c = (if m_size b + length xs \<le> m_max b then b
                       else grown fresh (max (m_max b) (length xs) * 2) b)"
  have size: "m_size b \<le> m_max b" using b by (simp add: buf_inv_def)
  have c: "buf_inv c" "m_size c + length xs \<le> m_max c" "live c = live b" "m_max b \<le> m_max c"
      "m_expand_size c = m_expand_size b"
    using b size by (auto simp: c_def intro!: inv_intros)
  have "(if m_size b + length xs \<le> m_max b then Inr b
         else reserve fresh (max (m_max b) (length xs) * 2) b) = Inr c"
    using b by (simp add: c_def)
  moreover have "memcpy_at (m_size c) xs c = Inr (c\<lparr>m_buffer := overwrite (m_size c) xs (m_buffer c)\<rparr>)"
    using c by (simp add: memcpy_at_def buf_inv_def)
  ultimately have "push_back_n fresh xs b = Inr (pushed xs c)"
    unfolding push_back_n_def by (simp add: pushed_def)
  then show ?thesis using c by (auto intro!: inv_intros)
qed

lemma emplace_ok:
  assumes b: "buf_inv b"
  shows "\<exists>b'. emplace fresh n b = Inr b' \<and> buf_inv b' \<and> live b' = live b \<and> m_size b' = m_size b \<and>
     m_max b \<le> m_max b' \<and> m_size b' + n \<le> m_max b' \<and> m_expand_size b' = m_expand_size b"
proof -
  have "m_size b \<le> m_max b" using b by (simp add: buf_inv_def)
  then show ?thesis using b by (auto simp: emplace_def intro!: inv_intros)
qed

text \<open>
  \<open>append\<close> always offers the callback at least the expand size, keeps the live
  bytes and adds exactly what the callback wrote, as long as the callback writes
  what it reports and stays within the room it was given.
\<close>

definition reads_within :: "(nat \<Rightarrow> int \<times> 'a list) \<Rightarrow> nat \<Rightarrow> bool" where
  "reads_within f room \<longleftrightarrow>
     (let (r, xs) = f room in length xs \<le> room \<and> (if 0 < r then int (length xs) = r else xs = []))"

lemma append_with_ok:
  assumes b: "buf_inv b" and f: "\<And>room. m_expand_size b \<le> room \<Longrightarrow> reads_within f room"
  shows "\<exists>room b'. m_expand_size b \<le> room \<and> append_with fresh f b = Inr (fst (f room), b') \<and>
     buf_inv b' \<and> live b' = live b @ snd (f room) \<and> m_max b \<le> m_max b' \<and>
     m_size b' = m_size b + length (snd (f room)) \<and> m_expand_size b' = m_expand_size b"
proof -
  obtain c where c: "emplace fresh (m_expand_size b) b = Inr c" "buf_inv c" "live c = live b"
      "m_size c = m_size b" "m_max b \<le> m_max c" "m_size c + m_expand_size b \<le> m_max c"
      "m_expand_size c = m_expand_size b"
    using emplace_ok [OF b] by blast
  define room where "room = m_max c - m_size c"
  obtain r xs where fr: "f room = (r, xs)" by (cases "f room")
  have room: "m_expand_size b \<le> room" using c(6) by (simp add: room_def)
  have xs: "length xs \<le> room" "if 0 < r then int (length xs) = r else xs = []"
    using f [OF room] by (simp_all add: reads_within_def fr)
  then have fits: "m_size c + length xs \<le> m_max c" using c(6) by (simp add: room_def)
  then have copy: "memcpy_at (m_size c) xs c = Inr (c\<lparr>m_buffer := overwrite (m_size c) xs (m_buffer c)\<rparr>)"
    using c(2) by (simp add: memcpy_at_def buf_inv_def)
  have "append_with fresh f b = Inr (r, pushed xs c)"
  proof (cases "0 < r")
    case True
    then have "nat r = length xs" using xs(2) by simp
    then show ?thesis using True fits
      by (simp add: append_with_def c(1) copy fr [unfolded room_def] resize_def pushed_def)
  next
    case False
    then show ?thesis using xs(2) copy
      by (simp add: append_with_def c(1) fr [unfolded room_def] pushed_def)
  qed
  moreover have "buf_inv (pushed xs c)" "live (pushed xs c) = live b @ xs"
    using c fits by (auto intro!: inv_intros)
  ultimately show ?thesis using room c(4,5,7) fr by (metis fst_conv pushed_fields snd_conv)
qed

lemma pop_front_ok:
  assumes b: "buf_inv b" and n: "n \<le> m_size b"
  shows "\<exists>b'. pop_front n b = Inr b' \<and> buf_inv b' \<and> m_max b' = m_max b \<and>
     m_expand_size b' = m_expand_size b \<and> m_size b' = m_size b - n \<and> live b' = drop n (live b)"
proof (cases "n = m_size b")
  case True
  then show ?thesis using b by (simp add: pop_front_def buf_inv_def live_def)
next
  case False
  let ?xs = "take (m_size b - n) (drop n (m_buffer b))"
  have "m_size b \<le> length (m_buffer b)" using b by (simp add: buf_inv_def)
  then have "length ?xs = m_size b - n" using n by simp
  then have "take (m_size b - n) (overwrite 0 ?xs (m_buffer b)) = ?xs"
    and "length (overwrite 0 ?xs (m_buffer b)) = length (m_buffer b)"
    using b take_overwrite [of 0 ?xs "m_buffer b"] by (simp_all add: buf_inv_def)
  moreover have "m_size b - n \<le> m_max b" using b by (auto simp: buf_inv_def)
  ultimately show ?thesis using False b n
    by (simp add: pop_front_def buf_inv_def live_def drop_take)
qed

lemma pop_front_too_much:
  "m_size b < n \<Longrightarrow> pop_front n b = Inl (Throw ''pop_front size is error'')"
  by (simp add: pop_front_def)

lemma resize_ok:
  assumes "buf_inv b"
  shows "\<exists>b'. resize fresh n b = Inr b' \<and> buf_inv b' \<and> m_size b' = n \<and>
     take (min n (m_size b)) (live b') = take (min n (m_size b)) (live b)"
proof -
  define c where "c = (if m_max b < n then grown fresh n b else b)"
  have c: "buf_inv c" "live c = live b" "n \<le> m_max c" "m_size c = m_size b"
    using assms by (auto simp: c_def intro!: inv_intros)
  have "resize fresh n b = Inr (c\<lparr>m_size := n\<rparr>)"
    using assms by (simp add: resize_def c_def)
  moreover have "take (min n (m_size b)) (live (c\<lparr>m_size := n\<rparr>)) = take (min n (m_size b)) (live c)"
    using c(3,4) by (simp add: live_def min.assoc min.commute [of n])
  ultimately show ?thesis using c by (simp add: buf_inv_def)
qed

lemma copy_assign_ok:
  assumes "buf_inv b" "buf_inv other"
  shows "\<exists>b'. copy_assign fresh other b = Inr b' \<and> buf_inv b' \<and> live b' = live other"
proof -
  let ?z = "b\<lparr>m_size := 0\<rparr>"
  define c where "c = (if m_max b < m_size other then grown fresh (m_max other) ?z else ?z)"
  have z: "buf_inv ?z" using assms by (simp add: buf_inv_def)
  have le: "m_size other \<le> m_max other" using assms by (simp add: buf_inv_def)
  have c: "buf_inv c" "m_size other \<le> m_max c" "m_size c = 0"
    using z le assms by (auto simp: c_def intro!: grown_inv)
  have l: "length (live other) = m_size other" using assms by simp
  have "(if m_max ?z < m_size other then reserve fresh (m_max other) ?z else Inr ?z) = Inr c"
    using z le by (simp add: c_def)
  then have "copy_assign fresh other b =
      Inr (c\<lparr>m_size := m_size other, m_buffer := overwrite 0 (live other) (m_buffer c)\<rparr>)"
    using assms(2) c l by (simp add: copy_assign_def Let_def memcpy_at_def buf_inv_def live_def)
  moreover have "take (m_size other) (overwrite 0 (live other) (m_buffer c)) = live other"
    using take_overwrite [of 0 "live other" "m_buffer c"] c l by (simp add: buf_inv_def)
  ultimately show ?thesis using c l
    by (simp add: buf_inv_def live_def [of "c\<lparr>m_size := _, m_buffer := _\<rparr>"])
qed

subsection \<open>Invariant and abstraction of ioBufferEx\<close>

definition ex_inv :: "'a iobuffer_ex \<Rightarrow> bool" where
  "ex_inv e \<longleftrightarrow> buf_inv (base e) \<and> m_Pos e \<le> m_size (base e)"

definition ex_live :: "'a iobuffer_ex \<Rightarrow> 'a list" where
  "ex_live e = drop (m_Pos e) (live (base e))"

lemma length_ex_live [simp]: "ex_inv e \<Longrightarrow> length (ex_live e) = ex_size e"
  by (simp add: ex_inv_def ex_live_def ex_size_def)

lemma ex_new_inv [inv_intros]: "ex_inv (ex_new fresh)"
  by (simp add: ex_inv_def ex_new_def ioBuffer_new_inv)

lemma ex_live_new [simp]: "ex_live (ex_new fresh) = []"
  by (simp add: ex_live_def ex_new_def)

lemma expand_ex_new [simp]: "m_expand_size (base (ex_new fresh)) = 0x1000"
  by (simp add: ex_new_def ioBuffer_new_def)

text \<open>\<open>data()\<close> points at the live bytes.\<close>

lemma take_ex_data: "ex_inv e \<Longrightarrow> n \<le> ex_size e \<Longrightarrow> take n (ex_data e) = take n (ex_live e)"
  by (simp add: ex_inv_def ex_data_def ex_live_def live_def ex_size_def drop_take)

lemma ex_size_le_data: "ex_inv e \<Longrightarrow> ex_size e \<le> length (ex_data e)"
  by (simp add: ex_inv_def ex_data_def ex_size_def buf_inv_def diff_le_mono)

lemma ex_compact_ok:
  assumes e: "ex_inv e"
  shows "\<exists>e'. ex_compact n e = Inr e' \<and> ex_inv e' \<and> ex_live e' = ex_live e \<and>
     m_expand_size (base e') = m_expand_size (base e)"
proof -
  obtain b where "pop_front (m_Pos e) (base e) = Inr b" "buf_inv b"
      "live b = drop (m_Pos e) (live (base e))" "m_expand_size b = m_expand_size (base e)"
    using e pop_front_ok [of "base e" "m_Pos e"] by (auto simp: ex_inv_def)
  then show ?thesis using e by (auto simp: ex_compact_def ex_inv_def ex_live_def)
qed

lemma ex_push_back_ok:
  assumes "ex_inv e"
  shows "\<exists>e'. ex_push_back fresh xs e = Inr e' \<and> ex_inv e' \<and> ex_live e' = ex_live e @ xs \<and>
     m_expand_size (base e') = m_expand_size (base e)"
proof -
  obtain c where c: "ex_compact (length xs) e = Inr c" "ex_inv c" "ex_live c = ex_live e"
      "m_expand_size (base c) = m_expand_size (base e)"
    using ex_compact_ok [OF assms] by blast
  then have inv: "buf_inv (base c)" and pos: "m_Pos c \<le> m_size (base c)"
    by (simp_all add: ex_inv_def)
  obtain b where b: "push_back_n fresh xs (base c) = Inr b" "buf_inv b"
      "live b = live (base c) @ xs" "m_expand_size b = m_expand_size (base c)"
    using push_back_n_ok [OF inv] by blast
  have "m_size b = m_size (base c) + length xs"
    using arg_cong [OF b(3), of length] b(2) inv by simp
  then show ?thesis using b c pos inv
    by (simp add: ex_push_back_def ex_inv_def ex_live_def)
qed

lemma ex_emplace_ok:
  assumes "ex_inv e"
  shows "\<exists>e'. ex_emplace fresh n e = Inr e' \<and> ex_inv e' \<and> ex_live e' = ex_live e \<and>
     m_size (base e') + n \<le> m_max (base e')"
proof -
  obtain c where c: "ex_compact n e = Inr c" "ex_inv c" "ex_live c = ex_live e"
    using ex_compact_ok [OF assms] by blast
  then have inv: "buf_inv (base c)" and pos: "m_Pos c \<le> m_size (base c)"
    by (simp_all add: ex_inv_def)
  obtain b where "emplace fresh n (base c) = Inr b" "buf_inv b" "live b = live (base c)"
      "m_size b = m_size (base c)" "m_size b + n \<le> m_max b"
    using emplace_ok [OF inv] by blast
  then show ?thesis using c pos by (simp add: ex_emplace_def ex_inv_def ex_live_def)
qed

lemma ex_reset_inv [inv_intros]: "ex_inv e \<Longrightarrow> ex_inv (ex_reset e)"
  by (simp add: ex_inv_def ex_reset_def buf_clear_def buf_inv_def)

lemma ex_live_reset [simp]: "ex_live (ex_reset e) = []"
  by (simp add: ex_reset_def buf_clear_def ex_live_def live_def)

lemma expand_reset [simp]: "m_expand_size (base (ex_reset e)) = m_expand_size (base e)"
  by (simp add: ex_reset_def buf_clear_def)

lemma ex_pop_front_inv [inv_intros]: "ex_inv e \<Longrightarrow> ex_inv (ex_pop_front n e)"
  by (auto simp: ex_pop_front_def Let_def ex_inv_def ex_reset_def buf_clear_def buf_inv_def)

lemma ex_live_pop_front [simp]:
  "ex_inv e \<Longrightarrow> ex_live (ex_pop_front n e) = drop n (ex_live e)"
  by (auto simp: ex_pop_front_def Let_def ex_live_def ex_inv_def add.commute
        ex_reset_def buf_clear_def live_def buf_inv_def)

lemma expand_pop_front [simp]:
  "m_expand_size (base (ex_pop_front n e)) = m_expand_size (base e)"
  by (simp add: ex_pop_front_def Let_def)

lemma ex_empty_iff: "ex_inv e \<Longrightarrow> fst (ex_empty e) \<longleftrightarrow> ex_live e = []"
  by (auto simp: ex_empty_def ex_inv_def ex_live_def buf_empty_def live_def buf_inv_def)

lemma ex_empty_snd:
  "ex_inv e \<Longrightarrow> ex_inv (snd (ex_empty e)) \<and> ex_live (snd (ex_empty e)) = ex_live e \<and>
     m_expand_size (base (snd (ex_empty e))) = m_expand_size (base e)"
  by (auto simp: ex_empty_def ex_inv_def ex_live_def ex_reset_def buf_clear_def live_def buf_inv_def)

lemma ex_clear_live: "ex_inv e \<Longrightarrow> ex_inv (ex_clear e) \<and> ex_live (ex_clear e) = []"
  by (simp add: ex_clear_def ex_pop_front_inv)

lemma ex_at_live:
  "ex_inv e \<Longrightarrow> pos < ex_size e \<Longrightarrow>
     \<exists>off. ex_at pos e = Inr off \<and> m_buffer (base e) ! off = ex_live e ! pos"
  by (auto simp: ex_at_def ex_inv_def ex_size_def ex_live_def live_def buf_inv_def)

lemma ex_reserve_ok:
  assumes "ex_inv e"
  shows "\<exists>e'. ex_reserve fresh c e = Inr e' \<and> ex_inv e' \<and> ex_live e' = ex_live e \<and>
     c \<le> m_max (base e') - m_Pos e'"
proof -
  have b: "buf_inv (base e)" "m_Pos e \<le> m_size (base e)" "m_Pos e \<le> m_max (base e)"
    using assms by (auto simp: ex_inv_def buf_inv_def)
  show ?thesis
  proof (cases "c < m_max (base e) - m_Pos e")
    case True
    then show ?thesis using assms b by (simp add: ex_reserve_def ex_max_def)
  next
    case False
    then have "m_max (base e) \<le> m_Pos e + c" by simp
    then show ?thesis using False b
      by (auto simp: ex_reserve_def ex_max_def ex_inv_def ex_live_def intro!: inv_intros)
  qed
qed

lemma ex_append_ok:
  assumes e: "ex_inv e"
    and f: "\<And>room. m_expand_size (base e) \<le> room \<Longrightarrow> reads_within f room"
  shows "\<exists>room e'. m_expand_size (base e) \<le> room \<and> ex_append fresh f e = Inr (fst (f room), e') \<and>
     ex_inv e' \<and> ex_live e' = ex_live e @ snd (f room) \<and>
     m_expand_size (base e') = m_expand_size (base e)"
proof -
  have inv: "buf_inv (base e)" "m_Pos e \<le> m_size (base e)" using e by (auto simp: ex_inv_def)
  from append_with_ok [OF inv(1) f] obtain room b where
    "m_expand_size (base e) \<le> room" "append_with fresh f (base e) = Inr (fst (f room), b)"
    "buf_inv b" "live b = live (base e) @ snd (f room)"
    "m_size b = m_size (base e) + length (snd (f room))" "m_expand_size b = m_expand_size (base e)"
    by blast
  then show ?thesis using inv
    by (intro exI [of _ room] exI [of _ "e\<lparr>base := b\<rparr>"])
       (simp add: ex_append_def ex_inv_def ex_live_def)
qed

subsection \<open>The contract of a byte queue\<close>

text \<open>What a reader of the buffers relies on, as operations on the byte string.\<close>

datatype 'a qop = Push "'a list" | Pop nat | Read "'a list"

text \<open>The specification: a list; popping more than there is and reading more than one
  \<open>append\<close> is sure to have room for are outside the contract.\<close>

fun spec_step :: "nat \<Rightarrow> 'a qop \<Rightarrow> 'a list \<Rightarrow> 'a list option" where
  "spec_step room (Push xs) q = Some (q @ xs)"
| "spec_step room (Pop n) q = (if n \<le> length q then Some (drop n q) else None)"
| "spec_step room (Read xs) q = (if length xs \<le> room then Some (q @ xs) else None)"

fun spec_run :: "nat \<Rightarrow> 'a qop list \<Rightarrow> 'a list \<Rightarrow> 'a list option" where
  "spec_run room [] q = Some q"
| "spec_run room (p # ps) q =
     (case spec_step room p q of None \<Rightarrow> None | Some q' \<Rightarrow> spec_run room ps q')"

text \<open>A program of queue operations run on the code's own operations.\<close>

fun queue_step :: "('a list \<Rightarrow> 'q \<Rightarrow> 'q res) \<Rightarrow> (nat \<Rightarrow> 'q \<Rightarrow> 'q res) \<Rightarrow>
    ('a list \<Rightarrow> 'q \<Rightarrow> 'q res) \<Rightarrow> 'a qop \<Rightarrow> 'q \<Rightarrow> 'q res" where
  "queue_step push pop rd (Push xs) q = push xs q"
| "queue_step push pop rd (Pop n) q = pop n q"
| "queue_step push pop rd (Read xs) q = rd xs q"

fun queue_run :: "('a list \<Rightarrow> 'q \<Rightarrow> 'q res) \<Rightarrow> (nat \<Rightarrow> 'q \<Rightarrow> 'q res) \<Rightarrow>
    ('a list \<Rightarrow> 'q \<Rightarrow> 'q res) \<Rightarrow> 'a qop list \<Rightarrow> 'q \<Rightarrow> 'q res" where
  "queue_run push pop rd [] q = Inr q"
| "queue_run push pop rd (p # ps) q =
     bind_res (queue_step push pop rd p q) (queue_run push pop rd ps)"

locale byte_queue =
  fixes inv :: "'q \<Rightarrow> bool"
    and contents :: "'q \<Rightarrow> 'a list"
    and room :: "'q \<Rightarrow> nat"
    and push :: "'a list \<Rightarrow> 'q \<Rightarrow> 'q res"
    and pop :: "nat \<Rightarrow> 'q \<Rightarrow> 'q res"
    and rd :: "'a list \<Rightarrow> 'q \<Rightarrow> 'q res"
  assumes push_law: "inv q \<Longrightarrow>
      \<exists>q'. push xs q = Inr q' \<and> inv q' \<and> contents q' = contents q @ xs \<and> room q' = room q"
    and pop_law: "inv q \<Longrightarrow> n \<le> length (contents q) \<Longrightarrow>
      \<exists>q'. pop n q = Inr q' \<and> inv q' \<and> contents q' = drop n (contents q) \<and> room q' = room q"
    and rd_law: "inv q \<Longrightarrow> length xs \<le> room q \<Longrightarrow>
      \<exists>q'. rd xs q = Inr q' \<and> inv q' \<and> contents q' = contents q @ xs \<and> room q' = room q"
begin

lemma step_refines:
  assumes "inv q" "spec_step (room q) p (contents q) = Some ys"
  shows "\<exists>q'. queue_step push pop rd p q = Inr q' \<and> inv q' \<and> contents q' = ys \<and> room q' = room q"
  using assms push_law pop_law rd_law by (cases p) (auto split: if_splits)

lemma run_refines:
  assumes "inv q" "spec_run (room q) ps (contents q) = Some ys"
  shows "\<exists>q'. queue_run push pop rd ps q = Inr q' \<and> inv q' \<and> contents q' = ys \<and> room q' = room q"
  using assms
proof (induction ps arbitrary: q)
  case Nil
  then show ?case by simp
next
  case (Cons p ps)
  then obtain zs where zs: "spec_step (room q) p (contents q) = Some zs"
      "spec_run (room q) ps zs = Some ys"
    by (auto split: option.splits)
  obtain q' where q': "queue_step push pop rd p q = Inr q'" "inv q'" "contents q' = zs" "room q' = room q"
    using step_refines [OF Cons.prems(1) zs(1)] by blast
  then show ?case using Cons.IH [of q'] zs(2) by auto
qed

end

text \<open>One read of exactly \<open>xs\<close>, as \<open>append\<close> performs it.\<close>

definition recv_of :: "'a list \<Rightarrow> nat \<Rightarrow> int \<times> 'a list" where
  "recv_of xs room = (int (length xs), xs)"

lemma recv_of_within [simp]: "reads_within (recv_of xs) room \<longleftrightarrow> length xs \<le> room"
  by (auto simp: reads_within_def recv_of_def)

definition read_into :: "(nat \<Rightarrow> 'a) \<Rightarrow> 'a list \<Rightarrow> 'a iobuffer \<Rightarrow> 'a iobuffer res" where
  "read_into fresh xs b = bind_res (append_with fresh (recv_of xs) b) (\<lambda>(r, b). Inr b)"

definition ex_read_into :: "(nat \<Rightarrow> 'a) \<Rightarrow> 'a list \<Rightarrow> 'a iobuffer_ex \<Rightarrow> 'a iobuffer_ex res" where
  "ex_read_into fresh xs e = bind_res (ex_append fresh (recv_of xs) e) (\<lambda>(r, e). Inr e)"

definition ex_pop :: "nat \<Rightarrow> 'a iobuffer_ex \<Rightarrow> 'a iobuffer_ex res" where
  "ex_pop n e = Inr (ex_pop_front n e)"

lemma read_into_ok:
  assumes "buf_inv b" "length xs \<le> m_expand_size b"
  shows "\<exists>b'. read_into fresh xs b = Inr b' \<and> buf_inv b' \<and> live b' = live b @ xs \<and>
     m_expand_size b' = m_expand_size b"
  using append_with_ok [OF assms(1), of "recv_of xs" fresh] assms(2)
  by (auto simp: read_into_def recv_of_def)

lemma ex_read_into_ok:
  assumes "ex_inv e" "length xs \<le> m_expand_size (base e)"
  shows "\<exists>e'. ex_read_into fresh xs e = Inr e' \<and> ex_inv e' \<and> ex_live e' = ex_live e @ xs \<and>
     m_expand_size (base e') = m_expand_size (base e)"
  using ex_append_ok [OF assms(1), of "recv_of xs" fresh] assms(2)
  by (auto simp: ex_read_into_def recv_of_def)

interpretation iobuf: byte_queue buf_inv live m_expand_size
    "push_back_n fresh" pop_front "read_into fresh" for fresh
proof
  fix q :: "'a iobuffer" and xs :: "'a list" and n
  assume q: "buf_inv q"
  show "\<exists>q'. push_back_n fresh xs q = Inr q' \<and> buf_inv q' \<and> live q' = live q @ xs \<and>
      m_expand_size q' = m_expand_size q"
    using push_back_n_ok [OF q] by blast
  show "\<exists>q'. pop_front n q = Inr q' \<and> buf_inv q' \<and> live q' = drop n (live q) \<and>
      m_expand_size q' = m_expand_size q" if "n \<le> length (live q)"
    using pop_front_ok [OF q, of n] that q by auto
  show "\<exists>q'. read_into fresh xs q = Inr q' \<and> buf_inv q' \<and> live q' = live q @ xs \<and>
      m_expand_size q' = m_expand_size q" if "length xs \<le> m_expand_size q"
    using read_into_ok [OF q that] .
qed

interpretation iobufex: byte_queue ex_inv ex_live "\<lambda>e. m_expand_size (base e)"
    "ex_push_back fresh" ex_pop "ex_read_into fresh" for fresh
proof
  fix q :: "'a iobuffer_ex" and xs :: "'a list" and n
  assume q: "ex_inv q"
  show "\<exists>q'. ex_push_back fresh xs q = Inr q' \<and> ex_inv q' \<and> ex_live q' = ex_live q @ xs \<and>
      m_expand_size (base q') = m_expand_size (base q)"
    using ex_push_back_ok [OF q] .
  show "\<exists>q'. ex_pop n q = Inr q' \<and> ex_inv q' \<and> ex_live q' = drop n (ex_live q) \<and>
      m_expand_size (base q') = m_expand_size (base q)"
    using q by (simp add: ex_pop_def ex_pop_front_inv)
  show "\<exists>q'. ex_read_into fresh xs q = Inr q' \<and> ex_inv q' \<and> ex_live q' = ex_live q @ xs \<and>
      m_expand_size (base q') = m_expand_size (base q)" if "length xs \<le> m_expand_size (base q)"
    using ex_read_into_ok [OF q that] .
qed

subsection \<open>Properties\<close>

text \<open>Any sequence of \<^verbatim>\<open>push_back(ptr, n)\<close>, \<^verbatim>\<open>pop_front\<close> and
  \<^verbatim>\<open>append\<close> calls on a new \<^verbatim>\<open>ioBuffer\<close> of any initial capacity that the list
  specification accepts (no pop of more than is there, no single read of more than
  the expand size) runs without undefined behaviour, failed assertion or throw, and leaves
  exactly the bytes of the specification: growth and compaction lose and reorder nothing.\<close>

theorem ioBuffer_refines_queue:
  assumes "spec_run 0x1000 ops [] = Some xs"
  shows "\<exists>b. queue_run (push_back_n fresh) pop_front (read_into fresh) ops (ioBuffer_new fresh n) = Inr b \<and>
    buf_inv b \<and> live b = xs"
proof -
  have "m_expand_size (ioBuffer_new fresh n) = 0x1000" by (simp add: ioBuffer_new_def)
  then show ?thesis
    using iobuf.run_refines [where q = "ioBuffer_new fresh n" and ps = ops and ys = xs and fresh = fresh]
      assms ioBuffer_new_inv [of fresh n] by auto
qed

theorem ioBuffer_refines_queue_witness:
  "\<exists>b. queue_run (push_back_n (\<lambda>_. 0)) pop_front (read_into (\<lambda>_. 0))
      [Push [1, 2, 3], Pop 2, Read [4]] (ioBuffer_new (\<lambda>_. 0) 0) = Inr b \<and>
    buf_inv b \<and> live b = [3, 4 :: byte]"
  by (rule ioBuffer_refines_queue) simp

text \<open>C5: The same for \<^verbatim>\<open>ioBufferEx\<close>, whose \<^verbatim>\<open>pop_front\<close> only moves the read
  position and whose \<^verbatim>\<open>push_back\<close> compacts when the room runs out: through every
  interleaving it shows the bytes of the list specification.\<close>

theorem ioBufferEx_refines_queue:
  assumes "spec_run 0x1000 ops [] = Some xs"
  shows "\<exists>e. queue_run (ex_push_back fresh) ex_pop (ex_read_into fresh) ops (ex_new fresh) = Inr e \<and>
    ex_inv e \<and> ex_live e = xs \<and> ex_size e = length xs \<and> (fst (ex_empty e) \<longleftrightarrow> xs = [])"
proof -
  obtain e where "queue_run (ex_push_back fresh) ex_pop (ex_read_into fresh) ops (ex_new fresh) = Inr e"
      "ex_inv e" "ex_live e = xs"
    using iobufex.run_refines [where q = "ex_new fresh" and ps = ops and ys = xs and fresh = fresh] assms
    by (auto simp: ex_new_inv)
  then show ?thesis by (auto simp: ex_empty_iff length_ex_live [symmetric])
qed

theorem ioBufferEx_refines_queue_witness:
  "\<exists>e. queue_run (ex_push_back (\<lambda>_. 0)) ex_pop (ex_read_into (\<lambda>_. 0))
      [Push [1, 2, 3], Pop 2, Read [4, 5], Pop 1] (ex_new (\<lambda>_. 0)) = Inr e \<and>
    ex_inv e \<and> ex_live e = [4, 5 :: byte] \<and> ex_size e = length [4, 5 :: byte] \<and>
    (fst (ex_empty e) \<longleftrightarrow> [4, 5 :: byte] = [])"
  by (rule ioBufferEx_refines_queue) simp

text \<open>Move construction hands the contents over unchanged, but the moved-from buffer
  keeps claiming 0x1000 cells of capacity over a null pointer, so the next
  \<^verbatim>\<open>push_back\<close> on it (of a cell, or of any non-empty range that fits the claimed
  capacity) writes through null.\<close>

theorem moved_from_push_is_ub:
  "fst (ioBuffer_move b) = b \<and> push_back fresh x (snd (ioBuffer_move b)) = Inl Ub \<and>
   (\<forall>xs. push_back_n fresh xs (snd (ioBuffer_move b)) = Inl Ub \<longleftrightarrow> length xs \<in> {1..0x1000})"
proof (intro conjI allI)
  show "fst (ioBuffer_move b) = b"
    by (simp add: ioBuffer_move_def ioBuffer_move_assign_def)
  show "push_back fresh x (snd (ioBuffer_move b)) = Inl Ub"
    by (simp add: ioBuffer_move_def ioBuffer_move_assign_def ioBuffer_null_def push_back_def
        store_back_def memcpy_at_def)
  show "push_back_n fresh xs (snd (ioBuffer_move b)) = Inl Ub \<longleftrightarrow> length xs \<in> {1..0x1000}" for xs
    by (cases xs) (auto simp: ioBuffer_move_def ioBuffer_move_assign_def ioBuffer_null_def
        push_back_n_def memcpy_at_def reserve_def)
qed

end
