(* ===== verification/Msg.thy ===== *)
theory Msg
  imports Prelude
begin

text \<open>
  The two frame formats of the message services: \<^verbatim>\<open>MSG\<close> (\<^verbatim>\<open>src/src/msg/msg.h\<close>,
  \<^verbatim>\<open>msg.cpp\<close>: length, command and error, then the payload) and \<^verbatim>\<open>PBMSG\<close>
  (\<^verbatim>\<open>pbmsg/pbmsg.h\<close>, \<^verbatim>\<open>pbmsg.cpp\<close>: the length, then a protobuf message, built by
  \<^verbatim>\<open>pbmsg/serialize.cpp\<close>). The code casts a \<^verbatim>\<open>const char *\<close> to the struct, so a
  field is a little-endian read of the memory behind the pointer, and reading past that
  memory is \<open>Ub\<close>. A \<^verbatim>\<open>u32\<close> wraps at 32 bits; an \<^verbatim>\<open>int\<close> field is a 32-bit word read
  with \<open>sint\<close>.
\<close>

type_synonym i32 = "32 word"

subsection \<open>Reads and writes through a cast pointer\<close>

definition read_u32 :: "nat \<Rightarrow> byte list \<Rightarrow> u32 res" where
  "read_u32 off mem =
     (if off + 4 \<le> length mem then Inr (of_le_bytes (take 4 (drop off mem))) else Inl Ub)"

definition write_bytes :: "nat \<Rightarrow> byte list \<Rightarrow> byte list \<Rightarrow> byte list res" where
  "write_bytes off xs mem =
     (if off + length xs \<le> length mem then Inr (overwrite off xs mem) else Inl Ub)"

definition read_bytes :: "nat \<Rightarrow> nat \<Rightarrow> byte list \<Rightarrow> byte list res" where
  "read_bytes off n mem = (if off + n \<le> length mem then Inr (take n (drop off mem)) else Inl Ub)"

lemma read_u32_at:
  "length pre = off \<Longrightarrow> read_u32 off (pre @ le_bytes 4 w @ post) = Inr w"
  by (simp add: read_u32_def)

lemma read_u32_prefix:
  assumes "off + 4 \<le> k" "k \<le> length mem" "take k mem = take k mem'"  "k \<le> length mem'"
  shows "read_u32 off mem = read_u32 off mem'"
proof -
  have "take 4 (drop off mem) = take 4 (drop off (take k mem))"
    using assms(1) by (simp add: drop_take min_def)
  also have "\<dots> = take 4 (drop off mem')"
    using assms(1) by (simp add: assms(3) drop_take min_def)
  finally show ?thesis using assms by (simp add: read_u32_def)
qed

subsection \<open>MSG\<close>

text \<open>\<^verbatim>\<open>sizeof(MSG)\<close>: three 4-byte fields and the flexible array.\<close>

definition sizeof_MSG :: nat where "sizeof_MSG = 12"

definition MSG_size :: "byte list \<Rightarrow> u32 res" where
  "MSG_size mem = read_u32 0 mem"

definition MSG_message_size :: "byte list \<Rightarrow> u32 res" where
  "MSG_message_size mem = bind_res (read_u32 0 mem) (\<lambda>len. Inr (word_of_nat sizeof_MSG + len))"

definition MSG_message_method :: "byte list \<Rightarrow> i32 res" where
  "MSG_message_method mem = read_u32 4 mem"

definition MSG_last_error :: "byte list \<Rightarrow> i32 res" where
  "MSG_last_error mem = read_u32 8 mem"

text \<open>\<^verbatim>\<open>data()\<close> with \<^verbatim>\<open>size()\<close>: the range of memory handed to a handler; a
  range that leaves the memory is \<open>Ub\<close> when it is read.\<close>

definition MSG_data :: "byte list \<Rightarrow> u32 \<Rightarrow> byte list res" where
  "MSG_data mem len = read_bytes sizeof_MSG (unat len) mem"

definition MSG_set :: "i32 \<Rightarrow> u32 \<Rightarrow> i32 \<Rightarrow> byte list \<Rightarrow> byte list res" where
  "MSG_set cmd s err t =
     bind_res (write_bytes 0 (le_bytes 4 s) t) (\<lambda>t.
       bind_res (write_bytes 4 (le_bytes 4 cmd) t) (write_bytes 8 (le_bytes 4 err)))"

definition MSG_make_err :: "i32 \<Rightarrow> i32 \<Rightarrow> byte list \<Rightarrow> u32 \<Rightarrow> byte list res" where
  "MSG_make_err cmd err buf s =
     (let t = replicate (sizeof_MSG + unat s) 0
      in bind_res (MSG_set cmd s err t) (\<lambda>t.
           if 0 < unat s then bind_res (read_bytes 0 (unat s) buf) (\<lambda>xs. write_bytes sizeof_MSG xs t)
           else Inr t))"

definition MSG_make :: "i32 \<Rightarrow> byte list \<Rightarrow> u32 \<Rightarrow> byte list res" where
  "MSG_make cmd buf s =
     (let t = replicate (sizeof_MSG + unat s) 0
      in bind_res (MSG_set cmd s 0 t) (\<lambda>t.
           if 0 < unat s then bind_res (read_bytes 0 (unat s) buf) (\<lambda>xs. write_bytes sizeof_MSG xs t)
           else Inr t))"

definition MSG_make_empty :: "i32 \<Rightarrow> i32 \<Rightarrow> byte list res" where
  "MSG_make_empty cmd err = MSG_set cmd 0 err (replicate sizeof_MSG 0)"

text \<open>The layout on the wire.\<close>

definition MSG_bytes :: "i32 \<Rightarrow> i32 \<Rightarrow> byte list \<Rightarrow> byte list" where
  "MSG_bytes cmd err xs =
     le_bytes 4 (word_of_nat (length xs) :: u32) @ le_bytes 4 cmd @ le_bytes 4 err @ xs"

lemma length_MSG_bytes [simp]: "length (MSG_bytes cmd err xs) = sizeof_MSG + length xs"
  by (simp add: MSG_bytes_def sizeof_MSG_def)

lemma MSG_set_bytes:
  "MSG_set cmd s err (replicate (sizeof_MSG + n) 0) =
     Inr (le_bytes 4 s @ le_bytes 4 cmd @ le_bytes 4 err @ replicate n 0)"
  by (simp add: MSG_set_def write_bytes_def overwrite_def sizeof_MSG_def)

lemma MSG_make_err_bytes:
  assumes "unat s \<le> length buf"
  shows "MSG_make_err cmd err buf s = Inr (MSG_bytes cmd err (take (unat s) buf))"
proof -
  have "word_of_nat (length (take (unat s) buf)) = s" using assms by simp
  then show ?thesis using assms
    unfolding MSG_make_err_def Let_def MSG_set_bytes bind_res.simps MSG_bytes_def
    by (simp add: read_bytes_def write_bytes_def sizeof_MSG_def overwrite_def)
qed

lemma MSG_make_is_err: "MSG_make cmd buf s = MSG_make_err cmd 0 buf s"
  by (simp add: MSG_make_def MSG_make_err_def)

lemma MSG_make_empty_bytes: "MSG_make_empty cmd err = Inr (MSG_bytes cmd err [])"
  using MSG_set_bytes [of cmd 0 err 0] by (simp add: MSG_make_empty_def MSG_bytes_def)

text \<open>The fields of a frame at the front of any memory.\<close>

lemma MSG_fields:
  assumes "mem = MSG_bytes cmd err xs @ rest"
  shows "MSG_size mem = Inr (word_of_nat (length xs))"
    and "MSG_message_method mem = Inr cmd" and "MSG_last_error mem = Inr err"
    and "MSG_message_size mem = Inr (word_of_nat (sizeof_MSG + length xs))"
  using read_u32_at [of "[]" 0 "word_of_nat (length xs)" "le_bytes 4 cmd @ le_bytes 4 err @ xs @ rest"]
    read_u32_at [of "le_bytes 4 (word_of_nat (length xs) :: u32)" 4 cmd "le_bytes 4 err @ xs @ rest"]
    read_u32_at [of "le_bytes 4 (word_of_nat (length xs) :: u32) @ le_bytes 4 cmd" 8 err "xs @ rest"]
  by (simp_all add: assms MSG_bytes_def MSG_size_def MSG_message_method_def MSG_last_error_def
      MSG_message_size_def)

lemma MSG_data_frame:
  assumes "mem = MSG_bytes cmd err xs @ rest" "length xs < 2 ^ 32"
  shows "MSG_data mem (word_of_nat (length xs)) = Inr xs"
proof -
  have "unat (word_of_nat (length xs) :: u32) = length xs" using assms(2) by (simp add: unat_of_nat)
  then show ?thesis
    by (simp add: MSG_data_def read_bytes_def assms(1) MSG_bytes_def sizeof_MSG_def)
qed

lemma sint_message_size:
  assumes "h + n < 2 ^ 31"
  shows "sint (word_of_nat (h + n) :: u32) = int (h + n)"
  using int32_of_nat_small [OF assms] unfolding int32_of_nat_def .

subsection \<open>mydispatch: what one call of dispatch does with the bytes it is given\<close>

text \<open>
  \<^verbatim>\<open>msg/mydispatch.h\<close>. The dispatcher state is the type variable \<open>'st\<close>; \<open>tick\<close> and
  \<open>on_dispatch\<close> are the calls it makes on it (\<^verbatim>\<open>service/msgserver.inl\<close> and
  \<^verbatim>\<open>service/msgdispatch.inl\<close>). The answer is the number of bytes consumed.
\<close>

definition mydispatch_server ::
    "('st \<Rightarrow> 'st) \<Rightarrow> (i32 \<Rightarrow> byte list \<Rightarrow> 'st \<Rightarrow> 'st res) \<Rightarrow> byte list \<Rightarrow> int \<Rightarrow> 'st \<Rightarrow> (int \<times> 'st) res" where
  "mydispatch_server tick on_dispatch mem sz st =
     bind_res (MSG_message_size mem) (\<lambda>total.
       if sz < sint total then Inr (0, st)
       else let st = tick st in
         bind_res (MSG_size mem) (\<lambda>len.
           bind_res
             (if 0 < unat len then
                bind_res (MSG_message_method mem) (\<lambda>cmd.
                  bind_res (MSG_data mem len) (\<lambda>xs. on_dispatch cmd xs st))
              else Inr st)
             (\<lambda>st. Inr (sint total, st))))"

definition mydispatch_client ::
    "('st \<Rightarrow> 'st) \<Rightarrow> (i32 \<Rightarrow> i32 \<Rightarrow> byte list \<Rightarrow> 'st \<Rightarrow> 'st res) \<Rightarrow> byte list \<Rightarrow> int \<Rightarrow> 'st \<Rightarrow>
     (int \<times> 'st) res" where
  "mydispatch_client tick on_dispatch mem sz st =
     bind_res (MSG_message_size mem) (\<lambda>total.
       if sz < sint total then Inr (0, st)
       else let st = tick st in
         bind_res (MSG_message_method mem) (\<lambda>cmd.
           bind_res (MSG_last_error mem) (\<lambda>err.
             bind_res (MSG_size mem) (\<lambda>len.
               bind_res (MSG_data mem len) (\<lambda>xs.
                 bind_res (on_dispatch cmd err xs st) (\<lambda>st. Inr (sint total, st)))))))"

lemma mydispatch_server_full:
  assumes "mem = MSG_bytes cmd err xs @ rest" "sizeof_MSG + length xs < 2 ^ 31"
    "int (sizeof_MSG + length xs) \<le> sz"
  shows "mydispatch_server tick on_dispatch mem sz st =
    bind_res (if xs = [] then Inr (tick st) else on_dispatch cmd xs (tick st))
      (\<lambda>st. Inr (int (sizeof_MSG + length xs), st))"
proof -
  have "unat (word_of_nat (length xs) :: u32) = length xs" using assms(2) by (simp add: unat_of_nat)
  then show ?thesis
    using MSG_fields [OF assms(1)] MSG_data_frame [OF assms(1)] sint_message_size [OF assms(2)] assms(2,3)
    by (simp add: mydispatch_server_def Let_def del: of_nat_add)
qed

lemma mydispatch_client_full:
  assumes "mem = MSG_bytes cmd err xs @ rest" "sizeof_MSG + length xs < 2 ^ 31"
    "int (sizeof_MSG + length xs) \<le> sz"
  shows "mydispatch_client tick on_dispatch mem sz st =
    bind_res (on_dispatch cmd err xs (tick st)) (\<lambda>st. Inr (int (sizeof_MSG + length xs), st))"
  using MSG_fields [OF assms(1)] MSG_data_frame [OF assms(1)] sint_message_size [OF assms(2)] assms(2,3)
  by (simp add: mydispatch_client_def Let_def del: of_nat_add)

text \<open>A frame of which at least the length field has arrived waits for the rest.\<close>

lemma MSG_message_size_partial:
  assumes "4 \<le> k" "k \<le> length mem" "take k mem = take k (MSG_bytes cmd err xs)"
    "k \<le> sizeof_MSG + length xs"
  shows "MSG_message_size mem = Inr (word_of_nat (sizeof_MSG + length xs))"
proof -
  have "read_u32 0 mem = read_u32 0 (MSG_bytes cmd err xs)"
    using assms by (intro read_u32_prefix [of _ k]) simp_all
  also have "\<dots> = Inr (word_of_nat (length xs))"
    using MSG_fields(1) [of "MSG_bytes cmd err xs" cmd err xs "[]"] by (simp add: MSG_size_def)
  finally show ?thesis by (simp add: MSG_message_size_def)
qed

lemma mydispatch_partial:
  assumes "4 \<le> k" "k \<le> length mem" "take k mem = take k (MSG_bytes cmd err xs)"
    "k < sizeof_MSG + length xs" "sizeof_MSG + length xs < 2 ^ 31"
  shows "mydispatch_server tick on_dispatch mem (int k) st = Inr (0, st)"
    "mydispatch_client tick on_dispatch' mem (int k) st = Inr (0, st)"
  using MSG_message_size_partial [OF assms(1-3)] sint_message_size [OF assms(5)] assms(4)
  by (simp_all add: mydispatch_server_def mydispatch_client_def del: of_nat_add)

subsection \<open>PBMSG\<close>

definition sizeof_PBMSG :: nat where "sizeof_PBMSG = 4"

definition PBMSG_message_size :: "byte list \<Rightarrow> u32 res" where
  "PBMSG_message_size mem = bind_res (read_u32 0 mem) (\<lambda>len. Inr (word_of_nat sizeof_PBMSG + len))"

definition PBMSG_size :: "byte list \<Rightarrow> u32 res" where
  "PBMSG_size mem = read_u32 0 mem"

definition PBMSG_data :: "byte list \<Rightarrow> u32 \<Rightarrow> byte list res" where
  "PBMSG_data mem len = read_bytes sizeof_PBMSG (unat len) mem"

text \<open>
  The generated class \<^verbatim>\<open>MsgBase\<close> as \<^verbatim>\<open>pbmsg.proto\<close> declares it; \<^verbatim>\<open>'any\<close> is a packed
  message. How the protobuf library writes one is the parameter \<open>ser\<close>, with
  \<^verbatim>\<open>ByteSize\<close> the length of what it writes.
\<close>

record 'any MsgBase =
  mb_server :: string
  mb_method :: string
  mb_code :: string
  mb_session :: string
  mb_error :: i32
  mb_index :: u64
  mb_data :: "'any option"

definition MsgBase_new :: "'any MsgBase" where
  "MsgBase_new = \<lparr>mb_server = [], mb_method = [], mb_code = [], mb_session = [], mb_error = 0,
     mb_index = 0, mb_data = None\<rparr>"

definition MsgBase_set :: "'any MsgBase \<Rightarrow> string \<Rightarrow> string \<Rightarrow> i32 \<Rightarrow> 'any MsgBase" where
  "MsgBase_set b SRV CMD err = b\<lparr>mb_server := SRV, mb_method := CMD, mb_error := err\<rparr>"

text \<open>\<^verbatim>\<open>SerializeToArray(data, size)\<close> refuses a buffer that is too small and writes
  nothing then.\<close>

definition SerializeToArray :: "byte list \<Rightarrow> nat \<Rightarrow> nat \<Rightarrow> byte list \<Rightarrow> byte list res" where
  "SerializeToArray body off n mem = (if length body \<le> n then write_bytes off body mem else Inr mem)"

definition serialize :: "('any MsgBase \<Rightarrow> byte list) \<Rightarrow> 'any MsgBase \<Rightarrow> byte list res" where
  "serialize ser b =
     (let byteSize = length (ser b);
          t = replicate (sizeof_PBMSG + byteSize) 0
      in bind_res (write_bytes 0 (le_bytes 4 (word_of_nat byteSize :: u32)) t) (\<lambda>t.
           bind_res (PBMSG_size t) (\<lambda>n. SerializeToArray (ser b) sizeof_PBMSG (unat n) t)))"

definition serialize_code where
  "serialize_code ser SRV CMD err code =
     serialize ser ((MsgBase_set MsgBase_new SRV CMD err)\<lparr>mb_code := code\<rparr>)"

definition serialize_cls where
  "serialize_cls ser SRV CMD err cls =
     serialize ser ((MsgBase_set MsgBase_new SRV CMD err)\<lparr>mb_data := Some cls\<rparr>)"

definition serialize_sess where
  "serialize_sess ser SRV CMD err sess cls =
     serialize ser ((MsgBase_set MsgBase_new SRV CMD err)\<lparr>mb_session := sess, mb_data := Some cls\<rparr>)"

definition serialize_index_sess where
  "serialize_index_sess ser SRV CMD err index sess cls =
     serialize ser ((MsgBase_set MsgBase_new SRV CMD err)
       \<lparr>mb_session := sess, mb_index := index, mb_data := Some cls\<rparr>)"

definition serialize_index where
  "serialize_index ser SRV CMD err index cls =
     serialize ser ((MsgBase_set MsgBase_new SRV CMD err)\<lparr>mb_index := index, mb_data := Some cls\<rparr>)"

text \<open>\<^verbatim>\<open>rpc::serialize\<close> of \<^verbatim>\<open>msg/rpc.h\<close>: the same frame as \<^verbatim>\<open>MSG::make\<close> builds, around a
  protobuf body.\<close>

definition rpc_serialize :: "('m \<Rightarrow> byte list) \<Rightarrow> i32 \<Rightarrow> 'm \<Rightarrow> i32 \<Rightarrow> byte list res" where
  "rpc_serialize ser CMD cls err =
     (let byteSize = length (ser cls);
          t = replicate (sizeof_MSG + byteSize) 0
      in bind_res (MSG_set CMD (word_of_nat byteSize) err t) (\<lambda>t.
           if byteSize \<noteq> 0
           then bind_res (MSG_size t) (\<lambda>n. SerializeToArray (ser cls) sizeof_MSG (unat n) t)
           else Inr t))"

definition PBMSG_bytes :: "byte list \<Rightarrow> byte list" where
  "PBMSG_bytes xs = le_bytes 4 (word_of_nat (length xs) :: u32) @ xs"

lemma length_PBMSG_bytes [simp]: "length (PBMSG_bytes xs) = sizeof_PBMSG + length xs"
  by (simp add: PBMSG_bytes_def sizeof_PBMSG_def)

lemma PBMSG_fields:
  assumes "mem = PBMSG_bytes xs @ rest"
  shows "PBMSG_size mem = Inr (word_of_nat (length xs))"
    and "PBMSG_message_size mem = Inr (word_of_nat (sizeof_PBMSG + length xs))"
  using read_u32_at [of "[]" 0 "word_of_nat (length xs)" "xs @ rest"]
  by (simp_all add: assms PBMSG_bytes_def PBMSG_size_def PBMSG_message_size_def)

lemma PBMSG_data_frame:
  assumes "mem = PBMSG_bytes xs @ rest" "length xs < 2 ^ 32"
  shows "PBMSG_data mem (word_of_nat (length xs)) = Inr xs"
proof -
  have "unat (word_of_nat (length xs) :: u32) = length xs" using assms(2) by (simp add: unat_of_nat)
  then show ?thesis
    by (simp add: PBMSG_data_def read_bytes_def assms(1) PBMSG_bytes_def sizeof_PBMSG_def)
qed

lemma serialize_bytes:
  assumes "length (ser b) < 2 ^ 32"
  shows "serialize ser b = Inr (PBMSG_bytes (ser b))"
proof -
  let ?n = "length (ser b)"
  have u: "unat (word_of_nat ?n :: u32) = ?n" using assms by (simp add: unat_of_nat)
  have "write_bytes 0 (le_bytes 4 (word_of_nat ?n :: u32)) (replicate (sizeof_PBMSG + ?n) 0) =
      Inr (le_bytes 4 (word_of_nat ?n :: u32) @ replicate ?n 0)"
    by (simp add: write_bytes_def overwrite_def sizeof_PBMSG_def)
  moreover have "PBMSG_size (le_bytes 4 (word_of_nat ?n :: u32) @ replicate ?n 0) = Inr (word_of_nat ?n)"
    using read_u32_at [of "[]" 0 "word_of_nat ?n" "replicate ?n 0"] by (simp add: PBMSG_size_def)
  ultimately show ?thesis
    by (simp add: serialize_def Let_def SerializeToArray_def u write_bytes_def overwrite_def
        sizeof_PBMSG_def PBMSG_bytes_def)
qed

lemma rpc_serialize_bytes:
  assumes "length (ser cls) < 2 ^ 32"
  shows "rpc_serialize ser CMD cls err = Inr (MSG_bytes CMD err (ser cls))"
proof -
  let ?n = "length (ser cls)"
  let ?h = "le_bytes 4 (word_of_nat ?n :: u32) @ le_bytes 4 CMD @ le_bytes 4 err @ replicate ?n 0"
  have u: "unat (word_of_nat ?n :: u32) = ?n" using assms by (simp add: unat_of_nat)
  have "MSG_size ?h = Inr (word_of_nat ?n)"
    using read_u32_at [of "[]" 0 "word_of_nat ?n" "le_bytes 4 CMD @ le_bytes 4 err @ replicate ?n 0"]
    by (simp add: MSG_size_def)
  then show ?thesis
    unfolding rpc_serialize_def Let_def MSG_set_bytes bind_res.simps
    by (simp add: SerializeToArray_def u write_bytes_def overwrite_def sizeof_MSG_def MSG_bytes_def)
qed

subsection \<open>pbdispatch\<close>

text \<open>
  \<^verbatim>\<open>pbmsg/pbdispatch.h\<close>: the three functions differ in the table they dispatch
  through. \<open>parse\<close> is \<^verbatim>\<open>MsgBase::ParseFromArray\<close>, whose answer the code does
  not look at.
\<close>

definition pbdispatch ::
    "(byte list \<Rightarrow> 'base) \<Rightarrow> ('st \<Rightarrow> 'st) \<Rightarrow> ('base \<Rightarrow> 'st \<Rightarrow> 'st res) \<Rightarrow> byte list \<Rightarrow> int \<Rightarrow> 'st \<Rightarrow>
     (int \<times> 'st) res" where
  "pbdispatch parse tick on_dispatch mem sz st =
     bind_res (PBMSG_message_size mem) (\<lambda>total.
       if sz < sint total then Inr (0, st)
       else let st = tick st in
         bind_res (PBMSG_size mem) (\<lambda>len.
           bind_res
             (if 0 < unat len then
                bind_res (PBMSG_data mem len) (\<lambda>xs. on_dispatch (parse xs) st)
              else Inr st)
             (\<lambda>st. Inr (sint total, st))))"

lemma pbdispatch_full:
  assumes "mem = PBMSG_bytes xs @ rest" "sizeof_PBMSG + length xs < 2 ^ 31"
    "int (sizeof_PBMSG + length xs) \<le> sz"
  shows "pbdispatch parse tick on_dispatch mem sz st =
    bind_res (if xs = [] then Inr (tick st) else on_dispatch (parse xs) (tick st))
      (\<lambda>st. Inr (int (sizeof_PBMSG + length xs), st))"
proof -
  have "unat (word_of_nat (length xs) :: u32) = length xs" using assms(2) by (simp add: unat_of_nat)
  then show ?thesis
    using PBMSG_fields [OF assms(1)] PBMSG_data_frame [OF assms(1)] sint_message_size [OF assms(2)]
      assms(2,3)
    by (simp add: pbdispatch_def Let_def del: of_nat_add)
qed

lemma pbdispatch_partial:
  assumes "4 \<le> k" "k \<le> length mem" "take k mem = take k (PBMSG_bytes xs)"
    "k < sizeof_PBMSG + length xs" "sizeof_PBMSG + length xs < 2 ^ 31"
  shows "pbdispatch parse tick on_dispatch mem (int k) st = Inr (0, st)"
proof -
  have "read_u32 0 mem = read_u32 0 (PBMSG_bytes xs)"
    using assms by (intro read_u32_prefix [of _ k]) simp_all
  also have "\<dots> = Inr (word_of_nat (length xs))"
    using PBMSG_fields(1) [of "PBMSG_bytes xs" xs "[]"] by (simp add: PBMSG_size_def)
  finally have "PBMSG_message_size mem = Inr (word_of_nat (sizeof_PBMSG + length xs))"
    by (simp add: PBMSG_message_size_def)
  then show ?thesis
    using sint_message_size [OF assms(5)] assms(4) by (simp add: pbdispatch_def del: of_nat_add)
qed

subsection \<open>Properties\<close>

text \<open>C20: A frame built by \<^verbatim>\<open>MSG::make\<close> reads back exactly, with whatever follows it
  in memory: length, command, error, payload and, below 4 GB less the header, a
  \<^verbatim>\<open>message_size\<close> that is the number of bytes built.\<close>

theorem MSG_roundtrip:
  assumes "unat s \<le> length buf" "MSG_make_err cmd err buf s = Inr t" "unat s + sizeof_MSG < 2 ^ 32"
  shows "MSG_size (t @ rest) = Inr s \<and> MSG_message_method (t @ rest) = Inr cmd \<and>
    MSG_last_error (t @ rest) = Inr err \<and> MSG_data (t @ rest) s = Inr (take (unat s) buf) \<and>
    (\<exists>total. MSG_message_size (t @ rest) = Inr total \<and> unat total = length t)"
proof -
  have t: "t = MSG_bytes cmd err (take (unat s) buf)" using MSG_make_err_bytes [OF assms(1)] assms(2) by simp
  have l: "length (take (unat s) buf) = unat s" using assms(1) by simp
  have s: "unat s < 2 ^ 32" using unsigned_less [of s] by simp
  note f = MSG_fields [of "t @ rest" cmd err "take (unat s) buf" rest, unfolded l]
    MSG_data_frame [of "t @ rest" cmd err "take (unat s) buf" rest, unfolded l]
  have "sizeof_MSG + unat s < 2 ^ 32" using assms(3) by (simp only: add.commute)
  then have "unat (word_of_nat (sizeof_MSG + unat s) :: u32) = sizeof_MSG + unat s"
    by (rule unat_of_nat_u32)
  then have "unat (word_of_nat (sizeof_MSG + unat s) :: u32) = length t"
    unfolding t length_MSG_bytes l .
  then show ?thesis using f s t by auto
qed

theorem MSG_roundtrip_witness:
  "\<exists>t. MSG_make_err 7 0 [1, 2, 3] 2 = Inr t \<and>
     MSG_size (t @ [9]) = Inr 2 \<and> MSG_message_method (t @ [9]) = Inr 7 \<and>
     MSG_last_error (t @ [9]) = Inr 0 \<and> MSG_data (t @ [9]) 2 = Inr (take (unat (2 :: u32)) [1, 2, 3]) \<and>
     (\<exists>total. MSG_message_size (t @ [9]) = Inr total \<and> unat total = length t)"
proof -
  have m: "MSG_make_err 7 0 [1, 2, 3] 2 = Inr (MSG_bytes 7 0 [1, 2])"
    by (subst MSG_make_err_bytes) simp_all
  show ?thesis using MSG_roundtrip [OF _ m, of "[9]"] m by (auto simp: sizeof_MSG_def)
qed

text \<open>What \<^verbatim>\<open>serialize\<close> (the frame of every protobuf message the services send)
  builds is exactly the length of the message and then its bytes, below 4 GB: the length read back
  from the half-built frame is the one the protobuf library is given as its room, so it
  writes all of the message.\<close>

theorem serialize_is_frame:
  assumes "length (ser b) < 2 ^ 32"
  shows "serialize ser b = Inr (PBMSG_bytes (ser b)) \<and>
    PBMSG_size (PBMSG_bytes (ser b) @ rest) = Inr (word_of_nat (length (ser b))) \<and>
    PBMSG_data (PBMSG_bytes (ser b) @ rest) (word_of_nat (length (ser b))) = Inr (ser b)"
  using serialize_bytes [of ser b, OF assms] PBMSG_fields(1) [of _ "ser b" rest]
    PBMSG_data_frame [of _ "ser b" rest, OF _ assms] by blast

theorem serialize_is_frame_witness:
  "serialize (\<lambda>_. [8, 1]) (MsgBase_new :: unit MsgBase) = Inr (PBMSG_bytes [8, 1]) \<and>
   PBMSG_size (PBMSG_bytes [8, 1] @ [0]) = Inr (word_of_nat (length [8, 1 :: byte])) \<and>
   PBMSG_data (PBMSG_bytes [8, 1] @ [0]) (word_of_nat (length [8, 1 :: byte])) = Inr [8, 1]"
  using serialize_is_frame [of "\<lambda>_. [8, 1]" "MsgBase_new :: unit MsgBase" "[0]"] by simp

end
