(* ===== verification/Client.thy ===== *)
theory Client
  imports IoBuffer Msg
begin

text \<open>
  \<^verbatim>\<open>src/src/service/client.cpp\<close>: the connection object that reads a socket into an
  \<^verbatim>\<open>ioBufferEx\<close> and hands the bytes to the \<^verbatim>\<open>dispatch\<close> callback until it
  consumes no more. The socket is the list of answers \<^verbatim>\<open>::recv\<close> gives (a count and the
  bytes it wrote; after the last one, \<open>-1\<close>); \<^verbatim>\<open>dispatch\<close> is a function of the memory
  behind \<^verbatim>\<open>data()\<close>, of \<^verbatim>\<open>size()\<close> and of the state \<open>'st\<close> it works on. The locale
  \<open>stream_frames\<close> is what the loop needs of a frame format; both dispatchers of \<open>Msg\<close>
  are instances.
\<close>

subsection \<open>The class client\<close>

type_synonym 'st dispatcher = "byte list \<Rightarrow> int \<Rightarrow> 'st \<Rightarrow> (int \<times> 'st) res"

record 'st client =
  m_iobuf :: "byte iobuffer_ex"
  m_fd :: int
  m_thdid :: int
  dispatch :: "'st dispatcher option"

definition client_new :: "(nat \<Rightarrow> byte) \<Rightarrow> int \<Rightarrow> int \<Rightarrow> 'st client" where
  "client_new fresh thdid fd =
     \<lparr>m_iobuf = ex_new fresh, m_fd = fd, m_thdid = thdid, dispatch = None\<rparr>"

definition client_valid :: "'st client \<Rightarrow> bool" where
  "client_valid c \<longleftrightarrow> m_fd c \<noteq> -1"

definition client_clear :: "'st client \<Rightarrow> 'st client" where
  "client_clear c = c\<lparr>m_fd := -1\<rparr>"

lemma ex_pop_shrinks:
  assumes "0 < r" "(False, e') = ex_empty (ex_pop_front (nat r) e)"
  shows "ex_size e' < ex_size e"
proof -
  have "m_Pos e + nat r < m_size (base e)" "e' = e\<lparr>m_Pos := m_Pos e + nat r\<rparr>"
    using assms
    by (auto simp: ex_empty_def ex_pop_front_def Let_def ex_reset_def buf_clear_def buf_empty_def
        split: if_splits)
  then show ?thesis using assms(1) by (simp add: ex_size_def)
qed

text \<open>The \<^verbatim>\<open>__retry__\<close> loop: dispatch, drop what was consumed, again while
  anything is left.\<close>

function dispatch_loop :: "'st dispatcher \<Rightarrow> byte iobuffer_ex \<Rightarrow> 'st \<Rightarrow> (byte iobuffer_ex \<times> 'st) res" where
  "dispatch_loop f e st =
     bind_res (f (ex_data e) (int32_of_nat (ex_size e)) st) (\<lambda>(r, st).
       if 0 < r then
         (case ex_empty (ex_pop_front (nat r) e) of
            (True, e') \<Rightarrow> Inr (e', st)
          | (False, e') \<Rightarrow> dispatch_loop f e' st)
       else Inr (e, st))"
  by auto
termination
  by (relation "measure (\<lambda>(f, e, st). ex_size e)") (auto intro: ex_pop_shrinks)

declare dispatch_loop.simps [simp del]

text \<open>\<^verbatim>\<open>recv()\<close>: read until the socket answers 0 or less. One answer of
  \<^verbatim>\<open>::recv\<close> is a count and bytes, given the room.\<close>

type_synonym recv_answer = "nat \<Rightarrow> int \<times> byte list"

primrec client_recv :: "(nat \<Rightarrow> byte) \<Rightarrow> recv_answer list \<Rightarrow> 'st client \<Rightarrow> 'st \<Rightarrow>
    ('st client \<times> 'st) res" where
  "client_recv fresh [] c st =
     bind_res (ex_append fresh (\<lambda>_. (-1, [])) (m_iobuf c)) (\<lambda>(r, e). Inr (c\<lparr>m_iobuf := e\<rparr>, st))"
| "client_recv fresh (a # as) c st =
     bind_res (ex_append fresh a (m_iobuf c)) (\<lambda>(r, e).
       if 0 < r then
         (case dispatch c of
            Some f \<Rightarrow> bind_res (dispatch_loop f e st)
                        (\<lambda>(e, st). client_recv fresh as (c\<lparr>m_iobuf := e\<rparr>) st)
          | None \<Rightarrow> client_recv fresh as (c\<lparr>m_iobuf := ex_clear e\<rparr>) st)
       else Inr (c\<lparr>m_iobuf := e\<rparr>, st))"

subsection \<open>Streams of frames\<close>

text \<open>
  \<open>eat fs s\<close> takes from the byte string \<open>s\<close> the frames of \<open>fs\<close> that it holds
  in full: those frames, the others, and the bytes left. \<open>cuts_ok h fs p cs\<close>: reading
  the chunks \<open>cs\<close> after the left-over \<open>p\<close> never stops within the first \<open>h\<close> bytes of a
  frame.
\<close>

fun eat :: "'b list list \<Rightarrow> 'b list \<Rightarrow> 'b list list \<times> 'b list list \<times> 'b list" where
  "eat [] s = ([], [], s)"
| "eat (f # fs) s =
     (if length f \<le> length s
      then (case eat fs (drop (length f) s) of (d, r, p) \<Rightarrow> (f # d, r, p))
      else ([], f # fs, s))"

fun cuts_ok :: "nat \<Rightarrow> 'b list list \<Rightarrow> 'b list \<Rightarrow> 'b list list \<Rightarrow> bool" where
  "cuts_ok h fs p [] = True"
| "cuts_ok h fs p (c # cs) =
     (case eat fs (p @ c) of
        (d, r, q) \<Rightarrow> (q = [] \<or> h \<le> length q) \<and> cuts_ok h r q cs)"

text \<open>Left-over bytes: a proper prefix of the next frame.\<close>

fun leftover :: "'b list list \<Rightarrow> 'b list \<Rightarrow> bool" where
  "leftover [] p \<longleftrightarrow> p = []"
| "leftover (f # fs) p \<longleftrightarrow> length p < length f \<and> p = take (length p) f"

lemma eat_split:
  assumes "s @ rest = concat fs" "eat fs s = (d, r, p)" "\<And>f. f \<in> set fs \<Longrightarrow> f \<noteq> []"
  shows "fs = d @ r \<and> s = concat d @ p \<and> p @ rest = concat r \<and> leftover r p"
  using assms
proof (induction fs arbitrary: s d)
  case Nil
  then show ?case by simp
next
  case (Cons f fs)
  show ?case
  proof (cases "length f \<le> length s")
    case True
    then obtain s' where s: "s = f @ s'" using Cons.prems(1)
      by (metis append_eq_append_conv_if append_take_drop_id concat.simps(2))
    then obtain d' where d: "d = f # d'" "eat fs s' = (d', r, p)"
      using Cons.prems(2) by (auto split: prod.splits)
    have "s' @ rest = concat fs" using Cons.prems(1) s by simp
    then show ?thesis using Cons.IH [OF _ d(2)] Cons.prems(3) d(1) s by simp
  next
    case False
    then have "d = []" "r = f # fs" "p = s" using Cons.prems(2) by auto
    moreover have "s = take (length s) f"
      using False Cons.prems(1) by (metis append_eq_append_conv_if concat.simps(2) linorder_le_cases)
    ultimately show ?thesis using Cons.prems(1) False by simp
  qed
qed

text \<open>The contract of a dispatcher that consumes frames \<open>enc m\<close> and acts on each by
  \<open>act m\<close>, from states with \<open>good\<close>: it takes a whole frame at the front, and waits when at least \<open>h\<close> bytes but
  not the whole frame are there.\<close>

locale stream_frames =
  fixes disp :: "'st dispatcher"
    and h :: nat
    and ok :: "'m \<Rightarrow> bool"
    and enc :: "'m \<Rightarrow> byte list"
    and act :: "'m \<Rightarrow> 'st \<Rightarrow> 'st"
    and good :: "'st \<Rightarrow> bool"
  assumes nonempty: "ok m \<Longrightarrow> enc m \<noteq> []"
    and bounded: "ok m \<Longrightarrow> length (enc m) + 0x1000 < 2 ^ 31"
    and full: "ok m \<Longrightarrow> good st \<Longrightarrow> take (length (enc m)) mem = enc m \<Longrightarrow> int (length (enc m)) \<le> n \<Longrightarrow>
      disp mem n st = Inr (int (length (enc m)), act m st)"
    and keeps_good: "ok m \<Longrightarrow> good st \<Longrightarrow> good (act m st)"
    and partial: "ok m \<Longrightarrow> h \<le> k \<Longrightarrow> k < length (enc m) \<Longrightarrow> k \<le> length mem \<Longrightarrow>
      take k mem = take k (enc m) \<Longrightarrow> disp mem (int k) st = Inr (0, st)"
begin

lemma fold_good: "good st \<Longrightarrow> \<forall>m\<in>set ms. ok m \<Longrightarrow> good (fold act ms st)"
  by (induction ms arbitrary: st) (auto intro: keeps_good)

text \<open>The dispatch loop consumes the whole frames and leaves the partial one.\<close>

lemma loop_frames:
  assumes "ex_inv e" "ex_live e = concat (map enc ms) @ p" "\<forall>m\<in>set (ms @ ms'). ok m"
    "leftover (map enc ms') p" "p = [] \<or> h \<le> length p" "ex_live e \<noteq> []"
    "length (ex_live e) < 2 ^ 31" "good st"
  shows "\<exists>e'. dispatch_loop disp e st = Inr (e', fold act ms st) \<and> ex_inv e' \<and> ex_live e' = p \<and>
     m_expand_size (base e') = m_expand_size (base e)"
  using assms
proof (induction ms arbitrary: e st)
  case Nil
  then have p: "ex_live e = p" "p \<noteq> []" by auto
  then obtain m ms'' where ms': "ms' = m # ms''" using Nil.prems(4) by (cases ms') auto
  have m: "ok m" using Nil.prems(3) ms' by simp
  have size: "ex_size e = length p" using Nil.prems(1) p length_ex_live by metis
  have "length p < length (enc m)" "p = take (length p) (enc m)"
    using Nil.prems(4) ms' by simp_all
  moreover have "length p \<le> length (ex_data e)"
    using ex_size_le_data [OF Nil.prems(1)] size by simp
  moreover have "take (length p) (ex_data e) = p"
    using take_ex_data [OF Nil.prems(1), of "length p"] size p by simp
  ultimately have "disp (ex_data e) (int (length p)) st = Inr (0, st)"
    using m Nil.prems(5) p(2) by (intro partial [where m = m]) auto
  then show ?case using Nil.prems p size by (subst dispatch_loop.simps) simp
next
  case (Cons m ms)
  let ?n = "length (enc m)"
  have m: "ok m" "0 < ?n" using Cons.prems(3) nonempty [of m] by auto
  have live: "ex_live e = enc m @ concat (map enc ms) @ p" using Cons.prems(2) by simp
  have size: "ex_size e = length (ex_live e)" using Cons.prems(1) by simp
  have le: "?n \<le> ex_size e" unfolding size by (simp add: live)
  have "take ?n (ex_data e) = enc m"
    using take_ex_data [OF Cons.prems(1) le] live by simp
  moreover have "int32_of_nat (ex_size e) = int (ex_size e)"
    using Cons.prems(7) size by simp
  ultimately have d: "disp (ex_data e) (int32_of_nat (ex_size e)) st = Inr (int ?n, act m st)"
    using m le Cons.prems(8) by (simp add: full)
  have g: "good (act m st)" using keeps_good m(1) Cons.prems(8) by blast
  let ?e = "ex_pop_front ?n e"
  have e: "ex_inv ?e" "ex_live ?e = concat (map enc ms) @ p"
    using Cons.prems(1) live by (simp_all add: ex_pop_front_inv)
  obtain b e' where em: "ex_empty ?e = (b, e')" by fastforce
  then have e': "b \<longleftrightarrow> ex_live ?e = []" "ex_inv e'" "ex_live e' = concat (map enc ms) @ p"
      "m_expand_size (base e') = m_expand_size (base e)"
    using ex_empty_iff [OF e(1)] ex_empty_snd [OF e(1)] e(2) by auto
  show ?case
  proof (cases b)
    case True
    then have "concat (map enc ms) @ p = []" using e'(1) e(2) by simp
    then have "ms = []" "p = []"
      using Cons.prems(3) nonempty by (cases ms, auto)+
    then show ?thesis using d em True m e' by (subst dispatch_loop.simps) simp
  next
    case False
    then have ne: "ex_live e' \<noteq> []" using e'(1,3) e(2) by simp
    have "length (ex_live e') < 2 ^ 31" using Cons.prems(7) live e'(3) by simp
    then obtain e2 where "dispatch_loop disp e' (act m st) = Inr (e2, fold act ms (act m st))"
        "ex_inv e2" "ex_live e2 = p" "m_expand_size (base e2) = m_expand_size (base e')"
      using Cons.IH [OF e'(2,3) _ Cons.prems(4,5) ne _ g] Cons.prems(3) by auto
    then show ?thesis using d em False m e'(4) by (subst dispatch_loop.simps) simp
  qed
qed

text \<open>Chunk by chunk, of a stream that may go on (\<open>rest\<close> has not arrived): the frames that are complete
  have been acted on, what there is of the next is in the buffer.\<close>

lemma recv_prefix:
  assumes "ex_inv (m_iobuf c)" "dispatch c = Some disp" "m_expand_size (base (m_iobuf c)) = 0x1000"
    "ex_live (m_iobuf c) = p" "leftover (map enc ms) p"
    "p @ concat cs @ rest = concat (map enc ms)" "\<forall>m\<in>set ms. ok m"
    "\<forall>x\<in>set cs. x \<noteq> [] \<and> length x \<le> 0x1000" "cuts_ok h (map enc ms) p cs" "good st"
  shows "\<exists>c' ms1 ms2 q. client_recv fresh (map recv_of cs) c st = Inr (c', fold act ms1 st) \<and> ms = ms1 @ ms2 \<and>
     p @ concat cs = concat (map enc ms1) @ q \<and> leftover (map enc ms2) q \<and>
     ex_inv (m_iobuf c') \<and> ex_live (m_iobuf c') = q \<and> m_fd c' = m_fd c \<and> dispatch c' = dispatch c \<and>
     m_expand_size (base (m_iobuf c')) = 0x1000"
  using assms
proof (induction cs arbitrary: c p ms st)
  case Nil
  obtain e where "ex_append fresh (\<lambda>_. (-1, [])) (m_iobuf c) = Inr (-1, e)" "ex_inv e"
      "ex_live e = ex_live (m_iobuf c)" "m_expand_size (base e) = 0x1000"
    using ex_append_ok [OF Nil.prems(1), of "\<lambda>_. (-1, [])" fresh] Nil.prems(3) by (auto simp: reads_within_def)
  then show ?case using Nil.prems(4,5)
    by (intro exI [of _ "c\<lparr>m_iobuf := e\<rparr>"] exI [of _ "[]"] exI [of _ ms] exI [of _ p]) simp
next
  case (Cons x cs)
  have x: "x \<noteq> []" "length x \<le> 0x1000" using Cons.prems(8) by simp_all
  obtain e where e: "ex_append fresh (recv_of x) (m_iobuf c) = Inr (int (length x), e)" "ex_inv e"
      "ex_live e = p @ x" "m_expand_size (base e) = 0x1000"
    using ex_append_ok [OF Cons.prems(1), of "recv_of x" fresh] x(2) Cons.prems(3,4)
    by (auto simp: recv_of_def)
  obtain d r q where eat: "eat (map enc ms) (p @ x) = (d, r, q)" by (cases "eat (map enc ms) (p @ x)") auto
  have "(p @ x) @ concat cs @ rest = concat (map enc ms)" using Cons.prems(6) by simp
  moreover have "\<And>f. f \<in> set (map enc ms) \<Longrightarrow> f \<noteq> []"
    using Cons.prems(7) nonempty by auto
  ultimately have sp: "map enc ms = d @ r" "p @ x = concat d @ q"
      "q @ concat cs @ rest = concat r" "leftover r q"
    using eat_split [OF _ eat] by blast+
  define ms1 where "ms1 = take (length d) ms"
  define ms2 where "ms2 = drop (length d) ms"
  have ms: "ms = ms1 @ ms2" "map enc ms1 = d" "map enc ms2 = r"
    using sp(1) by (simp_all add: ms1_def ms2_def take_map [symmetric] drop_map [symmetric])
  have cut: "q = [] \<or> h \<le> length q" "cuts_ok h r q cs"
    using Cons.prems(9) eat by auto
  have "length p + 0x1000 < 2 ^ 31"
  proof (cases ms)
    case Nil
    then show ?thesis using Cons.prems(5) by simp
  next
    case (Cons m ms0)
    then show ?thesis using Cons.prems(5,7) bounded [of m] by simp
  qed
  then have "length (ex_live e) < 2 ^ 31" using e(3) x(2) by simp
  moreover have "ex_live e = concat (map enc ms1) @ q" by (simp only: e(3) sp(2) ms(2))
  moreover have "ex_live e \<noteq> []" using e(3) x(1) by simp
  moreover have "\<forall>m\<in>set (ms1 @ ms2). ok m" "leftover (map enc ms2) q"
    using Cons.prems(7) ms sp(4) by simp_all
  ultimately obtain e2 where e2: "dispatch_loop disp e st = Inr (e2, fold act ms1 st)" "ex_inv e2"
      "ex_live e2 = q" "m_expand_size (base e2) = 0x1000"
    using loop_frames [OF e(2) _ _ _ cut(1), of ms1 ms2 st] e(4) Cons.prems(10) by metis
  have "good (fold act ms1 st)"
    using fold_good [OF Cons.prems(10)] Cons.prems(7) by (simp add: ms(1))
  then obtain c' ms3 ms4 q' where r: "client_recv fresh (map recv_of cs) (c\<lparr>m_iobuf := e2\<rparr>) (fold act ms1 st) =
      Inr (c', fold act ms3 (fold act ms1 st))" "ms2 = ms3 @ ms4" "q @ concat cs = concat (map enc ms3) @ q'"
      "leftover (map enc ms4) q'" "ex_inv (m_iobuf c')" "ex_live (m_iobuf c') = q'"
      "m_fd c' = m_fd c" "dispatch c' = dispatch c" "m_expand_size (base (m_iobuf c')) = 0x1000"
    using Cons.IH [of "c\<lparr>m_iobuf := e2\<rparr>" q ms2 "fold act ms1 st"] e2 ms sp cut(2) Cons.prems(2,7,8)
    by auto
  have "(p @ x) @ concat cs = concat (map enc (ms1 @ ms3)) @ q'"
    using r(3) by (simp add: sp(2) ms(2))
  then show ?case using e(1) e2(1) x(1) Cons.prems(2) ms(1) r
    by (intro exI [of _ c'] exI [of _ "ms1 @ ms3"] exI [of _ ms4] exI [of _ q']) auto
qed

text \<open>When all of it has arrived, all frames have been acted on.\<close>

lemma recv_frames:
  assumes "ex_inv (m_iobuf c)" "dispatch c = Some disp" "m_expand_size (base (m_iobuf c)) = 0x1000"
    "ex_live (m_iobuf c) = p" "leftover (map enc ms) p"
    "p @ concat cs = concat (map enc ms)" "\<forall>m\<in>set ms. ok m"
    "\<forall>x\<in>set cs. x \<noteq> [] \<and> length x \<le> 0x1000" "cuts_ok h (map enc ms) p cs" "good st"
  shows "\<exists>c'. client_recv fresh (map recv_of cs) c st = Inr (c', fold act ms st) \<and>
     ex_inv (m_iobuf c') \<and> ex_live (m_iobuf c') = [] \<and> m_fd c' = m_fd c \<and> dispatch c' = dispatch c \<and>
     m_expand_size (base (m_iobuf c')) = 0x1000"
proof -
  obtain c' ms1 ms2 q where r: "client_recv fresh (map recv_of cs) c st = Inr (c', fold act ms1 st)" "ms = ms1 @ ms2"
     "p @ concat cs = concat (map enc ms1) @ q" "leftover (map enc ms2) q"
     "ex_inv (m_iobuf c')" "ex_live (m_iobuf c') = q" "m_fd c' = m_fd c" "dispatch c' = dispatch c"
     "m_expand_size (base (m_iobuf c')) = 0x1000"
    using recv_prefix [OF assms(1-5), of cs "[]" st fresh] assms(6-) by auto
  have "q = concat (map enc ms2)" using r(2,3) assms(6) by simp
  then have "ms2 = []" "q = []" using r(4) by (cases ms2; simp)+
  then show ?thesis using r by auto
qed

end

subsection \<open>The frame formats are instances\<close>

text \<open>A frame \<open>(cmd, err, xs)\<close> that the code's \<^verbatim>\<open>int\<close> arithmetic can carry, and what
  the two dispatchers do with it, over a handler \<open>hnd\<close> that returns.\<close>

definition MSG_ok :: "i32 \<times> i32 \<times> byte list \<Rightarrow> bool" where
  "MSG_ok = (\<lambda>(cmd, err, xs). sizeof_MSG + length xs + 0x1000 < 2 ^ 31)"

definition MSG_frame :: "i32 \<times> i32 \<times> byte list \<Rightarrow> byte list" where
  "MSG_frame = (\<lambda>(cmd, err, xs). MSG_bytes cmd err xs)"

definition server_act ::
    "('st \<Rightarrow> 'st) \<Rightarrow> (i32 \<Rightarrow> byte list \<Rightarrow> 'st \<Rightarrow> 'st) \<Rightarrow> i32 \<times> i32 \<times> byte list \<Rightarrow> 'st \<Rightarrow> 'st" where
  "server_act tick hnd = (\<lambda>(cmd, err, xs) st. if xs = [] then tick st else hnd cmd xs (tick st))"

definition client_act ::
    "('st \<Rightarrow> 'st) \<Rightarrow> (i32 \<Rightarrow> i32 \<Rightarrow> byte list \<Rightarrow> 'st \<Rightarrow> 'st) \<Rightarrow> i32 \<times> i32 \<times> byte list \<Rightarrow> 'st \<Rightarrow> 'st" where
  "client_act tick hnd = (\<lambda>(cmd, err, xs) st. hnd cmd err xs (tick st))"

definition PBMSG_ok :: "byte list \<Rightarrow> bool" where
  "PBMSG_ok xs \<longleftrightarrow> sizeof_PBMSG + length xs + 0x1000 < 2 ^ 31"

definition pb_act :: "(byte list \<Rightarrow> 'b) \<Rightarrow> ('st \<Rightarrow> 'st) \<Rightarrow> ('b \<Rightarrow> 'st \<Rightarrow> 'st) \<Rightarrow> byte list \<Rightarrow> 'st \<Rightarrow> 'st" where
  "pb_act parse tick hnd = (\<lambda>xs st. if xs = [] then tick st else hnd (parse xs) (tick st))"

lemma front_frame: "take (length f) mem = f \<Longrightarrow> mem = f @ drop (length f) mem"
  by (metis append_take_drop_id)

lemma MSG_bytes_nonempty: "MSG_bytes cmd err xs \<noteq> []"
  by (simp add: MSG_bytes_def)

lemma PBMSG_bytes_nonempty: "PBMSG_bytes xs \<noteq> []"
  by (simp add: PBMSG_bytes_def)

interpretation msg_server: stream_frames "mydispatch_server tick (\<lambda>cmd xs st. Inr (hnd cmd xs st))" 4
    MSG_ok MSG_frame "server_act tick hnd" "\<lambda>_. True" for tick hnd
proof
  fix m :: "i32 \<times> i32 \<times> byte list" and mem :: "byte list" and n :: int and k :: nat and st
  assume ok: "MSG_ok m"
  obtain cmd err xs where m: "m = (cmd, err, xs)" by (cases m)
  have len: "sizeof_MSG + length xs < 2 ^ 31" using ok by (simp add: m MSG_ok_def)
  show "MSG_frame m \<noteq> []" by (simp add: m MSG_frame_def MSG_bytes_nonempty)
  show "length (MSG_frame m) + 0x1000 < 2 ^ 31" using ok by (simp add: m MSG_frame_def MSG_ok_def)
  show "mydispatch_server tick (\<lambda>cmd xs st. Inr (hnd cmd xs st)) mem n st =
      Inr (int (length (MSG_frame m)), server_act tick hnd m st)"
    if "take (length (MSG_frame m)) mem = MSG_frame m" "int (length (MSG_frame m)) \<le> n"
    using mydispatch_server_full [OF front_frame [OF that(1), unfolded m MSG_frame_def prod.case] len, of n tick
        "\<lambda>cmd xs st. Inr (hnd cmd xs st)" st]
      that(2) by (simp add: m MSG_frame_def server_act_def)
  show "mydispatch_server tick (\<lambda>cmd xs st. Inr (hnd cmd xs st)) mem (int k) st = Inr (0, st)"
    if "4 \<le> k" "k < length (MSG_frame m)" "k \<le> length mem" "take k mem = take k (MSG_frame m)"
    using that by (intro mydispatch_partial(1) [OF _ _ _ _ len]) (simp_all add: m MSG_frame_def)
qed simp

interpretation msg_client: stream_frames
    "mydispatch_client tick (\<lambda>cmd err xs st. Inr (hnd cmd err xs st))" 4
    MSG_ok MSG_frame "client_act tick hnd" "\<lambda>_. True" for tick hnd
proof
  fix m :: "i32 \<times> i32 \<times> byte list" and mem :: "byte list" and n :: int and k :: nat and st
  assume ok: "MSG_ok m"
  obtain cmd err xs where m: "m = (cmd, err, xs)" by (cases m)
  have len: "sizeof_MSG + length xs < 2 ^ 31" using ok by (simp add: m MSG_ok_def)
  show "MSG_frame m \<noteq> []" by (simp add: m MSG_frame_def MSG_bytes_nonempty)
  show "length (MSG_frame m) + 0x1000 < 2 ^ 31" using ok by (simp add: m MSG_frame_def MSG_ok_def)
  show "mydispatch_client tick (\<lambda>cmd err xs st. Inr (hnd cmd err xs st)) mem n st =
      Inr (int (length (MSG_frame m)), client_act tick hnd m st)"
    if "take (length (MSG_frame m)) mem = MSG_frame m" "int (length (MSG_frame m)) \<le> n"
    using mydispatch_client_full [OF front_frame [OF that(1), unfolded m MSG_frame_def prod.case] len, of n tick
        "\<lambda>cmd err xs st. Inr (hnd cmd err xs st)" st]
      that(2) by (simp add: m MSG_frame_def client_act_def)
  show "mydispatch_client tick (\<lambda>cmd err xs st. Inr (hnd cmd err xs st)) mem (int k) st = Inr (0, st)"
    if "4 \<le> k" "k < length (MSG_frame m)" "k \<le> length mem" "take k mem = take k (MSG_frame m)"
    using that by (intro mydispatch_partial(2) [OF _ _ _ _ len]) (simp_all add: m MSG_frame_def)
qed simp

interpretation pb: stream_frames "pbdispatch parse tick (\<lambda>b st. Inr (hnd b st))" 4
    PBMSG_ok PBMSG_bytes "pb_act parse tick hnd" "\<lambda>_. True" for parse tick hnd
proof
  fix xs :: "byte list" and mem :: "byte list" and n :: int and k :: nat and st
  assume ok: "PBMSG_ok xs"
  have len: "sizeof_PBMSG + length xs < 2 ^ 31" using ok by (simp add: PBMSG_ok_def)
  show "PBMSG_bytes xs \<noteq> []" by (rule PBMSG_bytes_nonempty)
  show "length (PBMSG_bytes xs) + 0x1000 < 2 ^ 31" using ok by (simp add: PBMSG_ok_def)
  show "pbdispatch parse tick (\<lambda>b st. Inr (hnd b st)) mem n st =
      Inr (int (length (PBMSG_bytes xs)), pb_act parse tick hnd xs st)"
    if "take (length (PBMSG_bytes xs)) mem = PBMSG_bytes xs" "int (length (PBMSG_bytes xs)) \<le> n"
    using pbdispatch_full [OF front_frame [OF that(1)] len, of n parse tick "\<lambda>b st. Inr (hnd b st)" st] that(2) by (simp add: pb_act_def)
  show "pbdispatch parse tick (\<lambda>b st. Inr (hnd b st)) mem (int k) st = Inr (0, st)"
    if "4 \<le> k" "k < length (PBMSG_bytes xs)" "k \<le> length mem" "take k mem = take k (PBMSG_bytes xs)"
    using that by (intro pbdispatch_partial [OF _ _ _ _ len]) simp_all
qed simp

subsection \<open>Properties\<close>

text \<open>A connection as \<^verbatim>\<open>msgserver\<close> or \<^verbatim>\<open>msgsession\<close> sets it up.\<close>

definition client_with :: "(nat \<Rightarrow> byte) \<Rightarrow> int \<Rightarrow> int \<Rightarrow> 'st dispatcher \<Rightarrow> 'st client" where
  "client_with fresh thdid fd f = (client_new fresh thdid fd)\<lparr>dispatch := Some f\<rparr>"

lemma client_with_fields [simp]:
  "m_iobuf (client_with fresh thdid fd f) = ex_new fresh" "m_fd (client_with fresh thdid fd f) = fd"
  "dispatch (client_with fresh thdid fd f) = Some f"
  by (simp_all add: client_with_def client_new_def)

text \<open>A reader between two frames.\<close>

definition idle_reader :: "'st dispatcher \<Rightarrow> 'st client \<Rightarrow> bool" where
  "idle_reader disp c \<longleftrightarrow> ex_inv (m_iobuf c) \<and> ex_live (m_iobuf c) = [] \<and> dispatch c = Some disp \<and>
     m_expand_size (base (m_iobuf c)) = 0x1000"

lemma idle_client_with: "idle_reader f (client_with fresh thdid fd f)"
  by (simp add: idle_reader_def ex_new_inv)

lemma leftover_Nil: "(\<And>f. f \<in> set fs \<Longrightarrow> f \<noteq> []) \<Longrightarrow> leftover fs []"
  by (cases fs) auto



text \<open>The same for the protobuf dispatchers (\<^verbatim>\<open>pbdispatch::server\<close>,
  \<^verbatim>\<open>client\<close>, \<^verbatim>\<open>clientex\<close>): every message is parsed from exactly its own bytes.\<close>

theorem pb_frames_independent_of_chunks:
  assumes "concat cs = concat (map PBMSG_bytes ms)" "\<forall>m\<in>set ms. PBMSG_ok m"
    "\<forall>x\<in>set cs. x \<noteq> [] \<and> length x \<le> 0x1000" "cuts_ok 4 (map PBMSG_bytes ms) [] cs"
  shows "\<exists>c'. client_recv fresh (map recv_of cs)
       (client_with fresh thdid fd (pbdispatch parse tick (\<lambda>b st. Inr (hnd b st)))) st =
     Inr (c', fold (pb_act parse tick hnd) ms st) \<and>
     ex_inv (m_iobuf c') \<and> ex_live (m_iobuf c') = [] \<and> m_fd c' = fd"
proof -
  have "leftover (map PBMSG_bytes ms) []"
    by (rule leftover_Nil) (auto simp: PBMSG_bytes_nonempty)
  then show ?thesis
    using pb.recv_frames [of
        "client_with fresh thdid fd (pbdispatch parse tick (\<lambda>b st. Inr (hnd b st)))" parse tick hnd
        "[]" ms cs fresh st] assms
    by (auto simp: ex_new_inv)
qed

theorem pb_frames_independent_of_chunks_witness:
  "\<exists>c'. client_recv (\<lambda>_. 0)
       (map recv_of [PBMSG_bytes [1] @ take 4 (PBMSG_bytes [2, 3]), drop 4 (PBMSG_bytes [2, 3])])
       (client_with (\<lambda>_. 0) 0 9 (pbdispatch (\<lambda>xs. xs) (\<lambda>st. st) (\<lambda>b st. Inr (st @ [b])))) [] =
     Inr (c', fold (pb_act (\<lambda>xs. xs) (\<lambda>st. st) (\<lambda>b st. st @ [b])) [[1], [2, 3]] []) \<and>
     ex_inv (m_iobuf c') \<and> ex_live (m_iobuf c') = [] \<and> m_fd c' = 9"
  by (rule pb_frames_independent_of_chunks)
     (simp_all add: PBMSG_ok_def PBMSG_bytes_def sizeof_PBMSG_def)

text \<open>A length field of \<open>2 ^ 31 - 12\<close> or more is taken: \<^verbatim>\<open>message_size\<close> wraps or
  turns negative as an \<^verbatim>\<open>int\<close>, the check lets it pass, and the handler is given a
  range of memory that reaches far outside the buffer. Any peer can send those four bytes.\<close>

theorem huge_length_overreads:
  assumes "MSG_size mem = Inr len" "2 ^ 31 - 12 \<le> unat len" "12 \<le> length mem" "length mem < 2 ^ 30"
    "12 \<le> sz"
  shows "mydispatch_server tick on_dispatch mem sz st = Inl Ub"
proof -
  have total: "MSG_message_size mem = Inr (12 + len)"
    using assms(1) by (simp add: MSG_message_size_def MSG_size_def sizeof_MSG_def)
  have small: "sint (12 + len) \<le> 12"
  proof (rule ccontr)
    assume "\<not> ?thesis"
    then have s: "12 < sint (12 + len)" by simp
    have "sint (12 + len) < 2 ^ 31" using sint_lt [of "12 + len"] by simp
    moreover have "uint (12 + len) = take_bit 32 (sint (12 + len))" by (simp add: uint_sint)
    ultimately have u: "uint (12 + len) = sint (12 + len)" using s by (simp add: take_bit_int_eq_self)
    have w: "uint (12 + len) = (12 + uint len) mod 4294967296" by (simp add: uint_word_ariths)
    have n: "uint len = int (unat len)" "unat len < 4294967296" "2147483636 \<le> unat len"
      using unsigned_less [of len, where 'a = nat] assms(2) by simp_all
    have "2147483636 \<le> uint len" "uint len < 4294967296"
      unfolding n(1) using n(2,3) by linarith+
    note b = w this
    have lt: "sint (12 + len) < 2147483648" using sint_lt [of "12 + len"] by simp
    show False
    proof (cases "12 + uint len < 4294967296")
      case True
      then have "uint (12 + len) = 12 + uint len" unfolding b(1) using b(2) by (intro mod_pos_pos_trivial) linarith+
      then show False using lt u b(2) by linarith
    next
      case False
      then have "(12 + uint len - 4294967296) mod 4294967296 = 12 + uint len - 4294967296"
        using b(3) by (intro mod_pos_pos_trivial) linarith+
      moreover have "(12 + uint len - 4294967296) mod 4294967296 = (12 + uint len) mod 4294967296"
        by (rule minus_mod_self2)
      ultimately show False using s u b(1,3) by linarith
    qed
  qed
  have "0 < unat len" using assms(2) by simp
  moreover have "MSG_data mem len = Inl Ub"
    using assms(2,4) by (simp add: MSG_data_def read_bytes_def sizeof_MSG_def)
  moreover have "\<exists>cmd. MSG_message_method mem = Inr cmd"
    using assms(3) by (simp add: MSG_message_method_def read_u32_def)
  ultimately show ?thesis
    using total small assms(1,5) by (auto simp: mydispatch_server_def Let_def)
qed

theorem huge_length_overreads_witness:
  "mydispatch_server (\<lambda>st. st) (\<lambda>_ _ st. Inr st) ([0xff, 0xff, 0xff, 0xff] @ replicate 8 0) 12 () = Inl Ub"
  by (rule huge_length_overreads [where len = "0xffffffff"])
     (simp_all add: MSG_size_def read_u32_def)

text \<open>The length is read before the size is checked, so when a read ends inside the
  length field the missing bytes are whatever the buffer held before: with three zero bytes of a frame
  received into a buffer whose cells are \<^verbatim>\<open>0xff\<close>, the server already calls the handler.\<close>

theorem split_length_reads_stale_bytes:
  "client_recv (\<lambda>_. 0xff) [recv_of [0, 0, 0]]
     (client_with (\<lambda>_. 0xff) thdid fd (mydispatch_server tick on_dispatch)) st = Inl Ub"
proof -
  define e :: "byte iobuffer_ex" where
    "e = \<lparr>base = \<lparr>m_max = 0x1000, m_size = 3, m_expand_size = 0x1000,
            m_buffer = overwrite 0 [0, 0, 0] (new_array (\<lambda>_. 0xff) 0x1000)\<rparr>, m_Pos = 0\<rparr>"
  have e: "ex_append (\<lambda>_. 0xff) (recv_of [0, 0, 0]) (ex_new (\<lambda>_. 0xff)) = Inr (3, e)"
    by (simp add: ex_append_def append_with_def ex_new_def ioBuffer_new_def emplace_def recv_of_def
        memcpy_at_def resize_def e_def)
  have data: "ex_data e = [0, 0, 0] @ replicate 0xffd 0xff" and size: "ex_size e = 3"
    by (simp_all add: e_def ex_data_def ex_size_def overwrite_def new_array_def map_replicate_const)
  have "mydispatch_server tick on_dispatch ([0, 0, 0] @ replicate 0xffd 0xff) 3 st = Inl Ub"
  proof -
    have f: "read_u32 0 ([0, 0, 0] @ replicate 0xffd 0xff) = Inr 0xff000000"
      by (simp add: read_u32_def)
    moreover have "\<exists>cmd. read_u32 4 ([0, 0, 0] @ replicate 0xffd 0xff) = Inr cmd"
      by (simp add: read_u32_def)
    moreover have "sint (0xff00000c :: u32) \<le> 3" by simp
    ultimately show ?thesis
      by (auto simp: mydispatch_server_def MSG_message_size_def MSG_size_def MSG_message_method_def
          MSG_data_def read_bytes_def sizeof_MSG_def Let_def)
  qed
  then have "dispatch_loop (mydispatch_server tick on_dispatch) e st = Inl Ub"
    by (subst dispatch_loop.simps) (simp add: data size)
  then show ?thesis by (simp add: e)
qed

text \<open>\<^verbatim>\<open>recv()\<close> treats the orderly close of the peer (\<^verbatim>\<open>::recv\<close> answers 0)
  as it treats \<^verbatim>\<open>EAGAIN\<close>: it returns with the connection still marked valid, keeps the
  bytes it has and does not read on. Closing is left to \<^verbatim>\<open>EPOLLHUP\<close>, which a half close does
  not raise.\<close>

theorem peer_close_keeps_client_valid:
  assumes "ex_inv (m_iobuf c)" "client_valid c"
  shows "\<exists>c'. client_recv fresh ((\<lambda>_. (0, [])) # as) c st = Inr (c', st) \<and> client_valid c' \<and>
    ex_live (m_iobuf c') = ex_live (m_iobuf c)"
proof -
  obtain e where "ex_append fresh (\<lambda>_. (0, [])) (m_iobuf c) = Inr (0, e)" "ex_live e = ex_live (m_iobuf c)"
    using ex_append_ok [OF assms(1), of "\<lambda>_. (0, [])" fresh] by (auto simp: reads_within_def)
  then show ?thesis using assms(2) by (auto simp: client_valid_def)
qed

theorem peer_close_keeps_client_valid_witness:
  "\<exists>c'. client_recv (\<lambda>_. 0) [\<lambda>_. (0, [])] (client_new (\<lambda>_. 0) 1 9) () = Inr (c', ()) \<and>
    client_valid c' \<and> ex_live (m_iobuf c') = ex_live (m_iobuf (client_new (\<lambda>_. 0) 1 9 :: unit client))"
  by (rule peer_close_keeps_client_valid) (simp_all add: client_new_def client_valid_def ex_new_inv)

end
