(* ===== verification/AsyncNet.thy ===== *)
theory AsyncNet
  imports Prelude "HOL-Library.Signed_Division"
begin

text \<open>
  \<^verbatim>\<open>src/src/net/asyncnet.cpp\<close>: the event loop of one thread. The state \<open>net\<close> has the
  fields of the class and the trace of the system calls made; what the kernel answers is a
  function of the trace and the call, what a user's callback does is a function \<open>usr\<close> of its
  name and the descriptor, a program over the same state (it may call any operation, and
  throw). Both are the environment, with the build's \<^verbatim>\<open>NDEBUG\<close>. An operation
  \<^verbatim>\<open>__f\<close> of the class is \<open>i_f\<close> here. Vectors have a capacity, since a growing
  \<^verbatim>\<open>resize\<close> moves the elements; the growth is the one of libstdc++. Log output is
  left out.
\<close>

subsection \<open>Kernel, callbacks, state\<close>

text \<open>\<^verbatim>\<open>struct itimerspec\<close>: seconds and nanoseconds of the value and of the interval.\<close>

record itimerspec =
  it_value_sec :: int
  it_value_nsec :: int
  it_interval_sec :: int
  it_interval_nsec :: int

datatype syscall =
    Socket
  | Fcntl_getfl int
  | Fcntl_setfl int int
  | Setsockopt int
  | Getsockopt int
  | Bind int string int
  | Listen int
  | Connect int string int
  | Accept int
  | Send int "byte list"
  | Close int
  | Epoll_create
  | Epoll_add int u64 u32
  | Epoll_mod int u64 u32
  | Epoll_del int
  | Eventfd
  | Eventfd_read int
  | Eventfd_write int
  | Timerfd_create
  | Timerfd_settime int itimerspec
  | Timerfd_gettime int
  | Timerfd_read int

text \<open>The answer: the return value, \<^verbatim>\<open>errno\<close> when that is \<open>-1\<close>, and what the call
  writes through a pointer (the socket error of \<open>Getsockopt\<close>, the time of
  \<open>Timerfd_gettime\<close>).\<close>

record answer =
  retval :: int
  err :: int
  out_err :: int
  out_time :: itimerspec

type_synonym trace = "(syscall \<times> answer) list"

record 'f vec =
  cells :: "'f option list"
  capacity :: nat

text \<open>What \<^verbatim>\<open>m_write\<close> holds: the lambda \<^verbatim>\<open>set_client\<close> puts there, or the user's.\<close>

datatype 'u wcb = Default_write | User_write 'u

record 'u net =
  m_epfd :: int
  m_running :: int
  m_client :: "'u vec"
  m_close :: "'u vec"
  m_read :: "'u vec"
  m_write :: "'u wcb vec"
  m_wbuffer :: "byte list list list"
  flag_close :: bool
  m_locked :: bool
  m_trigger :: "'u list"
  m_eventfd :: int
  errno :: int
  log :: trace

record 'u env =
  ndebug :: bool
  kernel :: "trace \<Rightarrow> syscall \<Rightarrow> answer"
  usr :: "'u \<Rightarrow> int \<Rightarrow> ('u net, unit) prog"

definition INVALID :: int where "INVALID = -1"

definition EAGAIN :: int where "EAGAIN = 11"
definition EINPROGRESS :: int where "EINPROGRESS = 115"

definition EPOLLIN :: u32 where "EPOLLIN = 0x001"
definition EPOLLOUT :: u32 where "EPOLLOUT = 0x004"
definition EPOLLERR :: u32 where "EPOLLERR = 0x008"
definition EPOLLHUP :: u32 where "EPOLLHUP = 0x010"
definition EPOLLET :: u32 where "EPOLLET = 0x80000000"

definition has_event :: "u32 \<Rightarrow> u32 \<Rightarrow> bool" where
  "has_event events m \<longleftrightarrow> events AND m \<noteq> 0"

datatype STATE = e_state_invalid | e_state_accept | e_state_connect | e_state_connect_ex
  | e_state_client | e_state_client_ex | e_state_event | e_state_timer | e_state_rtimer

fun state_code :: "STATE \<Rightarrow> int" where
  "state_code e_state_invalid = 0"
| "state_code e_state_accept = 1"
| "state_code e_state_connect = 2"
| "state_code e_state_connect_ex = 3"
| "state_code e_state_client = 4"
| "state_code e_state_client_ex = 5"
| "state_code e_state_event = 6"
| "state_code e_state_timer = 7"
| "state_code e_state_rtimer = 8"

subsection \<open>System calls\<close>

definition sys_answer :: "'u env \<Rightarrow> syscall \<Rightarrow> ('u net, answer) prog" where
  "sys_answer E c = (\<lambda>s.
     let a = kernel E (log s) c
     in Done a (s\<lparr>log := log s @ [(c, a)],
                  errno := (if retval a = -1 then err a else errno s)\<rparr>))"

definition sys :: "'u env \<Rightarrow> syscall \<Rightarrow> ('u net, int) prog" where
  "sys E c = bnd (sys_answer E c) (\<lambda>a. ret (retval a))"

definition sys_do :: "'u env \<Rightarrow> syscall \<Rightarrow> ('u net, unit) prog" where
  "sys_do E c = bnd (sys_answer E c) (\<lambda>_. skip)"

definition O_NONBLOCK :: int where "O_NONBLOCK = 0x800"

definition set_noblock :: "'u env \<Rightarrow> int \<Rightarrow> ('u net, unit) prog" where
  "set_noblock E fd =
     bnd (sys E (Fcntl_getfl fd)) (\<lambda>fl. sys_do E (Fcntl_setfl fd (O_NONBLOCK OR fl)))"

definition set_reuseaddr :: "'u env \<Rightarrow> int \<Rightarrow> ('u net, unit) prog" where
  "set_reuseaddr E fd = sys_do E (Setsockopt fd)"

definition getsockerr :: "'u env \<Rightarrow> int \<Rightarrow> ('u net, int) prog" where
  "getsockerr E fd =
     bnd (sys_answer E (Getsockopt fd)) (\<lambda>a. ret (if retval a = INVALID then INVALID else out_err a))"

text \<open>\<^verbatim>\<open>uint64_t(state) << 32 | uint64_t(fd)\<close>; the conversions sign-extend.\<close>

definition i_merge :: "int \<Rightarrow> int \<Rightarrow> u64" where
  "i_merge fd st = push_bit 32 (word_of_int st) OR word_of_int fd"

text \<open>\<^verbatim>\<open>int fd = u64 & 0xffffffff; int state = u64 >> 32;\<close>\<close>

definition event_fd :: "u64 \<Rightarrow> int" where
  "event_fd d = sint (ucast (d AND 0xffffffff) :: u32)"

definition event_state :: "u64 \<Rightarrow> int" where
  "event_state d = sint (ucast (drop_bit 32 d) :: u32)"

definition add_event :: "'u env \<Rightarrow> int \<Rightarrow> STATE \<Rightarrow> u32 \<Rightarrow> ('u net, unit) prog" where
  "add_event E fd st events =
     bnd (assertion (ndebug E) (fd \<noteq> INVALID)) (\<lambda>_.
       sys_do E (Epoll_add fd (i_merge fd (state_code st)) events))"

definition mod_event :: "'u env \<Rightarrow> int \<Rightarrow> STATE \<Rightarrow> u32 \<Rightarrow> ('u net, unit) prog" where
  "mod_event E fd st events =
     bnd (assertion (ndebug E) (fd \<noteq> INVALID)) (\<lambda>_.
       sys_do E (Epoll_mod fd (i_merge fd (state_code st)) events))"

definition del_event :: "'u env \<Rightarrow> int \<Rightarrow> ('u net, unit) prog" where
  "del_event E fd =
     bnd (assertion (ndebug E) (fd \<noteq> INVALID)) (\<lambda>_. sys_do E (Epoll_del fd))"

subsection \<open>Vectors of callbacks\<close>

definition vec_resize :: "nat \<Rightarrow> 'f vec \<Rightarrow> 'f vec" where
  "vec_resize n v =
     v\<lparr>cells := cells v @ replicate (n - length (cells v)) None,
       capacity := (if n \<le> capacity v then capacity v
                    else length (cells v) + max (length (cells v)) (n - length (cells v)))\<rparr>"

definition vec_grow :: "int \<Rightarrow> 'f vec \<Rightarrow> 'f vec" where
  "vec_grow fd v = (if length (cells v) \<le> nat fd then vec_resize (nat fd + 1) v else v)"

definition vec_set :: "int \<Rightarrow> 'f option \<Rightarrow> 'f vec \<Rightarrow> 'f vec" where
  "vec_set fd x v = v\<lparr>cells := (cells v)[nat fd := x]\<rparr>"

definition vec_clear :: "int \<Rightarrow> 'f vec \<Rightarrow> 'f vec" where
  "vec_clear fd v = (if 0 \<le> fd \<and> nat fd < length (cells v) then vec_set fd None v else v)"

definition slot :: "'f vec \<Rightarrow> int \<Rightarrow> 'f option" where
  "slot v fd = (if 0 \<le> fd \<and> nat fd < length (cells v) then cells v ! nat fd else None)"

text \<open>
  \<^verbatim>\<open>__emplace_back(vec, fd, obj)\<close>: the vector is grown to hold \<open>fd\<close>, the slot must be
  free and the callback not empty; a negative \<open>fd\<close>, let through by \<^verbatim>\<open>NDEBUG\<close>, is
  an access out of bounds.
\<close>

definition i_emplace_back ::
    "'u env \<Rightarrow> ('u net \<Rightarrow> 'f vec) \<Rightarrow> (('f vec \<Rightarrow> 'f vec) \<Rightarrow> 'u net \<Rightarrow> 'u net) \<Rightarrow> int \<Rightarrow> 'f option \<Rightarrow>
     ('u net, unit) prog" where
  "i_emplace_back E get upd fd obj =
     bnd (assertion (ndebug E) (0 \<le> fd)) (\<lambda>_.
       if fd < 0 then stuck Ub
       else bnd (modify (upd (vec_grow fd))) (\<lambda>_.
         bnd (gets (\<lambda>s. slot (get s) fd)) (\<lambda>old.
           bnd (assertion (ndebug E) (old = None)) (\<lambda>_.
             bnd (modify (upd (vec_set fd obj))) (\<lambda>_.
               assertion (ndebug E) (obj \<noteq> None))))))"

text \<open>
  \<^verbatim>\<open>__push_back(m_close, fd, m_close[from])\<close>: the argument is a reference into the vector
  itself, which dangles when the growth reallocates.
\<close>

definition i_push_back_close :: "'u env \<Rightarrow> int \<Rightarrow> int \<Rightarrow> ('u net, unit) prog" where
  "i_push_back_close E fd from =
     bnd (assertion (ndebug E) (0 \<le> fd)) (\<lambda>_.
       if fd < 0 then stuck Ub
       else bnd (gets m_close) (\<lambda>v.
         if length (cells v) \<le> nat fd \<and> capacity v < nat fd + 1 then stuck Ub
         else modify (\<lambda>s. s\<lparr>m_close := vec_set fd (slot v from) (vec_grow fd v)\<rparr>)))"

definition i_clear ::
    "(('f vec \<Rightarrow> 'f vec) \<Rightarrow> 'u net \<Rightarrow> 'u net) \<Rightarrow> int \<Rightarrow> ('u net, unit) prog" where
  "i_clear upd fd = modify (upd (vec_clear fd))"

definition i_call ::
    "'u env \<Rightarrow> ('u net \<Rightarrow> 'f vec) \<Rightarrow> ('f \<Rightarrow> int \<Rightarrow> ('u net, unit) prog) \<Rightarrow> int \<Rightarrow> int \<Rightarrow> ('u net, unit) prog" where
  "i_call E get run fd arg =
     bnd (gets get) (\<lambda>v.
       let inside = (0 \<le> fd \<and> nat fd < length (cells v))
       in bnd (assertion (ndebug E) inside) (\<lambda>_.
            if \<not> inside then stuck Ub
            else case slot v fd of None \<Rightarrow> skip | Some f \<Rightarrow> run f arg))"

subsection \<open>Write buffers\<close>

text \<open>\<^verbatim>\<open>get_wbuffer\<close> grows the vector; the list of one descriptor is then read and
  written in place.\<close>

definition get_wbuffer :: "'u env \<Rightarrow> int \<Rightarrow> ('u net, byte list list) prog" where
  "get_wbuffer E fd =
     bnd (assertion (ndebug E) (0 \<le> fd)) (\<lambda>_.
       if fd < 0 then stuck Ub
       else bnd (modify (\<lambda>s. if length (m_wbuffer s) \<le> nat fd
                   then s\<lparr>m_wbuffer := m_wbuffer s @ replicate (nat fd + 1 - length (m_wbuffer s)) []\<rparr>
                   else s)) (\<lambda>_.
              gets (\<lambda>s. m_wbuffer s ! nat fd)))"

definition set_wbuffer :: "int \<Rightarrow> byte list list \<Rightarrow> ('u net, unit) prog" where
  "set_wbuffer fd l = modify (\<lambda>s. s\<lparr>m_wbuffer := (m_wbuffer s)[nat fd := l]\<rparr>)"

subsection \<open>Closing\<close>

definition i_clientclose :: "'u env \<Rightarrow> int \<Rightarrow> ('u net, unit) prog" where
  "i_clientclose E fd =
     bnd (assertion (ndebug E) (fd \<noteq> INVALID)) (\<lambda>_.
       bnd (del_event E fd) (\<lambda>_.
         bnd (get_wbuffer E fd) (\<lambda>_.
           bnd (set_wbuffer fd []) (\<lambda>_.
             bnd (i_clear m_read_update fd) (\<lambda>_.
               bnd (i_clear m_write_update fd) (\<lambda>_.
                 bnd (i_clear m_client_update fd) (\<lambda>_.
                   bnd (i_call E m_close (usr E) fd fd) (\<lambda>_.
                     bnd (i_clear m_close_update fd) (\<lambda>_.
                       sys_do E (Close fd))))))))))"

definition i_clientclosed_already :: "'u env \<Rightarrow> int \<Rightarrow> ('u net, unit) prog" where
  "i_clientclosed_already E fd =
     bnd (assertion (ndebug E) (fd \<noteq> INVALID)) (\<lambda>_.
       bnd (get_wbuffer E fd) (\<lambda>_.
         bnd (set_wbuffer fd []) (\<lambda>_.
           bnd (i_clear m_read_update fd) (\<lambda>_.
             bnd (i_clear m_write_update fd) (\<lambda>_.
               bnd (i_clear m_client_update fd) (\<lambda>_.
                 i_clear m_close_update fd))))))"

subsection \<open>Sending\<close>

definition ev_in_out :: u32 where
  "ev_in_out = EPOLLIN OR EPOLLOUT OR EPOLLERR OR EPOLLHUP OR EPOLLET"

definition ev_in :: u32 where
  "ev_in = EPOLLIN OR EPOLLERR OR EPOLLHUP OR EPOLLET"

definition again :: "int \<Rightarrow> bool" where
  "again e \<longleftrightarrow> e = EAGAIN \<or> e = EINPROGRESS"

definition net_send :: "'u env \<Rightarrow> int \<Rightarrow> byte list \<Rightarrow> ('u net, int) prog" where
  "net_send E fd msg =
     bnd (get_wbuffer E fd) (\<lambda>lst.
       if lst \<noteq> [] then bnd (set_wbuffer fd (lst @ [msg])) (\<lambda>_. ret 0)
       else bnd (sys E (Send fd msg)) (\<lambda>count.
         bnd (if count = INVALID then
                bnd (gets errno) (\<lambda>e.
                  if again e then
                    bnd (mod_event E fd e_state_client ev_in_out) (\<lambda>_. set_wbuffer fd (lst @ [msg]))
                  else i_clientclose E fd)
              else assertion (ndebug E) (count = int (length msg)))
             (\<lambda>_. ret count)))"

text \<open>The loop of \<^verbatim>\<open>__send\<close>; its argument is what \<^verbatim>\<open>lst\<close> holds.\<close>

primrec send_loop :: "'u env \<Rightarrow> int \<Rightarrow> byte list list \<Rightarrow> ('u net, unit) prog" where
  "send_loop E fd [] = mod_event E fd e_state_client ev_in"
| "send_loop E fd (msg # rest) =
     bnd (sys E (Send fd msg)) (\<lambda>count.
       if count = INVALID then
         bnd (gets errno) (\<lambda>e.
           if again e then mod_event E fd e_state_client ev_in_out else i_clientclose E fd)
       else bnd (set_wbuffer fd rest) (\<lambda>_. send_loop E fd rest))"

definition i_send :: "'u env \<Rightarrow> int \<Rightarrow> ('u net, unit) prog" where
  "i_send E fd =
     bnd (assertion (ndebug E) (fd \<noteq> INVALID)) (\<lambda>_.
       bnd (gets m_wbuffer) (\<lambda>w.
         bnd (assertion (ndebug E) (0 \<le> fd \<and> nat fd < length w)) (\<lambda>_.
           bnd (get_wbuffer E fd) (send_loop E fd))))"

fun run_wcb :: "'u env \<Rightarrow> 'u wcb \<Rightarrow> int \<Rightarrow> ('u net, unit) prog" where
  "run_wcb E Default_write fd = i_send E fd"
| "run_wcb E (User_write u) fd = usr E u fd"

subsection \<open>Registration, connecting and listening\<close>

definition set_client :: "'u env \<Rightarrow> int \<Rightarrow> 'u option \<Rightarrow> 'u option \<Rightarrow> ('u net, int) prog" where
  "set_client E fd rd wr =
     bnd (i_emplace_back E m_read m_read_update fd rd) (\<lambda>_.
       bnd (i_emplace_back E m_write m_write_update fd
              (Some (case wr of Some u \<Rightarrow> User_write u | None \<Rightarrow> Default_write)))
         (\<lambda>_. ret fd))"

definition set_clientclose :: "'u env \<Rightarrow> int \<Rightarrow> 'u option \<Rightarrow> ('u net, int) prog" where
  "set_clientclose E fd cl =
     bnd (i_clear m_close_update fd) (\<lambda>_.
       bnd (i_emplace_back E m_close m_close_update fd cl) (\<lambda>_. ret fd))"

definition i_fd_add_event ::
    "'u env \<Rightarrow> int \<Rightarrow> STATE \<Rightarrow> 'u option \<Rightarrow> 'u option \<Rightarrow> ('u net, int) prog" where
  "i_fd_add_event E fd st cli cl =
     bnd (add_event E fd st (EPOLLIN OR EPOLLOUT OR EPOLLERR OR EPOLLHUP)) (\<lambda>_.
       bnd (i_emplace_back E m_client m_client_update fd cli) (\<lambda>_.
         bnd (i_emplace_back E m_close m_close_update fd cl) (\<lambda>_. ret fd)))"

text \<open>\<^verbatim>\<open>inet_pton\<close> and \<^verbatim>\<open>htons\<close> are part of the \<open>Connect\<close> and \<open>Bind\<close> calls; an
  address \<^verbatim>\<open>inet_addr\<close> does not read makes \<open>Bind\<close> answer \<open>-1\<close>.\<close>

definition net_connect ::
    "'u env \<Rightarrow> string \<Rightarrow> int \<Rightarrow> 'u option \<Rightarrow> 'u option \<Rightarrow> ('u net, int) prog" where
  "net_connect E ip port cli cl =
     bnd (sys E Socket) (\<lambda>fd.
       if fd = INVALID then ret INVALID
       else bnd (set_noblock E fd) (\<lambda>_.
         bnd (sys E (Connect fd ip port)) (\<lambda>r.
           bnd (gets errno) (\<lambda>e.
             if r = INVALID \<and> e = EINPROGRESS then i_fd_add_event E fd e_state_connect cli cl
             else bnd (case cl of Some u \<Rightarrow> usr E u fd | None \<Rightarrow> skip) (\<lambda>_.
               bnd (sys_do E (Close fd)) (\<lambda>_. ret INVALID))))))"

definition i_bind :: "'u env \<Rightarrow> string \<Rightarrow> int \<Rightarrow> ('u net, int) prog" where
  "i_bind E ip port =
     bnd (sys E Socket) (\<lambda>fd.
       if fd = INVALID then ret INVALID
       else bnd (assertion (ndebug E) (fd \<noteq> 0)) (\<lambda>_.
         bnd (set_reuseaddr E fd) (\<lambda>_.
           bnd (set_noblock E fd) (\<lambda>_.
             bnd (sys E (Bind fd ip port)) (\<lambda>r.
               if r < 0 then bnd (sys_do E (Close fd)) (\<lambda>_. ret INVALID)
               else bnd (sys E (Listen fd)) (\<lambda>r.
                 if r < 0 then bnd (sys_do E (Close fd)) (\<lambda>_. ret INVALID)
                 else ret fd))))))"

text \<open>\<^verbatim>\<open>std::lock_guard<std::mutex>\<close>: locking a mutex this thread already holds is
  undefined; the guard unlocks on a return and on a throw.\<close>

definition with_lock :: "('u net, 'a) prog \<Rightarrow> ('u net, 'a) prog" where
  "with_lock m = (\<lambda>s.
     if m_locked s then Stuck Ub
     else case m (s\<lparr>m_locked := True\<rparr>) of
            Done a s' \<Rightarrow> Done a (s'\<lparr>m_locked := False\<rparr>)
          | Threw s' \<Rightarrow> Threw (s'\<lparr>m_locked := False\<rparr>)
          | Stuck e \<Rightarrow> Stuck e)"

definition i_start :: "'u env \<Rightarrow> int \<Rightarrow> 'u option \<Rightarrow> 'u option \<Rightarrow> ('u net, int) prog" where
  "i_start E fd cli cl = with_lock (i_fd_add_event E fd e_state_accept cli cl)"

definition net_start ::
    "'u env \<Rightarrow> string \<Rightarrow> int \<Rightarrow> 'u option \<Rightarrow> 'u option \<Rightarrow> ('u net, int) prog" where
  "net_start E ip port cli cl =
     bnd (i_bind E ip port) (\<lambda>fd. if fd \<noteq> INVALID then i_start E fd cli cl else ret fd)"

subsection \<open>Timers\<close>

definition i_settimer :: "'u env \<Rightarrow> int \<Rightarrow> int \<Rightarrow> int \<Rightarrow> 'u option \<Rightarrow> ('u net, int) prog" where
  "i_settimer E fd itime rtime timer =
     bnd (sys E (Timerfd_settime fd
            \<lparr>it_value_sec = itime sdiv 1000, it_value_nsec = (itime smod 1000) * 1000000,
             it_interval_sec = rtime sdiv 1000, it_interval_nsec = (rtime smod 1000) * 1000000\<rparr>)) (\<lambda>r.
       if r < 0 then bnd (sys_do E (Close fd)) (\<lambda>_. ret INVALID)
       else bnd (add_event E fd (if rtime = 0 then e_state_timer else e_state_rtimer) EPOLLIN) (\<lambda>_.
         bnd (i_emplace_back E m_read m_read_update fd timer) (\<lambda>_. ret fd)))"

definition set_timer :: "'u env \<Rightarrow> int \<Rightarrow> int \<Rightarrow> 'u option \<Rightarrow> ('u net, int) prog" where
  "set_timer E itime rtime timer =
     bnd (sys E Timerfd_create) (\<lambda>fd.
       if fd = INVALID then ret INVALID else i_settimer E fd itime rtime timer)"

definition stop_timer :: "'u env \<Rightarrow> int \<Rightarrow> ('u net, unit) prog" where
  "stop_timer E fd =
     bnd (sys E (Timerfd_gettime fd)) (\<lambda>r.
       if r \<noteq> INVALID then
         bnd (del_event E fd) (\<lambda>_. bnd (i_clear m_read_update fd) (\<lambda>_. sys_do E (Close fd)))
       else skip)"

definition remaining_timer :: "'u env \<Rightarrow> int \<Rightarrow> ('u net, int) prog" where
  "remaining_timer E fd =
     bnd (sys_answer E (Timerfd_gettime fd)) (\<lambda>a.
       if retval a \<noteq> INVALID
       then ret (it_value_sec (out_time a) * 1000 + it_value_nsec (out_time a) sdiv 1000)
       else ret 0)"

subsection \<open>Notifications\<close>

definition notify :: "'u env \<Rightarrow> 'u \<Rightarrow> ('u net, unit) prog" where
  "notify E event =
     bnd (with_lock (modify (\<lambda>s. s\<lparr>m_trigger := m_trigger s @ [event]\<rparr>))) (\<lambda>_.
       bnd (gets m_eventfd) (\<lambda>fd. sys_do E (Eventfd_write fd)))"

text \<open>\<^verbatim>\<open>notify_all\<close> over the loops of all threads (\<^verbatim>\<open>m_thdset\<close>; a slot may be null);
  a failure in one ends it.\<close>

fun notify_all :: "'u env \<Rightarrow> 'u \<Rightarrow> 'u net option list \<Rightarrow> 'u net option list res" where
  "notify_all E event [] = Inr []"
| "notify_all E event (None # nets) =
     bind_res (notify_all E event nets) (\<lambda>nets. Inr (None # nets))"
| "notify_all E event (Some s # nets) =
     (case notify E event s of
        Done _ s' \<Rightarrow> bind_res (notify_all E event nets) (\<lambda>nets. Inr (Some s' # nets))
      | Threw s' \<Rightarrow> Inl (Throw [])
      | Stuck e \<Rightarrow> Inl e)"

subsection \<open>Handlers of the loop\<close>

definition i_ontimer :: "'u env \<Rightarrow> int \<Rightarrow> u32 \<Rightarrow> int \<Rightarrow> ('u net, unit) prog" where
  "i_ontimer E fd events st =
     bnd (if has_event events EPOLLIN
          then bnd (sys_do E (Timerfd_read fd)) (\<lambda>_. i_call E m_read (usr E) fd fd)
          else skip)
       (\<lambda>_. if st = state_code e_state_timer
            then bnd (del_event E fd) (\<lambda>_. bnd (i_clear m_read_update fd) (\<lambda>_. sys_do E (Close fd)))
            else skip)"

definition i_onconnect :: "'u env \<Rightarrow> int \<Rightarrow> u32 \<Rightarrow> ('u net, unit) prog" where
  "i_onconnect E fd events =
     (let failed =
        bnd (del_event E fd) (\<lambda>_.
          bnd (i_call E m_close (usr E) fd fd) (\<lambda>_.
            bnd (i_clear m_close_update fd) (\<lambda>_.
              bnd (gets flag_close) (\<lambda>c. if c then sys_do E (Close fd) else skip))))
      in if has_event events (EPOLLIN OR EPOLLOUT) then
           bnd (getsockerr E fd) (\<lambda>e.
             if e = 0 then
               bnd (mod_event E fd e_state_client ev_in) (\<lambda>_. i_call E m_client (usr E) fd fd)
             else failed)
         else failed)"

definition i_onaccept :: "'u env \<Rightarrow> int \<Rightarrow> u32 \<Rightarrow> ('u net, unit) prog" where
  "i_onaccept E fd events =
     (if has_event events (EPOLLIN OR EPOLLOUT) then
        with_lock
          (bnd (assertion (ndebug E) (fd \<noteq> 0)) (\<lambda>_.
             bnd (sys E (Accept fd)) (\<lambda>nfd.
               if nfd = INVALID then skip
               else bnd (set_noblock E nfd) (\<lambda>_.
                 bnd (add_event E nfd e_state_client ev_in) (\<lambda>_.
                   bnd (i_call E m_client (usr E) fd nfd) (\<lambda>_.
                     bnd (gets m_close) (\<lambda>v.
                       if \<not> (0 \<le> fd \<and> nat fd < length (cells v)) then stuck Ub
                       else if slot v fd \<noteq> None then i_push_back_close E nfd fd
                       else skip)))))))
      else skip)"

definition i_onclient :: "'u env \<Rightarrow> int \<Rightarrow> u32 \<Rightarrow> ('u net, unit) prog" where
  "i_onclient E fd events =
     bnd (if has_event events EPOLLIN then i_call E m_read (usr E) fd fd else skip) (\<lambda>_.
       bnd (if has_event events EPOLLOUT then i_call E m_write (run_wcb E) fd fd else skip) (\<lambda>_.
         if has_event events (EPOLLERR OR EPOLLHUP) then
           bnd (gets flag_close) (\<lambda>c. if c then i_clientclose E fd else skip)
         else skip))"

definition i_onevent :: "'u env \<Rightarrow> int \<Rightarrow> ('u net, unit) prog" where
  "i_onevent E fd =
     bnd (with_lock (\<lambda>s. Done (m_trigger s) (s\<lparr>m_trigger := []\<rparr>))) (\<lambda>lst.
       bnd (gets m_eventfd) (\<lambda>efd.
         bnd (sys_do E (Eventfd_read efd)) (\<lambda>_. each (\<lambda>u. usr E u fd) lst)))"

text \<open>One element of the array \<^verbatim>\<open>epoll_wait\<close> fills: the switch, with its
  fall-throughs.\<close>

definition handle :: "'u env \<Rightarrow> u64 \<times> u32 \<Rightarrow> ('u net, unit) prog" where
  "handle E = (\<lambda>(d, events).
     let fd = event_fd d; st = event_state d
     in if st = state_code e_state_client then
          bnd (modify (\<lambda>s. s\<lparr>flag_close := True\<rparr>)) (\<lambda>_. i_onclient E fd events)
        else if st = state_code e_state_client_ex then i_onclient E fd events
        else if st = state_code e_state_timer \<or> st = state_code e_state_rtimer then
          i_ontimer E fd events st
        else if st = state_code e_state_accept then i_onaccept E fd events
        else if st = state_code e_state_event then i_onevent E fd
        else if st = state_code e_state_connect then
          bnd (modify (\<lambda>s. s\<lparr>flag_close := True\<rparr>)) (\<lambda>_. i_onconnect E fd events)
        else if st = state_code e_state_connect_ex then i_onconnect E fd events
        else skip)"

definition handle_event :: "'u env \<Rightarrow> u64 \<times> u32 \<Rightarrow> ('u net, unit) prog" where
  "handle_event E ev =
     bnd (try_catch (handle E ev)) (\<lambda>_. modify (\<lambda>s. s\<lparr>flag_close := False\<rparr>))"

text \<open>\<^verbatim>\<open>__wait\<close> over the events one \<^verbatim>\<open>epoll_wait\<close> returns, and \<^verbatim>\<open>wait\<close> over
  the batches of successive calls, until \<^verbatim>\<open>m_running\<close> is 0.\<close>

definition i_wait :: "'u env \<Rightarrow> (u64 \<times> u32) list \<Rightarrow> ('u net, int) prog" where
  "i_wait E evs = bnd (each (handle_event E) evs) (\<lambda>_. gets m_running)"

primrec wait :: "'u env \<Rightarrow> (u64 \<times> u32) list list \<Rightarrow> ('u net, bool) prog" where
  "wait E [] = ret False"
| "wait E (b # bs) = bnd (i_wait E b) (\<lambda>r. if r \<noteq> 0 then wait E bs else ret True)"

definition stop :: "('u net, unit) prog" where
  "stop = modify (\<lambda>s. s\<lparr>m_running := 0\<rparr>)"

subsection \<open>Construction, destruction, lookup\<close>

definition vec_empty :: "'f vec" where
  "vec_empty = \<lparr>cells = [], capacity = 0\<rparr>"

definition net_initial :: "trace \<Rightarrow> 'u net" where
  "net_initial tr =
     \<lparr>m_epfd = -1, m_running = -1, m_client = vec_empty, m_close = vec_empty, m_read = vec_empty,
      m_write = vec_empty, m_wbuffer = [], flag_close = False, m_locked = False, m_trigger = [],
      m_eventfd = 0, errno = 0, log = tr\<rparr>"

definition MAX_THREAD_COUNT :: int where "MAX_THREAD_COUNT = 0x10000"

definition net_new :: "'u env \<Rightarrow> int \<Rightarrow> ('u net, unit) prog" where
  "net_new E thdid =
     bnd (sys E Epoll_create) (\<lambda>ep.
       bnd (modify (\<lambda>s. s\<lparr>m_epfd := ep\<rparr>)) (\<lambda>_.
         if ep = INVALID then throw
         else bnd (sys E Eventfd) (\<lambda>ev.
           bnd (modify (\<lambda>s. s\<lparr>m_eventfd := ev\<rparr>)) (\<lambda>_.
             if ev = INVALID then throw
             else bnd (set_noblock E ev) (\<lambda>_.
               bnd (add_event E ev e_state_event (EPOLLIN OR EPOLLET)) (\<lambda>_.
                 assertion (ndebug E) (thdid < MAX_THREAD_COUNT)))))))"

definition net_destroy :: "'u env \<Rightarrow> ('u net, unit) prog" where
  "net_destroy E =
     bnd (gets m_eventfd) (\<lambda>ev.
       bnd (del_event E ev) (\<lambda>_.
         bnd (sys_do E (Close ev)) (\<lambda>_.
           bnd (gets m_epfd) (\<lambda>ep. sys_do E (Close ep)))))"

text \<open>\<^verbatim>\<open>asyncnet::at\<close> over the thread table, of which \<open>mx\<close> entries have been given out.\<close>

definition net_at :: "bool \<Rightarrow> int \<Rightarrow> ('n option) list \<Rightarrow> int \<Rightarrow> 'n option res" where
  "net_at nd mx thdset k =
     (if \<not> nd \<and> \<not> (0 \<le> k \<and> k < mx) then Inl Assertion
      else if \<not> (0 \<le> k \<and> nat k < length thdset) then Inl Ub
      else if \<not> nd \<and> thdset ! nat k = None then Inl Assertion
      else Inr (thdset ! nat k))"

subsection \<open>Basic facts\<close>

lemma sys_run:
  "sys E c s = (let a = kernel E (log s) c in
     Done (retval a) (s\<lparr>log := log s @ [(c, a)], errno := (if retval a = -1 then err a else errno s)\<rparr>))"
  by (simp add: sys_def sys_answer_def bnd_def Let_def)

lemma sys_do_run:
  "sys_do E c s = (let a = kernel E (log s) c in
     Done () (s\<lparr>log := log s @ [(c, a)], errno := (if retval a = -1 then err a else errno s)\<rparr>))"
  by (simp add: sys_do_def sys_answer_def bnd_def Let_def)

text \<open>The state after a system call, kept folded.\<close>

definition logged :: "'u env \<Rightarrow> syscall \<Rightarrow> 'u net \<Rightarrow> 'u net" where
  "logged E c s = s\<lparr>log := log s @ [(c, kernel E (log s) c)],
     errno := (if retval (kernel E (log s) c) = -1 then err (kernel E (log s) c) else errno s)\<rparr>"

lemma sys_logged:
  "sys E c s = Done (retval (kernel E (log s) c)) (logged E c s)" "sys_do E c s = Done () (logged E c s)"
  "sys_answer E c s = Done (kernel E (log s) c) (logged E c s)"
  by (simp_all add: sys_run sys_do_run sys_answer_def logged_def Let_def)

lemma logged_fields [simp]:
  "m_epfd (logged E c s) = m_epfd s" "m_running (logged E c s) = m_running s"
  "m_client (logged E c s) = m_client s" "m_close (logged E c s) = m_close s"
  "m_read (logged E c s) = m_read s" "m_write (logged E c s) = m_write s"
  "m_wbuffer (logged E c s) = m_wbuffer s" "flag_close (logged E c s) = flag_close s"
  "m_locked (logged E c s) = m_locked s" "m_trigger (logged E c s) = m_trigger s"
  "m_eventfd (logged E c s) = m_eventfd s" "log (logged E c s) = log s @ [(c, kernel E (log s) c)]"
  by (simp_all add: logged_def)

lemma slot_vec_grow [simp]: "slot (vec_grow fd v) k = slot v k"
  by (auto simp: slot_def vec_grow_def vec_resize_def nth_append)

lemma slot_vec_set:
  "0 \<le> fd \<Longrightarrow> slot (vec_set fd x v) k = (if k = fd \<and> nat fd < length (cells v) then x else slot v k)"
  by (auto simp: slot_def vec_set_def nth_list_update)

lemma slot_vec_clear [simp]: "slot (vec_clear fd v) k = (if k = fd then None else slot v k)"
  by (auto simp: vec_clear_def slot_vec_set) (auto simp: slot_def)

lemma length_vec_grow: "length (cells (vec_grow fd v)) = max (length (cells v)) (nat fd + 1)"
  by (auto simp: vec_grow_def vec_resize_def)

subsection \<open>Events carry descriptor and state\<close>

lemma u32_roundtrip: "0 \<le> k \<Longrightarrow> k < 2 ^ 31 \<Longrightarrow> sint (word_of_int k :: u32) = k"
  using int32_of_nat_small [of "nat k"] by (simp add: int32_of_nat_def)

lemma merge_bits:
  assumes "0 \<le> fd" "fd < 2 ^ 31" "0 \<le> st" "st < 2 ^ 31"
  shows "ucast (i_merge fd st AND 0xffffffff) = (word_of_int fd :: u32)"
    and "ucast (drop_bit 32 (i_merge fd st)) = (word_of_int st :: u32)"
proof -
  have fd: "\<not> bit fd n" if "31 \<le> n" for n
  proof -
    have "take_bit 31 fd = fd" using assms by (simp add: take_bit_int_eq_self)
    then show ?thesis using that by (metis bit_take_bit_iff not_le)
  qed
  have m: "(0xffffffff :: u64) = mask 32" by (simp add: mask_eq_exp_minus_1)
  show "ucast (i_merge fd st AND 0xffffffff) = (word_of_int fd :: u32)"
    unfolding m i_merge_def
    by (rule bit_word_eqI) (auto simp: bit_ucast_iff bit_and_iff bit_or_iff bit_push_bit_iff bit_mask_iff bit_word_of_int_iff)
  show "ucast (drop_bit 32 (i_merge fd st)) = (word_of_int st :: u32)"
    unfolding i_merge_def
    by (rule bit_word_eqI)
       (auto simp: bit_ucast_iff bit_or_iff bit_push_bit_iff bit_drop_bit_eq bit_word_of_int_iff fd)
qed

lemma merge_roundtrip:
  assumes "0 \<le> fd" "fd < 2 ^ 31" "0 \<le> st" "st < 2 ^ 31"
  shows "event_fd (i_merge fd st) = fd" "event_state (i_merge fd st) = st"
  using assms merge_bits [OF assms] u32_roundtrip by (simp_all only: event_fd_def event_state_def)

lemma state_code_range: "0 \<le> state_code st \<and> state_code st < 2 ^ 31"
  by (cases st) simp_all

lemma state_code_inject [simp]: "state_code a = state_code b \<longleftrightarrow> a = b"
  by (cases a; cases b) simp_all

text \<open>For every descriptor and every state of the enumeration, the word registered
  with epoll by \<^verbatim>\<open>__merge\<close> is taken apart by \<^verbatim>\<open>__wait\<close> into the same two
  numbers, so an event reaches the branch of the switch its registration named.\<close>

theorem event_routing_roundtrip:
  assumes "0 \<le> fd" "fd < 2 ^ 31"
  shows "event_fd (i_merge fd (state_code st)) = fd \<and> event_state (i_merge fd (state_code st)) = state_code st"
  using merge_roundtrip [OF assms] state_code_range [of st] by blast

theorem event_routing_roundtrip_witness:
  "event_fd (i_merge 7 (state_code e_state_timer)) = 7 \<and>
   event_state (i_merge 7 (state_code e_state_timer)) = state_code e_state_timer"
  by (rule event_routing_roundtrip) simp_all

end
