(* ===== verification/AsyncStream.thy ===== *)
theory AsyncStream
  imports AsyncNet
begin

text \<open>
  What \<^verbatim>\<open>asyncnet::send\<close> and \<^verbatim>\<open>asyncnet::__send\<close> do to the byte stream of one
  descriptor: what the kernel has taken, read off the trace, followed by what waits in
  \<^verbatim>\<open>m_wbuffer\<close>. The locale \<open>fifo_channel\<close> is the contract of an ordered channel; with
  a kernel that takes a message whole or answers \<^verbatim>\<open>EAGAIN\<close> the two operations satisfy
  it, with one that takes part of a message they lose bytes.
\<close>

subsection \<open>The byte stream of a descriptor\<close>

definition sent_of :: "int \<Rightarrow> syscall \<times> answer \<Rightarrow> byte list" where
  "sent_of fd = (\<lambda>(c, a). case c of
     Send d bs \<Rightarrow> if d = fd \<and> 0 < retval a then take (nat (retval a)) bs else [] | _ \<Rightarrow> [])"

definition delivered :: "int \<Rightarrow> trace \<Rightarrow> byte list" where
  "delivered fd tr = concat (map (sent_of fd) tr)"

definition pending :: "int \<Rightarrow> 'u net \<Rightarrow> byte list list" where
  "pending fd s = (if nat fd < length (m_wbuffer s) then m_wbuffer s ! nat fd else [])"

text \<open>What the descriptor's peer has been sent, then what waits to be.\<close>

definition stream :: "int \<Rightarrow> 'u net \<Rightarrow> byte list" where
  "stream fd s = delivered fd (log s) @ concat (pending fd s)"

text \<open>Whether the last \<^verbatim>\<open>epoll_ctl\<close> for \<open>fd\<close> asked to be told when it is writable.\<close>

definition arm :: "int \<Rightarrow> bool \<Rightarrow> syscall \<times> answer \<Rightarrow> bool" where
  "arm fd b = (\<lambda>(c, a). case c of
     Epoll_mod d _ ev \<Rightarrow> if d = fd then has_event ev EPOLLOUT else b
   | Epoll_del d \<Rightarrow> if d = fd then False else b
   | _ \<Rightarrow> b)"

definition armed :: "int \<Rightarrow> trace \<Rightarrow> bool" where
  "armed fd tr = foldl (arm fd) False tr"

text \<open>A kernel that takes a message whole or refuses it for now.\<close>

definition whole :: "'u env \<Rightarrow> int \<Rightarrow> bool" where
  "whole E fd \<longleftrightarrow> (\<forall>tr bs. let a = kernel E tr (Send fd bs) in
     retval a = int (length bs) \<or> retval a = -1 \<and> again (err a))"

lemma ev_in_out_EPOLLOUT: "has_event ev_in_out EPOLLOUT"
  by (simp add: has_event_def ev_in_out_def EPOLLIN_def EPOLLOUT_def EPOLLERR_def EPOLLHUP_def EPOLLET_def)

definition channel_ok :: "'u env \<Rightarrow> int \<Rightarrow> 'u net \<Rightarrow> bool" where
  "channel_ok E fd s \<longleftrightarrow>
     0 \<le> fd \<and> whole E fd \<and> (pending fd s \<noteq> [] \<longrightarrow> armed fd (log s))"

definition wgrow :: "int \<Rightarrow> 'u net \<Rightarrow> 'u net" where
  "wgrow fd s = (if length (m_wbuffer s) \<le> nat fd
     then s\<lparr>m_wbuffer := m_wbuffer s @ replicate (nat fd + 1 - length (m_wbuffer s)) []\<rparr> else s)"

lemma get_wbuffer_run:
  "0 \<le> fd \<Longrightarrow> get_wbuffer E fd s = Done (pending fd s) (wgrow fd s)"
  by (auto simp: get_wbuffer_def wgrow_def pending_def bnd_def nth_append)

lemma wgrow_fields [simp]:
  "log (wgrow fd s) = log s" "pending k (wgrow fd s) = pending k s" "errno (wgrow fd s) = errno s"
  by (auto simp: wgrow_def pending_def nth_append)

lemma wgrow_length: "nat fd < length (m_wbuffer (wgrow fd s))"
  by (auto simp: wgrow_def)

lemma pending_set:
  "nat fd < length (m_wbuffer s) \<Longrightarrow> pending fd (s\<lparr>m_wbuffer := (m_wbuffer s)[nat fd := l]\<rparr>) = l"
  by (simp add: pending_def)

lemma pending_log [simp]: "pending fd (s\<lparr>log := l, errno := e\<rparr>) = pending fd s"
  by (simp add: pending_def)

lemma pending_logged [simp]: "pending fd (logged E c s) = pending fd s"
  by (simp add: pending_def)

lemma delivered_simps [simp]:
  "delivered fd (tr @ us) = delivered fd tr @ delivered fd us" "delivered fd [] = []"
  "delivered fd (x # us) = sent_of fd x @ delivered fd us"
  by (simp_all add: delivered_def)

lemma armed_append [simp]: "armed fd (tr @ us) = foldl (arm fd) (armed fd tr) us"
  by (simp add: armed_def)

lemma mod_event_run:
  "0 \<le> fd \<Longrightarrow> \<exists>s'. mod_event E fd st ev s = Done () s' \<and>
     (\<exists>a. log s' = log s @ [(Epoll_mod fd (i_merge fd (state_code st)) ev, a)]) \<and>
     m_wbuffer s' = m_wbuffer s"
  by (simp add: mod_event_def INVALID_def sys_do_run Let_def)

lemma send_loop_stream:
  assumes "0 \<le> fd" "whole E fd" "pending fd s = lst" "nat fd < length (m_wbuffer s)"
  shows "\<exists>s'. send_loop E fd lst s = Done () s' \<and> stream fd s' = stream fd s \<and> channel_ok E fd s'"
  using assms(3,4)
proof (induction lst arbitrary: s)
  case Nil
  obtain s' a where "mod_event E fd e_state_client ev_in s = Done () s'"
      "log s' = log s @ [(Epoll_mod fd (i_merge fd (state_code e_state_client)) ev_in, a)]"
      "m_wbuffer s' = m_wbuffer s"
    using mod_event_run [OF assms(1)] by blast
  moreover from this(3) have "pending fd s' = pending fd s" by (simp add: pending_def)
  ultimately show ?case using Nil assms(1,2) by (simp add: stream_def sent_of_def channel_ok_def)
next
  case (Cons msg rest)
  let ?a = "kernel E (log s) (Send fd msg)"
  let ?s = "s\<lparr>log := log s @ [(Send fd msg, ?a)], errno := (if retval ?a = -1 then err ?a else errno s)\<rparr>"
  have send: "sys E (Send fd msg) s = Done (retval ?a) ?s" by (simp add: sys_run Let_def)
  from assms(2) consider "retval ?a = int (length msg)" | "retval ?a = -1" "again (err ?a)"
    unfolding whole_def Let_def by blast
  then show ?case
  proof cases
    case 1
    let ?t = "?s\<lparr>m_wbuffer := (m_wbuffer ?s)[nat fd := rest]\<rparr>"
    have p: "pending fd ?t = rest" using Cons.prems(2) by (intro pending_set) simp
    then obtain s' where "send_loop E fd rest ?t = Done () s'" "stream fd s' = stream fd ?t" "channel_ok E fd s'"
      using Cons.IH [of ?t] Cons.prems(2) by auto
    moreover have "stream fd ?t = stream fd s"
      using 1 p Cons.prems(1) by (cases msg) (simp_all add: stream_def sent_of_def)
    ultimately show ?thesis using 1 send by (simp add: INVALID_def set_wbuffer_def)
  next
    case 2
    obtain s' a where m: "mod_event E fd e_state_client ev_in_out ?s = Done () s'"
        "log s' = log ?s @ [(Epoll_mod fd (i_merge fd (state_code e_state_client)) ev_in_out, a)]"
        "m_wbuffer s' = m_wbuffer ?s"
      using mod_event_run [OF assms(1)] by blast
    have "pending fd s' = msg # rest" using m(3) Cons.prems by (simp add: pending_def)
    then show ?thesis using 2 m send Cons.prems(1) assms(1,2) ev_in_out_EPOLLOUT
      by (simp add: INVALID_def stream_def sent_of_def channel_ok_def arm_def)
  qed
qed

lemma i_send_stream:
  assumes "channel_ok E fd s" "nat fd < length (m_wbuffer s)"
  shows "\<exists>s'. i_send E fd s = Done () s' \<and> stream fd s' = stream fd s \<and> channel_ok E fd s'"
proof -
  have "0 \<le> fd" "whole E fd" using assms(1) by (simp_all add: channel_ok_def)
  moreover have "wgrow fd s = s" using assms(2) by (simp add: wgrow_def)
  ultimately show ?thesis
    using send_loop_stream [of fd E s "pending fd s"] get_wbuffer_run [of fd E s] assms(2)
    by (simp add: i_send_def INVALID_def)
qed

lemma net_send_stream:
  assumes "channel_ok E fd s"
  shows "\<exists>r s'. net_send E fd msg s = Done r s' \<and> stream fd s' = stream fd s @ msg \<and>
    channel_ok E fd s' \<and> nat fd < length (m_wbuffer s') \<and>
    (r \<noteq> INVALID \<or> (\<exists>tr d ev a. log s' = tr @ [(Epoll_mod fd d ev, a)]))"
proof -
  have fd: "0 \<le> fd" "whole E fd" using assms by (simp_all add: channel_ok_def)
  let ?s = "wgrow fd s"
  note g = get_wbuffer_run [OF fd(1), of E s]
  have l: "nat fd < length (m_wbuffer ?s)" by (rule wgrow_length)
  show ?thesis
  proof (cases "pending fd s = []")
    case False
    let ?t = "?s\<lparr>m_wbuffer := (m_wbuffer ?s)[nat fd := pending fd s @ [msg]]\<rparr>"
    have "net_send E fd msg s = Done 0 ?t"
      using False g by (simp add: net_send_def set_wbuffer_def)
    moreover have "pending fd ?t = pending fd s @ [msg]" by (rule pending_set [OF l])
    ultimately show ?thesis using False assms l
      by (simp add: stream_def channel_ok_def INVALID_def)
  next
    case True
    let ?a = "kernel E (log s) (Send fd msg)"
    let ?t = "?s\<lparr>log := log s @ [(Send fd msg, ?a)], errno := (if retval ?a = -1 then err ?a else errno s)\<rparr>"
    have send: "sys E (Send fd msg) ?s = Done (retval ?a) ?t" by (simp add: sys_run Let_def)
    from fd(2) consider "retval ?a = int (length msg)" | "retval ?a = -1" "again (err ?a)"
      unfolding whole_def Let_def by blast
    then show ?thesis
    proof cases
      case 1
      then have "net_send E fd msg s = Done (int (length msg)) ?t"
        using True g send by (simp add: net_send_def INVALID_def)
      moreover have "pending fd ?t = []" using True by simp
      ultimately show ?thesis using 1 True fd l
        by (cases msg) (simp_all add: stream_def channel_ok_def sent_of_def INVALID_def)
    next
      case 2
      obtain s' a where m: "mod_event E fd e_state_client ev_in_out ?t = Done () s'"
          "log s' = log ?t @ [(Epoll_mod fd (i_merge fd (state_code e_state_client)) ev_in_out, a)]"
          "m_wbuffer s' = m_wbuffer ?t"
        using mod_event_run [OF fd(1)] by blast
      let ?u = "s'\<lparr>m_wbuffer := (m_wbuffer s')[nat fd := [msg]]\<rparr>"
      have "net_send E fd msg s = Done (-1) ?u"
        using 2 True g send m by (simp add: net_send_def INVALID_def set_wbuffer_def)
      moreover have "pending fd ?u = [msg]" using l m(3) by (intro pending_set) simp
      ultimately show ?thesis using 2 True fd l m(2,3) ev_in_out_EPOLLOUT
        by (simp add: stream_def channel_ok_def sent_of_def arm_def)
    qed
  qed
qed

subsection \<open>The contract of an ordered channel\<close>

datatype 'b chan_op = Submit "'b list" | Writable

fun submitted :: "'b chan_op list \<Rightarrow> 'b list" where
  "submitted [] = []"
| "submitted (Submit m # ops) = m @ submitted ops"
| "submitted (Writable # ops) = submitted ops"

fun chan_run :: "('b list \<Rightarrow> ('s, 'r) prog) \<Rightarrow> ('s, unit) prog \<Rightarrow> ('s \<Rightarrow> bool) \<Rightarrow> 'b chan_op list \<Rightarrow>
    ('s, unit) prog" where
  "chan_run submit flush ready [] = skip"
| "chan_run submit flush ready (Submit m # ops) =
     bnd (submit m) (\<lambda>_. chan_run submit flush ready ops)"
| "chan_run submit flush ready (Writable # ops) =
     bnd (gets ready) (\<lambda>b. bnd (if b then flush else skip) (\<lambda>_. chan_run submit flush ready ops))"

locale fifo_channel =
  fixes ok :: "'s \<Rightarrow> bool"
    and strm :: "'s \<Rightarrow> 'b list"
    and submit :: "'b list \<Rightarrow> ('s, 'r) prog"
    and flush :: "('s, unit) prog"
    and ready :: "'s \<Rightarrow> bool"
  assumes submit_law: "ok s \<Longrightarrow> \<exists>r s'. submit m s = Done r s' \<and> ok s' \<and> strm s' = strm s @ m"
    and flush_law: "ok s \<Longrightarrow> ready s \<Longrightarrow> \<exists>s'. flush s = Done () s' \<and> ok s' \<and> strm s' = strm s"
begin

lemma run_in_order:
  "ok s \<Longrightarrow> \<exists>s'. chan_run submit flush ready ops s = Done () s' \<and> ok s' \<and> strm s' = strm s @ submitted ops"
proof (induction ops arbitrary: s rule: submitted.induct)
  case 1
  then show ?case by simp
next
  case (2 m ops)
  obtain r s1 where s1: "submit m s = Done r s1" "ok s1" "strm s1 = strm s @ m"
    using submit_law [OF 2(2)] by blast
  then show ?case using 2(1) [OF s1(2)] by auto
next
  case (3 ops)
  show ?case
  proof (cases "ready s")
    case True
    obtain s1 where s1: "flush s = Done () s1" "ok s1" "strm s1 = strm s"
      using flush_law [OF 3(2) True] by blast
    then show ?thesis using 3(1) [OF s1(2)] True by auto
  next
    case False
    then show ?thesis using 3(1) [OF 3(2)] by simp
  qed
qed

end

text \<open>A writable event reaches \<^verbatim>\<open>__send\<close> only for a descriptor that has a buffer.\<close>

definition has_wbuffer :: "int \<Rightarrow> 'u net \<Rightarrow> bool" where
  "has_wbuffer fd s \<longleftrightarrow> nat fd < length (m_wbuffer s)"

interpretation channel: fifo_channel "channel_ok E fd" "stream fd" "net_send E fd" "i_send E fd" "has_wbuffer fd"
  for E :: "'u env" and fd
proof
  fix s :: "'u net" and m
  assume s: "channel_ok E fd s"
  show "\<exists>r s'. net_send E fd m s = Done r s' \<and> channel_ok E fd s' \<and> stream fd s' = stream fd s @ m"
    using net_send_stream [OF s] by blast
  show "\<exists>s'. i_send E fd s = Done () s' \<and> channel_ok E fd s' \<and> stream fd s' = stream fd s" if "has_wbuffer fd s"
    using i_send_stream [OF s] that by (auto simp: has_wbuffer_def)
qed

subsection \<open>Properties\<close>

text \<open>A kernel for examples: every answer is 0 but that of \<^verbatim>\<open>send\<close>, which takes
  \<open>tk n\<close> of \<open>n\<close> bytes or, where \<open>full\<close> says so of the trace, answers \<^verbatim>\<open>EAGAIN\<close>.\<close>

definition zero_time :: itimerspec where
  "zero_time = \<lparr>it_value_sec = 0, it_value_nsec = 0, it_interval_sec = 0, it_interval_nsec = 0\<rparr>"

definition test_kernel :: "(trace \<Rightarrow> bool) \<Rightarrow> (nat \<Rightarrow> nat) \<Rightarrow> trace \<Rightarrow> syscall \<Rightarrow> answer" where
  "test_kernel full tk tr c =
     (let zero = \<lparr>retval = 0, err = 0, out_err = 0, out_time = zero_time\<rparr>
      in case c of
           Send fd bs \<Rightarrow>
             if full tr then zero\<lparr>retval := -1, err := EAGAIN\<rparr>
             else zero\<lparr>retval := int (tk (length bs))\<rparr>
         | _ \<Rightarrow> zero)"

definition test_env :: "bool \<Rightarrow> (trace \<Rightarrow> bool) \<Rightarrow> (nat \<Rightarrow> nat) \<Rightarrow> unit env" where
  "test_env nd full tk = \<lparr>ndebug = nd, kernel = test_kernel full tk, usr = (\<lambda>u fd. skip)\<rparr>"

lemma test_env_fields [simp]:
  "ndebug (test_env nd full tk) = nd" "kernel (test_env nd full tk) = test_kernel full tk"
  "usr (test_env nd full tk) = (\<lambda>u fd. skip)"
  by (simp_all add: test_env_def)

lemma test_env_whole: "whole (test_env nd full (\<lambda>n. n)) fd"
  by (simp add: whole_def test_kernel_def Let_def again_def)

text \<open>C8: With a kernel that takes a message whole or answers \<^verbatim>\<open>EAGAIN\<close>, any interleaving
  of \<^verbatim>\<open>send\<close> calls and writable events on a connection puts the bytes of the messages on the
  wire in submission order, none lost, none twice: what the kernel took plus what is queued is what
  was submitted. Nothing is stuck or thrown, and whenever something is queued the last
  \<^verbatim>\<open>epoll_ctl\<close> has asked for the writable event that will send it.\<close>

theorem send_preserves_order:
  assumes "0 \<le> fd" "whole E fd" "pending fd s = []"
  shows "\<exists>s'. chan_run (net_send E fd) (i_send E fd) (has_wbuffer fd) ops s = Done () s' \<and>
    delivered fd (log s') @ concat (pending fd s') = delivered fd (log s) @ submitted ops \<and>
    (pending fd s' = [] \<or> armed fd (log s'))"
proof -
  have "channel_ok E fd s" using assms by (simp add: channel_ok_def)
  then show ?thesis
    using channel.run_in_order [of E fd s ops] assms(3) by (auto simp: stream_def channel_ok_def)
qed

theorem send_preserves_order_witness:
  "\<exists>s'. chan_run (net_send (test_env False (\<lambda>tr. length tr < 2) (\<lambda>n. n)) 5)
      (i_send (test_env False (\<lambda>tr. length tr < 2) (\<lambda>n. n)) 5) (has_wbuffer 5)
      [Submit [1, 2], Submit [3], Writable] (net_initial []) = Done () s' \<and>
    delivered 5 (log s') @ concat (pending 5 s') =
      delivered 5 (log (net_initial [] :: unit net)) @ submitted [Submit [1, 2], Submit [3], Writable] \<and>
    (pending 5 s' = [] \<or> armed 5 (log s'))"
  by (rule send_preserves_order) (simp_all add: test_env_whole pending_def net_initial_def)

text \<open>A partial write loses data. \<^verbatim>\<open>send\<close> checks the count only with an assertion: in the
  default (Release) build the rest of the message is neither sent nor queued and the caller is told
  the short count; with assertions the process aborts.\<close>

theorem short_write_loses_bytes:
  assumes "0 \<le> fd" "pending fd s = []" "a = kernel E (log s) (Send fd msg)"
    "0 < retval a" "retval a < int (length msg)"
  shows "if ndebug E
    then \<exists>s'. net_send E fd msg s = Done (retval a) s' \<and> pending fd s' = [] \<and>
           delivered fd (log s') = delivered fd (log s) @ take (nat (retval a)) msg
    else net_send E fd msg s = Stuck Assertion"
proof -
  note g = get_wbuffer_run [OF assms(1), of E s]
  let ?t = "(wgrow fd s)\<lparr>log := log s @ [(Send fd msg, a)], errno := errno s\<rparr>"
  have send: "sys E (Send fd msg) (wgrow fd s) = Done (retval a) ?t"
    using assms(3,4) by (simp add: sys_run Let_def)
  have "delivered fd (log ?t) = delivered fd (log s) @ take (nat (retval a)) msg" "pending fd ?t = []"
    using assms(2,4) by (simp_all add: sent_of_def)
  then show ?thesis
    using g send assms(2,4,5) by (simp add: net_send_def INVALID_def assertion_def)
qed

theorem short_write_loses_bytes_witness:
  "if ndebug (test_env True (\<lambda>_. False) (\<lambda>n. n div 2))
    then \<exists>s'. net_send (test_env True (\<lambda>_. False) (\<lambda>n. n div 2)) 5 [1, 2, 3, 4] (net_initial []) = Done 2 s' \<and>
           pending 5 s' = [] \<and>
           delivered 5 (log s') = delivered 5 (log (net_initial [] :: unit net)) @ take (nat 2) [1, 2, 3, 4]
    else net_send (test_env True (\<lambda>_. False) (\<lambda>n. n div 2)) 5 [1, 2, 3, 4] (net_initial []) = Stuck Assertion"
  using short_write_loses_bytes [of 5 "net_initial []" _ "test_env True (\<lambda>_. False) (\<lambda>n. n div 2)" "[1, 2, 3, 4]",
      OF _ _ refl]
  by (simp add: pending_def net_initial_def test_kernel_def)

text \<open>The flush after a writable event does not look at the count at all: what the kernel did not
  take of a queued message is dropped in every build, and the next message follows in the middle of
  it.\<close>

theorem flush_short_write_loses_bytes:
  assumes "0 \<le> fd" "pending fd s = [msg]" "a = kernel E (log s) (Send fd msg)"
    "0 < retval a" "retval a < int (length msg)"
  shows "\<exists>s'. i_send E fd s = Done () s' \<and> pending fd s' = [] \<and>
    delivered fd (log s') = delivered fd (log s) @ take (nat (retval a)) msg"
proof -
  have l: "nat fd < length (m_wbuffer s)" using assms(2) by (simp add: pending_def split: if_splits)
  then have w: "wgrow fd s = s" by (simp add: wgrow_def)
  let ?t = "s\<lparr>log := log s @ [(Send fd msg, a)], errno := errno s\<rparr>"
  let ?u = "?t\<lparr>m_wbuffer := (m_wbuffer s)[nat fd := []]\<rparr>"
  have send: "sys E (Send fd msg) s = Done (retval a) ?t"
    using assms(3,4) by (simp add: sys_run Let_def)
  obtain s' b where m: "mod_event E fd e_state_client ev_in ?u = Done () s'"
      "log s' = log ?u @ [(Epoll_mod fd (i_merge fd (state_code e_state_client)) ev_in, b)]"
      "m_wbuffer s' = m_wbuffer ?u"
    using mod_event_run [OF assms(1)] by blast
  have "i_send E fd s = Done () s'"
    using get_wbuffer_run [OF assms(1), of E s] w l assms(1,2,4) send m(1)
    by (simp add: i_send_def INVALID_def set_wbuffer_def)
  moreover have "pending fd s' = []" using m(3) l by (simp add: pending_def)
  ultimately show ?thesis using m(2) assms(4) by (simp add: sent_of_def)
qed

theorem flush_short_write_loses_bytes_witness:
  "\<exists>s'. i_send (test_env False (\<lambda>_. False) (\<lambda>n. n div 2)) 0 ((net_initial [])\<lparr>m_wbuffer := [[[1, 2, 3, 4]]]\<rparr>) =
      Done () s' \<and> pending 0 s' = [] \<and>
    delivered 0 (log s') = delivered 0 (log ((net_initial [])\<lparr>m_wbuffer := [[[1, 2, 3, 4]]]\<rparr> :: unit net)) @
      take (nat 2) [1, 2, 3, 4]"
  using flush_short_write_loses_bytes [of 0 "(net_initial [])\<lparr>m_wbuffer := [[[1, 2, 3, 4]]]\<rparr>" "[1, 2, 3, 4]" _
      "test_env False (\<lambda>_. False) (\<lambda>n. n div 2)", OF _ _ refl]
  by (simp add: pending_def net_initial_def test_kernel_def)

end
