(* ===== verification/Session.thy ===== *)
theory Session
  imports AsyncStream
begin

text \<open>
  \<^verbatim>\<open>src/src/service/session.cpp\<close> with the part of \<^verbatim>\<open>client.cpp\<close> it calls: the server
  side of a connection, which any thread may send through. The state holds the fields of the session,
  the client it was given (descriptor and owning thread) and the event loop of that thread; the
  calling thread is the argument \<open>cur\<close>. The recursive mutex of the object serialises the operations, so
  each is one step. \<open>tok\<close> names the callback a session posts to the loop.
\<close>

record conn =
  c_fd :: int
  c_thdid :: int

record 'u session =
  s_client :: "conn option"
  s_list :: "byte list list"
  s_notified :: bool
  net :: "'u net"

definition on_net :: "('u net, 'a) prog \<Rightarrow> ('u session, 'a) prog" where
  "on_net m = (\<lambda>s. case m (net s) of
     Done a n \<Rightarrow> Done a (s\<lparr>net := n\<rparr>) | Threw n \<Rightarrow> Threw (s\<lparr>net := n\<rparr>) | Stuck e \<Rightarrow> Stuck e)"

text \<open>\<^verbatim>\<open>check_valid\<close> (\<^verbatim>\<open>invalid.h\<close>) drops a client whose descriptor is gone.\<close>

definition check_valid :: "('u session, bool) prog" where
  "check_valid = (\<lambda>s. case s_client s of
     None \<Rightarrow> Done False s
   | Some c \<Rightarrow> if c_fd c \<noteq> INVALID then Done True s else Done False (s\<lparr>s_client := None\<rparr>))"

definition session_valid :: "'u session \<Rightarrow> bool" where
  "session_valid s \<longleftrightarrow> (case s_client s of None \<Rightarrow> False | Some c \<Rightarrow> c_fd c \<noteq> INVALID)"

definition with_client :: "(conn \<Rightarrow> ('u session, 'a) prog) \<Rightarrow> ('u session, 'a) prog" where
  "with_client f = (\<lambda>s. case s_client s of None \<Rightarrow> Stuck Ub | Some c \<Rightarrow> f c s)"

text \<open>
  \<^verbatim>\<open>client::send\<close>. When the loop has given the connection up, with \<^verbatim>\<open>::close\<close> its last
  system call, the close callback of \<^verbatim>\<open>client::init\<close> has run and cleared the descriptor.
\<close>

definition just_closed :: "int \<Rightarrow> 'u net \<Rightarrow> bool" where
  "just_closed fd n \<longleftrightarrow> log n \<noteq> [] \<and> fst (last (log n)) = Close fd"

definition client_send :: "'u env \<Rightarrow> int \<Rightarrow> byte list \<Rightarrow> ('u session, int) prog" where
  "client_send E cur msg =
     with_client (\<lambda>c.
       bnd (assertion (ndebug E) (c_thdid c = cur)) (\<lambda>_.
         bnd (on_net (net_send E (c_fd c) msg)) (\<lambda>r.
           bnd (gets (\<lambda>s. just_closed (c_fd c) (net s))) (\<lambda>closed.
             bnd (if r = INVALID \<and> closed
                  then modify (\<lambda>s. s\<lparr>s_client := Some (c\<lparr>c_fd := INVALID\<rparr>)\<rparr>) else skip)
               (\<lambda>_. ret r)))))"

definition client_realsend :: "'u env \<Rightarrow> byte list \<Rightarrow> ('u session, int) prog" where
  "client_realsend E msg = with_client (\<lambda>c. on_net (sys E (Send (c_fd c) msg)))"

definition notifysend :: "'u env \<Rightarrow> 'u \<Rightarrow> ('u session, unit) prog" where
  "notifysend E tok =
     bnd check_valid (\<lambda>v.
       bnd (gets s_notified) (\<lambda>n.
         if v \<and> \<not> n then
           bnd (modify (\<lambda>s. s\<lparr>s_notified := True\<rparr>)) (\<lambda>_. on_net (notify E tok))
         else skip))"

text \<open>The loop of \<^verbatim>\<open>session::__send\<close>; the argument is what \<^verbatim>\<open>m_list\<close> holds, and an
  element is erased when the loop goes on to the next.\<close>

primrec s_send_loop :: "'u env \<Rightarrow> 'u \<Rightarrow> int \<Rightarrow> byte list list \<Rightarrow> ('u session, unit) prog" where
  "s_send_loop E tok cur [] = skip"
| "s_send_loop E tok cur (m # rest) =
     bnd check_valid (\<lambda>v.
       if \<not> v then skip
       else with_client (\<lambda>c.
         if cur = c_thdid c then
           bnd (client_send E cur m) (\<lambda>_.
             bnd (modify (\<lambda>s. s\<lparr>s_list := rest\<rparr>)) (\<lambda>_. s_send_loop E tok cur rest))
         else notifysend E tok))"

definition s_send :: "'u env \<Rightarrow> 'u \<Rightarrow> int \<Rightarrow> ('u session, unit) prog" where
  "s_send E tok cur = bnd (gets s_list) (s_send_loop E tok cur)"

text \<open>The lambda \<^verbatim>\<open>__notifysend\<close> posts.\<close>

definition on_notified :: "'u env \<Rightarrow> 'u \<Rightarrow> int \<Rightarrow> ('u session, unit) prog" where
  "on_notified E tok cur =
     bnd (modify (\<lambda>s. s\<lparr>s_notified := False\<rparr>)) (\<lambda>_. s_send E tok cur)"

definition set_session_client :: "'u env \<Rightarrow> 'u \<Rightarrow> int \<Rightarrow> conn \<Rightarrow> ('u session, unit) prog" where
  "set_session_client E tok cur c =
     bnd (modify (\<lambda>s. s\<lparr>s_client := Some c\<rparr>)) (\<lambda>_. s_send E tok cur)"

definition queue_msg :: "byte list \<Rightarrow> ('u session, unit) prog" where
  "queue_msg msg = modify (\<lambda>s. s\<lparr>s_list := s_list s @ [msg]\<rparr>)"

definition session_send :: "'u env \<Rightarrow> 'u \<Rightarrow> int \<Rightarrow> byte list \<Rightarrow> ('u session, unit) prog" where
  "session_send E tok cur msg =
     bnd check_valid (\<lambda>v.
       if v then
         bnd (gets s_list) (\<lambda>l.
           if l \<noteq> [] then queue_msg msg
           else with_client (\<lambda>c.
             if cur = c_thdid c then bnd (client_send E cur msg) (\<lambda>_. skip)
             else bnd (client_realsend E msg) (\<lambda>r.
               if r = INVALID then
                 bnd (queue_msg msg) (\<lambda>_.
                   bnd (gets (\<lambda>s. errno (net s))) (\<lambda>e.
                     if again e then notifysend E tok else skip))
               else skip)))
       else queue_msg msg)"

definition session_send_list :: "'u env \<Rightarrow> 'u \<Rightarrow> int \<Rightarrow> byte list list \<Rightarrow> ('u session, unit) prog" where
  "session_send_list E tok cur lst = each (session_send E tok cur) lst"

definition session_stop :: "('u session, unit) prog" where
  "session_stop = modify (\<lambda>s. s\<lparr>s_client := None\<rparr>)"

subsection \<open>The owner's sends are an ordered channel\<close>

text \<open>What the peer has been sent, what the loop has queued, what the session has.\<close>

definition session_stream :: "int \<Rightarrow> 'u session \<Rightarrow> byte list" where
  "session_stream fd s = stream fd (net s) @ concat (s_list s)"

definition session_ok :: "'u env \<Rightarrow> int \<Rightarrow> int \<Rightarrow> 'u session \<Rightarrow> bool" where
  "session_ok E fd owner s \<longleftrightarrow>
     channel_ok E fd (net s) \<and> s_client s = Some \<lparr>c_fd = fd, c_thdid = owner\<rparr>"

lemma client_send_stream:
  assumes "session_ok E fd owner s"
  shows "\<exists>r s'. client_send E owner msg s = Done r s' \<and> session_ok E fd owner s' \<and>
    stream fd (net s') = stream fd (net s) @ msg \<and> s_list s' = s_list s"
proof -
  have ok: "channel_ok E fd (net s)" "s_client s = Some \<lparr>c_fd = fd, c_thdid = owner\<rparr>"
    using assms by (simp_all add: session_ok_def)
  obtain r n where n: "net_send E fd msg (net s) = Done r n" "stream fd n = stream fd (net s) @ msg"
      "channel_ok E fd n" "r \<noteq> INVALID \<or> (\<exists>tr d ev a. log n = tr @ [(Epoll_mod fd d ev, a)])"
    using net_send_stream [OF ok(1), of msg] by blast
  then have "\<not> (r = INVALID \<and> just_closed fd n)" by (auto simp: just_closed_def)
  then have "client_send E owner msg s = Done r (s\<lparr>net := n\<rparr>)"
    using ok(2) n(1) by (auto simp: client_send_def with_client_def on_net_def bnd_def)
  then show ?thesis using n ok(2) by (simp add: session_ok_def)
qed

lemma session_ok_fd: "session_ok E fd owner s \<Longrightarrow> fd \<noteq> INVALID"
  by (simp add: session_ok_def channel_ok_def INVALID_def)

lemma check_valid_ok: "session_ok E fd owner s \<Longrightarrow> check_valid s = Done True s"
  using session_ok_fd [of E fd owner s] by (simp add: check_valid_def session_ok_def)

lemma session_ok_list [simp]:
  "session_ok E fd owner (s\<lparr>s_list := l\<rparr>) = session_ok E fd owner s"
  "session_ok E fd owner (s\<lparr>s_notified := b\<rparr>) = session_ok E fd owner s"
  by (simp_all add: session_ok_def)

lemma session_send_stream:
  assumes "session_ok E fd owner s"
  shows "\<exists>s'. session_send E tok owner msg s = Done () s' \<and> session_ok E fd owner s' \<and>
    session_stream fd s' = session_stream fd s @ msg"
proof (cases "s_list s = []")
  case True
  obtain r s' where "client_send E owner msg s = Done r s'" "session_ok E fd owner s'"
      "stream fd (net s') = stream fd (net s) @ msg" "s_list s' = s_list s"
    using client_send_stream [OF assms] by blast
  then show ?thesis using True check_valid_ok [OF assms] assms
    by (simp add: session_send_def with_client_def session_stream_def session_ok_def [of E fd owner s])
next
  case False
  then show ?thesis using check_valid_ok [OF assms] assms
    by (simp add: session_send_def queue_msg_def session_stream_def)
qed

lemma s_send_loop_stream:
  "session_ok E fd owner s \<Longrightarrow> s_list s = l \<Longrightarrow>
     \<exists>s'. s_send_loop E tok owner l s = Done () s' \<and> session_ok E fd owner s' \<and>
       session_stream fd s' = session_stream fd s \<and> s_list s' = []"
proof (induction l arbitrary: s)
  case Nil
  then show ?case by simp
next
  case (Cons m rest)
  obtain r s1 where s1: "client_send E owner m s = Done r s1" "session_ok E fd owner s1"
      "stream fd (net s1) = stream fd (net s) @ m" "s_list s1 = s_list s"
    using client_send_stream [OF Cons.prems(1)] by blast
  obtain s' where s': "s_send_loop E tok owner rest (s1\<lparr>s_list := rest\<rparr>) = Done () s'" "session_ok E fd owner s'"
      "session_stream fd s' = session_stream fd (s1\<lparr>s_list := rest\<rparr>)" "s_list s' = []"
    using Cons.IH [of "s1\<lparr>s_list := rest\<rparr>"] s1(2) by auto
  have "s_client s = Some \<lparr>c_fd = fd, c_thdid = owner\<rparr>" using Cons.prems(1) by (simp add: session_ok_def)
  then show ?case using s1 s' check_valid_ok [OF Cons.prems(1)] Cons.prems(2)
    by (simp add: with_client_def session_stream_def)
qed

lemma on_notified_stream:
  assumes "session_ok E fd owner s"
  shows "\<exists>s'. on_notified E tok owner s = Done () s' \<and> session_ok E fd owner s' \<and>
    session_stream fd s' = session_stream fd s \<and> s_list s' = []"
  using s_send_loop_stream [of E fd owner "s\<lparr>s_notified := False\<rparr>" "s_list s" tok] assms
  by (simp add: on_notified_def s_send_def session_stream_def)

interpretation session_channel: fifo_channel "session_ok E fd owner" "session_stream fd"
    "session_send E tok owner" "on_notified E tok owner" "\<lambda>s. True"
  for E :: "'u env" and fd owner tok
proof
  fix s :: "'u session" and m
  assume s: "session_ok E fd owner s"
  show "\<exists>r s'. session_send E tok owner m s = Done r s' \<and> session_ok E fd owner s' \<and>
      session_stream fd s' = session_stream fd s @ m"
    using session_send_stream [OF s] by blast
  show "\<exists>s'. on_notified E tok owner s = Done () s' \<and> session_ok E fd owner s' \<and>
      session_stream fd s' = session_stream fd s"
    using on_notified_stream [OF s] by blast
qed

subsection \<open>Properties\<close>

definition session_new :: "conn \<Rightarrow> 'u net \<Rightarrow> 'u session" where
  "session_new c n = \<lparr>s_client = Some c, s_list = [], s_notified = False, net = n\<rparr>"

text \<open>As long as a session is used from the thread that owns its connection (and the kernel
  takes messages whole), sending through it keeps the order across all three places a message can be in:
  the wire, the loop's write buffer and the session's own list. Nothing is lost, and after the posted
  callback has run the session's list is empty.\<close>

theorem session_send_in_order:
  assumes "0 \<le> fd" "whole E fd" "pending fd n = []"
  shows "\<exists>s'. chan_run (session_send E tok owner) (on_notified E tok owner) (\<lambda>s. True) ops
      (session_new \<lparr>c_fd = fd, c_thdid = owner\<rparr> n) = Done () s' \<and>
    delivered fd (log (net s')) @ concat (pending fd (net s')) @ concat (s_list s') =
      delivered fd (log n) @ submitted ops"
proof -
  have "session_ok E fd owner (session_new \<lparr>c_fd = fd, c_thdid = owner\<rparr> n)"
    using assms by (simp add: session_ok_def channel_ok_def session_new_def)
  from session_channel.run_in_order [OF this, of tok ops] show ?thesis
    using assms(3) by (auto simp: session_stream_def stream_def session_new_def)
qed

theorem session_send_in_order_witness:
  "\<exists>s'. chan_run (session_send (test_env False (\<lambda>tr. length tr < 2) (\<lambda>n. n)) () 3)
      (on_notified (test_env False (\<lambda>tr. length tr < 2) (\<lambda>n. n)) () 3) (\<lambda>s. True)
      [Submit [1], Submit [2, 3], Writable] (session_new \<lparr>c_fd = 5, c_thdid = 3\<rparr> (net_initial [])) = Done () s' \<and>
    delivered 5 (log (net s')) @ concat (pending 5 (net s')) @ concat (s_list s') =
      delivered 5 (log (net_initial [] :: unit net)) @ submitted [Submit [1], Submit [2, 3], Writable]"
  by (rule session_send_in_order) (simp_all add: test_env_whole pending_def net_initial_def)

text \<open>From any other thread \<^verbatim>\<open>session::send\<close> writes to the socket itself and looks only
  at the session's list, not at what the owner's loop still has queued: when that is not empty, the new
  message overtakes it on the wire (and, if the socket takes it only in part, the rest of it is lost).\<close>

theorem foreign_thread_overtakes:
  assumes "s_client s = Some \<lparr>c_fd = fd, c_thdid = owner\<rparr>" "0 \<le> fd" "cur \<noteq> owner" "s_list s = []"
    and "pending fd (net s) = q" "a = kernel E (log (net s)) (Send fd msg)" "0 < retval a"
  shows "\<exists>s'. session_send E tok cur msg s = Done () s' \<and> pending fd (net s') = q \<and> s_list s' = [] \<and>
    delivered fd (log (net s')) = delivered fd (log (net s)) @ take (nat (retval a)) msg"
  using assms
  by (simp add: session_send_def check_valid_def INVALID_def with_client_def client_realsend_def on_net_def
      sys_logged sent_of_def)

theorem foreign_thread_overtakes_witness:
  "\<exists>s'. session_send (test_env False (\<lambda>_. False) (\<lambda>n. n)) () 4 [9]
      (session_new \<lparr>c_fd = 0, c_thdid = 3\<rparr> ((net_initial [])\<lparr>m_wbuffer := [[[1, 2]]]\<rparr>)) = Done () s' \<and>
    pending 0 (net s') = [[1, 2]] \<and> s_list s' = [] \<and>
    delivered 0 (log (net s')) = delivered 0 (log (net (session_new \<lparr>c_fd = 0, c_thdid = 3\<rparr>
      ((net_initial [])\<lparr>m_wbuffer := [[[1, 2]]]\<rparr> :: unit net)))) @ take (nat 1) [9]"
  using foreign_thread_overtakes [of "session_new \<lparr>c_fd = 0, c_thdid = 3\<rparr>
        ((net_initial [])\<lparr>m_wbuffer := [[[1, 2]]]\<rparr>)" 0 3 4 "[[1, 2]]" _
      "test_env False (\<lambda>_. False) (\<lambda>n. n)" "[9]" "()", OF _ _ _ _ _ refl]
  by (simp add: session_new_def pending_def test_kernel_def)

text \<open>When such a direct write fails for good (any error but \<^verbatim>\<open>EAGAIN\<close>), the message goes
  to the session's list and nobody is told: from then on every send from any thread only lengthens the
  list, and no system call is made for the session again until a new client is set.\<close>

theorem failed_foreign_send_stalls:
  assumes "s_client s = Some \<lparr>c_fd = fd, c_thdid = owner\<rparr>" "0 \<le> fd" "cur \<noteq> owner" "s_list s = []"
    and "a = kernel E (log (net s)) (Send fd msg)" "retval a = -1" "\<not> again (err a)"
  shows "\<exists>s1. session_send E tok cur msg s = Done () s1 \<and> s_notified s1 = s_notified s \<and>
    m_trigger (net s1) = m_trigger (net s) \<and>
    (\<forall>calls. each (\<lambda>(th, m). session_send E tok th m) calls s1 =
       Done () (s1\<lparr>s_list := msg # map snd calls\<rparr>))"
proof -
  let ?s1 = "s\<lparr>net := logged E (Send fd msg) (net s), s_list := [msg]\<rparr>"
  have "session_send E tok cur msg s = Done () ?s1"
    using assms
    by (simp add: session_send_def check_valid_def INVALID_def with_client_def client_realsend_def on_net_def
        sys_logged queue_msg_def logged_def [of E "Send fd msg" "net s"])
  moreover have "each (\<lambda>(th, m). session_send E tok th m) calls (t\<lparr>s_list := x # l\<rparr>) =
      Done () (t\<lparr>s_list := (x # l) @ map snd calls\<rparr>)"
    if "s_client t = Some \<lparr>c_fd = fd, c_thdid = owner\<rparr>" for calls t x l
    using that
  proof (induction calls arbitrary: l)
    case Nil
    then show ?case by simp
  next
    case (Cons c calls)
    obtain th m where c: "c = (th, m)" by (cases c)
    have "session_send E tok th m (t\<lparr>s_list := x # l\<rparr>) = Done () (t\<lparr>s_list := x # (l @ [m])\<rparr>)"
      using Cons.prems assms(2) by (simp add: session_send_def check_valid_def INVALID_def queue_msg_def)
    then show ?case using Cons.IH [OF Cons.prems, of "l @ [m]"] by (simp add: c)
  qed
  from this [of "s\<lparr>net := logged E (Send fd msg) (net s)\<rparr>" _ msg "[]"] have
    "each (\<lambda>(th, m). session_send E tok th m) calls ?s1 = Done () (?s1\<lparr>s_list := msg # map snd calls\<rparr>)" for calls
    using assms(1) by simp
  ultimately show ?thesis by (intro exI [of _ ?s1]) simp
qed

theorem failed_foreign_send_stalls_witness:
  "\<exists>s1. session_send \<lparr>ndebug = True, kernel = (\<lambda>tr c. \<lparr>retval = -1, err = 32, out_err = 0, out_time = zero_time\<rparr>),
        usr = (\<lambda>u fd. skip)\<rparr> () 4 [9] (session_new \<lparr>c_fd = 5, c_thdid = 3\<rparr> (net_initial [])) = Done () s1 \<and>
    s_notified s1 = s_notified (session_new \<lparr>c_fd = 5, c_thdid = 3\<rparr> (net_initial []) :: unit session) \<and>
    m_trigger (net s1) = m_trigger (net (session_new \<lparr>c_fd = 5, c_thdid = 3\<rparr> (net_initial []))) \<and>
    (\<forall>calls. each (\<lambda>(th, m). session_send \<lparr>ndebug = True, kernel = (\<lambda>tr c. \<lparr>retval = -1, err = 32,
        out_err = 0, out_time = zero_time\<rparr>), usr = (\<lambda>u fd. skip)\<rparr> () th m) calls s1 =
       Done () (s1\<lparr>s_list := [9] # map snd calls\<rparr>))"
  by (rule failed_foreign_send_stalls [OF _ _ _ _ refl, where owner = 3 and fd = 5])
     (simp_all add: session_new_def again_def EAGAIN_def EINPROGRESS_def)

end
