(* ===== verification/Wire.thy ===== *)
theory Wire
  imports Client Session
begin

text \<open>
  From a session to the server that reads it: the write side of \<open>Session\<close> over \<open>AsyncStream\<close> and the
  read side of \<open>Client\<close>, with the bytes the kernel has taken between them. The contracts of the two locales
  meet: what \<open>fifo_channel\<close> delivers in order, \<open>stream_frames\<close> takes apart.
\<close>

text \<open>The state of a session that has had the operations \<open>ops\<close>: what the kernel took, what the loop holds
  and what the session's list holds are, in this order, what was submitted.\<close>

lemma session_accounts:
  assumes "0 \<le> fd" "whole E fd" "pending fd n = []" "delivered fd (log n) = []"
  shows "\<exists>s. chan_run (session_send E tok owner) (on_notified E tok owner) (\<lambda>s. True) ops
      (session_new \<lparr>c_fd = fd, c_thdid = owner\<rparr> n) = Done () s \<and>
    delivered fd (log (net s)) @ concat (pending fd (net s)) @ concat (s_list s) = submitted ops"
proof -
  have "session_ok E fd owner (session_new \<lparr>c_fd = fd, c_thdid = owner\<rparr> n)"
    using assms by (simp add: session_ok_def channel_ok_def session_new_def)
  from session_channel.run_in_order [OF this, of tok ops] show ?thesis
    using assms(3,4) by (auto simp: session_stream_def stream_def session_new_def)
qed



end
