(* ===== verification/AsyncLoop.thy ===== *)
theory AsyncLoop
  imports AsyncStream
begin

text \<open>
  The loop of \<^verbatim>\<open>src/src/net/asyncnet.cpp\<close> around its handlers: the discipline of its
  mutex, the containment of what callbacks throw, closing, notifications, accepting,
  connecting, timers. The callbacks are any programs within the hypotheses named.
\<close>

subsection \<open>The mutex\<close>

definition lock_is :: "bool \<Rightarrow> 'u net \<Rightarrow> bool" where
  "lock_is b s \<longleftrightarrow> m_locked s = b"

text \<open>Callbacks leave the loop's mutex as they find it.\<close>

definition lock_neutral :: "'u env \<Rightarrow> bool" where
  "lock_neutral E \<longleftrightarrow> (\<forall>u fd b. preserves (lock_is b) (usr E u fd))"

lemma sys_lock [pres]:
  "preserves (lock_is b) (sys_answer E c)" "preserves (lock_is b) (sys E c)"
  "preserves (lock_is b) (sys_do E c)"
  by (simp_all add: preserves_def lock_is_def sys_answer_def sys_run sys_do_run Let_def)

lemma event_lock [pres]:
  "preserves (lock_is b) (set_noblock E fd)" "preserves (lock_is b) (set_reuseaddr E fd)"
  "preserves (lock_is b) (getsockerr E fd)" "preserves (lock_is b) (add_event E fd st ev)"
  "preserves (lock_is b) (mod_event E fd st ev)" "preserves (lock_is b) (del_event E fd)"
  unfolding set_noblock_def set_reuseaddr_def getsockerr_def add_event_def mod_event_def del_event_def
  by (intro pres)+

lemma modify_lock [pres]:
  "(\<And>s. m_locked (g s) = m_locked s) \<Longrightarrow> preserves (lock_is b) (modify g)"
  by (simp add: preserves_def lock_is_def)

lemma clear_lock [pres]:
  "preserves (lock_is b) (i_clear m_read_update fd)" "preserves (lock_is b) (i_clear m_close_update fd)"
  "preserves (lock_is b) (i_clear m_client_update fd)" "preserves (lock_is b) (i_clear m_write_update fd)"
  unfolding i_clear_def by (intro pres; simp)+

lemma emplace_lock [pres]:
  "preserves (lock_is b) (i_emplace_back E m_read m_read_update fd x)"
  "preserves (lock_is b) (i_emplace_back E m_close m_close_update fd x)"
  "preserves (lock_is b) (i_emplace_back E m_client m_client_update fd x)"
  "preserves (lock_is b) (i_emplace_back E m_write m_write_update fd y)"
  unfolding i_emplace_back_def by (intro pres; simp)+

lemma push_back_lock [pres]: "preserves (lock_is b) (i_push_back_close E fd from)"
  unfolding i_push_back_close_def by (intro pres; simp)

lemma call_lock [pres]:
  "(\<And>f arg. preserves (lock_is b) (run f arg)) \<Longrightarrow> preserves (lock_is b) (i_call E get run fd arg)"
  unfolding i_call_def Let_def by (intro pres) (auto intro: pres split: option.splits)

lemma wbuffer_lock [pres]:
  "preserves (lock_is b) (get_wbuffer E fd)" "preserves (lock_is b) (set_wbuffer fd l)"
  unfolding get_wbuffer_def set_wbuffer_def by (intro pres; simp)+

lemma usr_lock: "lock_neutral E \<Longrightarrow> preserves (lock_is b) (usr E u fd)"
  by (simp add: lock_neutral_def)

lemma close_lock [pres]:
  "lock_neutral E \<Longrightarrow> preserves (lock_is b) (i_clientclose E fd)"
  "preserves (lock_is b) (i_clientclosed_already E fd)"
  unfolding i_clientclose_def i_clientclosed_already_def by (intro pres usr_lock; assumption)+

lemma send_loop_lock: "lock_neutral E \<Longrightarrow> preserves (lock_is b) (send_loop E fd lst)"
  by (induction lst) (auto intro!: pres)

lemma send_lock [pres]:
  assumes "lock_neutral E"
  shows "preserves (lock_is b) (i_send E fd)" "preserves (lock_is b) (net_send E fd msg)"
    "preserves (lock_is b) (run_wcb E w fd)"
proof -
  show s: "preserves (lock_is b) (i_send E fd)"
    unfolding i_send_def by (intro pres send_loop_lock assms)
  show "preserves (lock_is b) (net_send E fd msg)"
    unfolding net_send_def by (intro pres assms)
  show "preserves (lock_is b) (run_wcb E w fd)"
    using s assms by (cases w) (simp_all add: usr_lock)
qed

text \<open>Whatever runs under the guard, the mutex is free afterwards.\<close>

lemma with_lock_lock [pres]: "preserves (lock_is False) (with_lock m)"
  by (auto simp: preserves_def lock_is_def with_lock_def split: exec.splits)

lemma handler_lock [pres]:
  assumes "lock_neutral E"
  shows "preserves (lock_is False) (i_ontimer E fd ev st)" "preserves (lock_is False) (i_onconnect E fd ev)"
    "preserves (lock_is False) (i_onaccept E fd ev)" "preserves (lock_is False) (i_onclient E fd ev)"
    "preserves (lock_is False) (i_onevent E fd)"
proof -
  show "preserves (lock_is False) (i_ontimer E fd ev st)"
    unfolding i_ontimer_def by (intro pres usr_lock assms)
  show "preserves (lock_is False) (i_onconnect E fd ev)"
    unfolding i_onconnect_def Let_def by (intro pres usr_lock assms)
  show "preserves (lock_is False) (i_onaccept E fd ev)"
    unfolding i_onaccept_def by (intro pres)
  show "preserves (lock_is False) (i_onclient E fd ev)"
    unfolding i_onclient_def by (intro pres usr_lock assms)
  show "preserves (lock_is False) (i_onevent E fd)"
    unfolding i_onevent_def by (intro pres usr_lock assms)
qed

lemma handle_lock: "lock_neutral E \<Longrightarrow> preserves (lock_is False) (handle E ev)"
  unfolding handle_def Let_def
  by (cases ev) (auto intro!: pres)

lemma handle_event_lock: "lock_neutral E \<Longrightarrow> preserves (lock_is False) (handle_event E ev)"
  unfolding handle_event_def by (intro pres handle_lock; simp)

lemma handle_event_no_throw: "handle_event E ev s \<noteq> Threw t"
  by (cases "handle E ev s") (simp_all add: handle_event_def bnd_def try_catch_def)

lemma handle_event_flag: "handle_event E ev s = Done () s' \<Longrightarrow> \<not> flag_close s'"
  by (cases "handle E ev s") (auto simp: handle_event_def bnd_def try_catch_def)

lemma each_no_throw: "(\<And>x s t. f x s \<noteq> Threw t) \<Longrightarrow> each f xs s \<noteq> Threw t"
  by (induction xs arbitrary: s) (auto simp: bnd_def split: exec.splits)

lemma each_flag: "\<not> flag_close s \<Longrightarrow> each (handle_event E) evs s = Done () s' \<Longrightarrow> \<not> flag_close s'"
  by (induction evs arbitrary: s) (auto simp: bnd_eq_Done dest: handle_event_flag)

subsection \<open>Closing\<close>

text \<open>Nothing of the descriptor is left but its close callback.\<close>

definition blank :: "int \<Rightarrow> 'u net \<Rightarrow> bool" where
  "blank fd s \<longleftrightarrow> slot (m_read s) fd = None \<and> slot (m_write s) fd = None \<and>
     slot (m_client s) fd = None \<and> pending fd s = []"

lemma del_event_run:
  "0 \<le> fd \<Longrightarrow> \<exists>a e. del_event E fd s = Done () (s\<lparr>log := log s @ [(Epoll_del fd, a)], errno := e\<rparr>)"
  unfolding del_event_def INVALID_def
  by (rule exI [of _ "kernel E (log s) (Epoll_del fd)"],
      rule exI [of _ "if retval (kernel E (log s) (Epoll_del fd)) = -1
        then err (kernel E (log s) (Epoll_del fd)) else errno s"])
     (simp add: sys_do_run Let_def)

text \<open>The state in which \<^verbatim>\<open>__clientclose\<close> calls the close callback.\<close>

lemma clientclose_until_callback:
  assumes "0 \<le> fd"
  shows "\<exists>t a. i_clientclose E fd s =
      bnd (i_call E m_close (usr E) fd fd)
        (\<lambda>_. bnd (i_clear m_close_update fd) (\<lambda>_. sys_do E (Close fd))) t \<and>
    blank fd t \<and> m_close t = m_close s \<and> log t = log s @ [(Epoll_del fd, a)] \<and>
    m_read t = vec_clear fd (m_read s)"
proof -
  obtain a e where d: "del_event E fd s = Done () (s\<lparr>log := log s @ [(Epoll_del fd, a)], errno := e\<rparr>)"
    using del_event_run [OF assms] by blast
  let ?s = "s\<lparr>log := log s @ [(Epoll_del fd, a)], errno := e\<rparr>"
  let ?g = "wgrow fd ?s"
  let ?w = "?g\<lparr>m_wbuffer := (m_wbuffer ?g)[nat fd := []]\<rparr>"
  let ?t = "m_client_update (vec_clear fd) (m_write_update (vec_clear fd) (m_read_update (vec_clear fd) ?w))"
  have "pending fd ?w = []" by (rule pending_set [OF wgrow_length])
  then have "pending fd ?t = []" by (simp add: pending_def)
  then have "blank fd ?t" by (simp add: blank_def)
  moreover have "m_close ?t = m_close s" "log ?t = log s @ [(Epoll_del fd, a)]" "m_read ?t = vec_clear fd (m_read s)"
    by (simp_all add: wgrow_def)
  moreover have "i_clientclose E fd s = bnd (i_call E m_close (usr E) fd fd)
        (\<lambda>_. bnd (i_clear m_close_update fd) (\<lambda>_. sys_do E (Close fd))) ?t"
    using assms d get_wbuffer_run [OF assms, of E ?s]
    by (simp add: i_clientclose_def INVALID_def set_wbuffer_def i_clear_def)
  ultimately show ?thesis by blast
qed

lemma call_close_run:
  "i_call E m_close (usr E) fd arg t =
     (if \<not> (0 \<le> fd \<and> nat fd < length (cells (m_close t))) then Stuck (if ndebug E then Ub else Assertion)
      else case slot (m_close t) fd of None \<Rightarrow> Done () t | Some u \<Rightarrow> usr E u arg t)"
  by (auto simp: i_call_def Let_def assertion_def bnd_def split: option.splits)

lemma clear_close_run:
  "i_clear m_close_update fd t = Done () (m_close_update (vec_clear fd) t)"
  by (simp add: i_clear_def)

subsection \<open>Properties\<close>

text \<open>C13: Whatever callbacks do or throw, as long as they leave the loop's mutex as they found
  it, a pass of \<^verbatim>\<open>__wait\<close> over any batch of events never lets an exception out, ends with the
  mutex free even when a callback under the guard threw, and with the close flag reset, so no event
  inherits the flag of the one before it.\<close>

theorem wait_contains_exceptions:
  assumes "lock_neutral E" "\<not> m_locked s" "\<not> flag_close s"
  shows "case i_wait E evs s of
      Done r s' \<Rightarrow> \<not> m_locked s' \<and> \<not> flag_close s' \<and> r = m_running s'
    | Threw s' \<Rightarrow> False
    | Stuck e \<Rightarrow> True"
proof -
  have t: "each (handle_event E) evs s \<noteq> Threw t'" for t'
    by (rule each_no_throw) (rule handle_event_no_throw)
  have "preserves (lock_is False) (each (handle_event E) evs)"
    by (intro pres handle_event_lock assms(1))
  then have "lock_is False s1" if "each (handle_event E) evs s = Done () s1" for s1
    using preserves_Done [where I = "lock_is False" and m = "each (handle_event E) evs" and s = s]
      assms(2) that by (simp add: lock_is_def)
  then show ?thesis
    using t each_flag [OF assms(3)]
    by (cases "each (handle_event E) evs s") (auto simp: i_wait_def lock_is_def)
qed

theorem wait_contains_exceptions_witness:
  "case i_wait ((test_env False (\<lambda>_. False) (\<lambda>n. n))\<lparr>usr := (\<lambda>u fd. throw)\<rparr>)
      [(i_merge 0 (state_code e_state_client), EPOLLHUP), (i_merge 1 (state_code e_state_client), EPOLLIN)]
      ((net_initial [])\<lparr>m_close := \<lparr>cells = [Some ()], capacity = 1\<rparr>\<rparr>) of
      Done r s' \<Rightarrow> \<not> m_locked s' \<and> \<not> flag_close s' \<and> r = m_running s'
    | Threw s' \<Rightarrow> False
    | Stuck e \<Rightarrow> True"
  by (rule wait_contains_exceptions) (simp_all add: lock_neutral_def net_initial_def pres)

text \<open>\<^verbatim>\<open>__clientclose\<close> releases a descriptor completely: with close callbacks that
  return and do not register the descriptor again, all four table slots are empty, the queued data is
  dropped, the descriptor has left epoll before the callback ran and is closed after it.\<close>

theorem clientclose_releases:
  assumes "0 \<le> fd" "nat fd < length (cells (m_close s))"
    and "\<And>u t. blank fd t \<Longrightarrow> \<exists>t'. usr E u fd t = Done () t' \<and> blank fd t'"
  shows "\<exists>s' tr a. i_clientclose E fd s = Done () s' \<and> blank fd s' \<and> slot (m_close s') fd = None \<and>
    log s' = tr @ [(Close fd, a)]"
proof -
  obtain t where t: "i_clientclose E fd s =
      bnd (i_call E m_close (usr E) fd fd)
        (\<lambda>_. bnd (i_clear m_close_update fd) (\<lambda>_. sys_do E (Close fd))) t"
    "blank fd t" "m_close t = m_close s"
    using clientclose_until_callback [OF assms(1)] by blast
  obtain t' where t': "i_call E m_close (usr E) fd fd t = Done () t'" "blank fd t'"
    using assms(1,2) assms(3) [OF t(2)] t(2,3)
    by (cases "slot (m_close s) fd") (auto simp: call_close_run)
  then show ?thesis
    using assms(1) t(1) t'(2)
    by (auto simp: clear_close_run sys_do_run Let_def blank_def pending_def)
qed

theorem clientclose_releases_witness:
  "\<exists>s' tr a. i_clientclose (test_env False (\<lambda>_. False) (\<lambda>n. n)) 1
      ((net_initial [])\<lparr>m_close := \<lparr>cells = [None, Some ()], capacity = 2\<rparr>\<rparr>) = Done () s' \<and>
    blank 1 s' \<and> slot (m_close s') 1 = None \<and> log s' = tr @ [(Close 1, a)]"
  by (rule clientclose_releases) simp_all

text \<open>A close callback that throws leaks the connection: \<^verbatim>\<open>__clientclose\<close> is left
  before the slot is cleared and the socket closed, after the descriptor was taken out of epoll, so
  nothing will ever close it.\<close>

theorem throwing_close_leaks_socket:
  assumes "0 \<le> fd" "slot (m_close s) fd = Some u" "\<And>t. usr E u fd t = Threw t"
  shows "\<exists>s' a. i_clientclose E fd s = Threw s' \<and> slot (m_close s') fd = Some u \<and>
    log s' = log s @ [(Epoll_del fd, a)]"
proof -
  obtain t a where t: "i_clientclose E fd s =
      bnd (i_call E m_close (usr E) fd fd)
        (\<lambda>_. bnd (i_clear m_close_update fd) (\<lambda>_. sys_do E (Close fd))) t"
    "m_close t = m_close s" "log t = log s @ [(Epoll_del fd, a)]"
    using clientclose_until_callback [OF assms(1)] by blast
  have "i_call E m_close (usr E) fd fd t = Threw t"
    using assms t(2) by (auto simp: call_close_run slot_def split: if_splits)
  then show ?thesis using t assms(2) by simp
qed

theorem throwing_close_leaks_socket_witness:
  "\<exists>s' a. i_clientclose ((test_env False (\<lambda>_. False) (\<lambda>n. n))\<lparr>usr := (\<lambda>u fd. throw)\<rparr>) 1
      ((net_initial [])\<lparr>m_close := \<lparr>cells = [None, Some ()], capacity = 2\<rparr>\<rparr>) = Threw s' \<and>
    slot (m_close s') 1 = Some () \<and>
    log s' = log ((net_initial [])\<lparr>m_close := \<lparr>cells = [None, Some ()], capacity = 2\<rparr>\<rparr>) @ [(Epoll_del 1, a)]"
  by (rule throwing_close_leaks_socket) (simp_all add: slot_def)

text \<open>A connection whose table slot was never made (accepted by a listener without a close
  callback, and not given one) cannot be closed by the loop: the lookup is out of bounds.\<close>

lemma clientclose_without_slot:
  assumes "0 \<le> fd" "length (cells (m_close s)) \<le> nat fd"
  shows "i_clientclose E fd s = Stuck (if ndebug E then Ub else Assertion)"
proof -
  obtain t where t: "i_clientclose E fd s =
      bnd (i_call E m_close (usr E) fd fd)
        (\<lambda>_. bnd (i_clear m_close_update fd) (\<lambda>_. sys_do E (Close fd))) t" "m_close t = m_close s"
    using clientclose_until_callback [OF assms(1)] by blast
  then show ?thesis using assms(2) by (simp add: call_close_run)
qed

lemma notify_run:
  assumes "\<not> m_locked s"
  shows "\<exists>s'. notify E u s = Done () s' \<and> m_trigger s' = m_trigger s @ [u] \<and> \<not> m_locked s'"
  using assms by (simp add: notify_def with_lock_def sys_do_run Let_def bnd_def)

lemma notify_each:
  "\<not> m_locked s \<Longrightarrow>
     \<exists>s'. each (notify E) us s = Done () s' \<and> m_trigger s' = m_trigger s @ us \<and> \<not> m_locked s'"
proof (induction us arbitrary: s)
  case Nil
  then show ?case by simp
next
  case (Cons u us)
  obtain s1 where s1: "notify E u s = Done () s1" "m_trigger s1 = m_trigger s @ [u]" "\<not> m_locked s1"
    using notify_run [OF Cons.prems] by blast
  then show ?case using Cons.IH [OF s1(3)] by auto
qed

lemma onevent_run:
  assumes "\<not> m_locked s"
  shows "\<exists>s'. i_onevent E fd s = each (\<lambda>u. usr E u fd) (m_trigger s) s' \<and> m_trigger s' = [] \<and>
    \<not> m_locked s' \<and> (\<exists>a. log s' = log s @ [(Eventfd_read (m_eventfd s), a)])"
proof -
  have "i_onevent E fd s = each (\<lambda>u. usr E u fd) (m_trigger s)
      (logged E (Eventfd_read (m_eventfd s)) (s\<lparr>m_trigger := [], m_locked := False\<rparr>))"
    using assms by (simp add: i_onevent_def with_lock_def sys_logged bnd_def)
  then show ?thesis by fastforce
qed

text \<open>Notifications are a queue between threads: what \<^verbatim>\<open>notify\<close> was given since the
  last event runs at the next one, all of it, in order, each on the state its predecessor left, with the
  mutex free while it runs; what those callbacks notify in turn waits for the next event.\<close>

theorem notifications_run_in_order:
  assumes "\<not> m_locked s"
  shows "\<exists>s1 s2. each (notify E) us s = Done () s1 \<and> m_trigger s2 = [] \<and> \<not> m_locked s2 \<and>
    i_onevent E fd s1 = each (\<lambda>u. usr E u fd) (m_trigger s @ us) s2"
proof -
  obtain s1 where s1: "each (notify E) us s = Done () s1" "m_trigger s1 = m_trigger s @ us" "\<not> m_locked s1"
    using notify_each [OF assms] by blast
  then show ?thesis using onevent_run [OF s1(3), of E fd] by auto
qed

theorem notifications_run_in_order_witness:
  "\<exists>s1 s2. each (notify (test_env False (\<lambda>_. False) (\<lambda>n. n))) [(), ()] (net_initial []) = Done () s1 \<and>
    m_trigger s2 = [] \<and> \<not> m_locked s2 \<and>
    i_onevent (test_env False (\<lambda>_. False) (\<lambda>n. n)) 4 s1 =
      each (\<lambda>u. usr (test_env False (\<lambda>_. False) (\<lambda>n. n)) u 4) (m_trigger (net_initial []) @ [(), ()]) s2"
  by (rule notifications_run_in_order) (simp add: net_initial_def)

text \<open>The queue is emptied before its callbacks run, so when one of them throws, all that were
  behind it are dropped: the event loop goes on, and they never run.\<close>

theorem throwing_notification_drops_rest:
  assumes "\<not> m_locked s" "m_trigger s = u # us" "\<And>t. usr E u fd t = Threw t"
  shows "\<exists>s' a. try_catch (i_onevent E fd) s = Done () s' \<and> m_trigger s' = [] \<and>
    log s' = log s @ [(Eventfd_read (m_eventfd s), a)]"
proof -
  obtain s' a where "i_onevent E fd s = each (\<lambda>u. usr E u fd) (u # us) s'" "m_trigger s' = []"
      "log s' = log s @ [(Eventfd_read (m_eventfd s), a)]"
    using onevent_run [OF assms(1), of E fd] assms(2) by auto
  then show ?thesis using assms(3) by (simp add: try_catch_def)
qed

theorem throwing_notification_drops_rest_witness:
  "\<exists>s' a. try_catch (i_onevent ((test_env False (\<lambda>_. False) (\<lambda>n. n))\<lparr>usr := (\<lambda>u fd. throw)\<rparr>) 4)
      ((net_initial [])\<lparr>m_trigger := [(), ()]\<rparr>) = Done () s' \<and> m_trigger s' = [] \<and>
    log s' = log ((net_initial [])\<lparr>m_trigger := [(), ()]\<rparr> :: unit net) @
      [(Eventfd_read (m_eventfd ((net_initial [])\<lparr>m_trigger := [(), ()]\<rparr> :: unit net)), a)]"
  by (rule throwing_notification_drops_rest [where us = "[()]"]) (simp_all add: net_initial_def)

subsubsection \<open>Accepting\<close>

text \<open>The state in which \<^verbatim>\<open>__onaccept\<close> calls the callback of the listener.\<close>

lemma onaccept_until_callback:
  assumes "0 < fd" "\<not> m_locked s" "has_event ev (EPOLLIN OR EPOLLOUT)"
    and "\<And>tr. retval (kernel E tr (Accept fd)) = nfd" "0 \<le> nfd"
  shows "\<exists>t. i_onaccept E fd ev s =
      (case bnd (i_call E m_client (usr E) fd nfd) (\<lambda>_.
              bnd (gets m_close) (\<lambda>v.
                if \<not> (0 \<le> fd \<and> nat fd < length (cells v)) then stuck Ub
                else if slot v fd \<noteq> None then i_push_back_close E nfd fd
                else skip)) t of
         Done a s' \<Rightarrow> Done a (s'\<lparr>m_locked := False\<rparr>)
       | Threw s' \<Rightarrow> Threw (s'\<lparr>m_locked := False\<rparr>)
       | Stuck e \<Rightarrow> Stuck e) \<and>
    m_locked t \<and> m_client t = m_client s \<and> m_close t = m_close s \<and> m_read t = m_read s \<and> m_write t = m_write s"
proof -
  let ?s = "logged E (Accept fd) (s\<lparr>m_locked := True\<rparr>)"
  let ?t = "logged E (Fcntl_setfl nfd (O_NONBLOCK OR retval (kernel E (log ?s) (Fcntl_getfl nfd)))) (logged E (Fcntl_getfl nfd) ?s)"
  let ?u = "logged E (Epoll_add nfd (i_merge nfd (state_code e_state_client)) ev_in) ?t"
  have "set_noblock E nfd ?s = Done () ?t" by (simp add: set_noblock_def sys_logged)
  moreover have "add_event E nfd e_state_client ev_in ?t = Done () ?u"
    using assms(5) by (simp add: add_event_def INVALID_def sys_logged)
  ultimately show ?thesis
    using assms by (intro exI [of _ ?u]) (simp add: i_onaccept_def with_lock_def sys_logged INVALID_def)
qed

lemma call_client_run:
  "slot (m_client t) fd = Some u \<Longrightarrow> i_call E m_client (usr E) fd arg t = usr E u arg t"
  by (auto simp: i_call_def slot_def split: if_splits)

text \<open>The accept callback runs with the loop's mutex held, so one that calls
  \<^verbatim>\<open>notify\<close> on its own loop locks a \<^verbatim>\<open>std::mutex\<close> twice in one thread: undefined, in practice
  the thread hangs.\<close>

theorem notify_in_accept_deadlocks:
  assumes "0 < fd" "\<not> m_locked s" "has_event ev (EPOLLIN OR EPOLLOUT)"
    and "\<And>tr. retval (kernel E tr (Accept fd)) = nfd" "0 \<le> nfd"
    and "slot (m_client s) fd = Some u" "usr E u nfd = notify E x"
  shows "i_onaccept E fd ev s = Stuck Ub"
proof -
  obtain t where t: "i_onaccept E fd ev s =
      (case bnd (i_call E m_client (usr E) fd nfd) (\<lambda>_.
              bnd (gets m_close) (\<lambda>v.
                if \<not> (0 \<le> fd \<and> nat fd < length (cells v)) then stuck Ub
                else if slot v fd \<noteq> None then i_push_back_close E nfd fd
                else skip)) t of
         Done a s' \<Rightarrow> Done a (s'\<lparr>m_locked := False\<rparr>)
       | Threw s' \<Rightarrow> Threw (s'\<lparr>m_locked := False\<rparr>)
       | Stuck e \<Rightarrow> Stuck e)" "m_locked t" "m_client t = m_client s"
    using onaccept_until_callback [OF assms(1-5)] by blast
  have "i_call E m_client (usr E) fd nfd t = Stuck Ub"
    using call_client_run [of t fd u E nfd] t(2,3) assms(6,7) by (simp add: notify_def with_lock_def bnd_def)
  then show ?thesis using t(1) by simp
qed

definition accept_kernel :: "int \<Rightarrow> trace \<Rightarrow> syscall \<Rightarrow> answer" where
  "accept_kernel nfd tr c =
     \<lparr>retval = (case c of Accept fd \<Rightarrow> nfd | _ \<Rightarrow> 0), err = 0, out_err = 0, out_time = zero_time\<rparr>"

theorem notify_in_accept_deadlocks_witness:
  "i_onaccept \<lparr>ndebug = True, kernel = accept_kernel 5,
       usr = (\<lambda>u fd. if u then notify \<lparr>ndebug = True, kernel = accept_kernel 5, usr = (\<lambda>u fd. skip)\<rparr> False
                      else skip)\<rparr>
     1 EPOLLIN ((net_initial [])\<lparr>m_client := \<lparr>cells = [None, Some True], capacity = 2\<rparr>\<rparr>) = Stuck Ub"
  by (rule notify_in_accept_deadlocks [where nfd = 5 and u = True and x = False])
     (simp_all add: net_initial_def accept_kernel_def slot_def has_event_def EPOLLIN_def EPOLLOUT_def
        notify_def sys_do_def sys_answer_def)

text \<open>Passing the close callback of a listener on to an accepted connection uses a reference into
  the vector that is being grown: whenever the new descriptor does not fit the vector's capacity (and the
  accept callback has not made room by registering its own), the growth frees the element the reference
  names before it is read.\<close>

theorem accept_reads_freed_callback:
  assumes "0 < fd" "\<not> m_locked s" "has_event ev (EPOLLIN OR EPOLLOUT)"
    and "\<And>tr. retval (kernel E tr (Accept fd)) = nfd" "0 \<le> nfd"
    and "slot (m_client s) fd = Some u" "usr E u nfd = skip" "slot (m_close s) fd = Some c"
    and "length (cells (m_close s)) \<le> nat nfd" "capacity (m_close s) \<le> nat nfd"
  shows "i_onaccept E fd ev s = Stuck Ub"
proof -
  obtain t where t: "i_onaccept E fd ev s =
      (case bnd (i_call E m_client (usr E) fd nfd) (\<lambda>_.
              bnd (gets m_close) (\<lambda>v.
                if \<not> (0 \<le> fd \<and> nat fd < length (cells v)) then stuck Ub
                else if slot v fd \<noteq> None then i_push_back_close E nfd fd
                else skip)) t of
         Done a s' \<Rightarrow> Done a (s'\<lparr>m_locked := False\<rparr>)
       | Threw s' \<Rightarrow> Threw (s'\<lparr>m_locked := False\<rparr>)
       | Stuck e \<Rightarrow> Stuck e)" "m_client t = m_client s" "m_close t = m_close s"
    using onaccept_until_callback [OF assms(1-5)] by blast
  have "i_call E m_client (usr E) fd nfd t = Done () t"
    using call_client_run [of t fd u E nfd] t(2) assms(6,7) by simp
  moreover have "i_push_back_close E nfd fd t = Stuck Ub"
    using assms(5,9,10) t(3) by (simp add: i_push_back_close_def bnd_def)
  moreover have "0 \<le> fd \<and> nat fd < length (cells (m_close t))" "slot (m_close t) fd \<noteq> None"
    using assms(8) t(3) by (auto simp: slot_def split: if_splits)
  ultimately show ?thesis using t(1) by simp
qed

text \<open>A loop that has just started listening on descriptor 3 with a close callback, and accepts
  descriptor 5.\<close>

theorem accept_reads_freed_callback_witness:
  "\<exists>s. i_start \<lparr>ndebug = True, kernel = accept_kernel 5, usr = (\<lambda>u fd. skip)\<rparr> 3 (Some ()) (Some ())
       (net_initial []) = Done 3 s \<and>
     i_onaccept \<lparr>ndebug = True, kernel = accept_kernel 5, usr = (\<lambda>u fd. skip)\<rparr> 3 EPOLLIN s = Stuck Ub"
proof -
  let ?E = "\<lparr>ndebug = True, kernel = accept_kernel 5, usr = (\<lambda>u fd. skip)\<rparr> :: unit env"
  let ?v = "\<lparr>cells = [None, None, None, Some ()], capacity = 4\<rparr> :: unit vec"
  have v: "vec_set 3 (Some ()) (vec_grow 3 vec_empty) = ?v"
    by (simp add: vec_set_def vec_grow_def vec_resize_def vec_empty_def numeral_eq_Suc)
  obtain s where s: "i_start ?E 3 (Some ()) (Some ()) (net_initial []) = Done 3 s" "m_client s = ?v"
      "m_close s = ?v" "\<not> m_locked s"
    by (simp add: i_start_def with_lock_def i_fd_add_event_def add_event_def i_emplace_back_def sys_do_run
        Let_def net_initial_def v accept_kernel_def)
  have "i_onaccept ?E 3 EPOLLIN s = Stuck Ub"
    by (rule accept_reads_freed_callback [where nfd = 5 and u = "()" and c = "()"])
       (simp_all add: s(2-4) accept_kernel_def slot_def has_event_def EPOLLIN_def EPOLLOUT_def)
  then show ?thesis using s(1) by blast
qed

subsubsection \<open>Connecting\<close>

text \<open>An outgoing connection the kernel completes at once (\<^verbatim>\<open>::connect\<close> answers 0, not
  \<^verbatim>\<open>EINPROGRESS\<close>) is treated as a failure: its close callback is called, the socket closed and
  \<open>-1\<close> returned; the connect callback never runs and nothing is registered.\<close>

theorem immediate_connect_is_dropped:
  assumes "\<And>tr. retval (kernel E tr Socket) = fd" "0 \<le> fd"
    and "\<And>tr. retval (kernel E tr (Connect fd ip port)) = 0"
    and "\<And>t. usr E u fd t = Done () t"
  shows "\<exists>s' a. net_connect E ip port cli (Some u) s = Done INVALID s' \<and>
    (\<exists>tr. log s' = tr @ [(Close fd, a)]) \<and> m_client s' = m_client s \<and> m_close s' = m_close s"
proof -
  have nb: "\<exists>t'. set_noblock E fd t = Done () t' \<and> m_client t' = m_client t \<and> m_close t' = m_close t" for t
    by (simp add: set_noblock_def sys_logged)
  obtain t where t: "set_noblock E fd (logged E Socket s) = Done () t" "m_client t = m_client s"
      "m_close t = m_close s"
    using nb [of "logged E Socket s"] by auto
  then show ?thesis
    using assms by (simp add: net_connect_def sys_logged INVALID_def)
qed

definition connect_kernel :: "trace \<Rightarrow> syscall \<Rightarrow> answer" where
  "connect_kernel tr c =
     \<lparr>retval = (case c of Socket \<Rightarrow> 7 | _ \<Rightarrow> 0), err = 0, out_err = 0, out_time = zero_time\<rparr>"

theorem immediate_connect_is_dropped_witness:
  "\<exists>s' a. net_connect \<lparr>ndebug = True, kernel = connect_kernel, usr = (\<lambda>u fd. skip)\<rparr> ''127.0.0.1'' 80
      (Some ()) (Some ()) (net_initial []) = Done INVALID s' \<and>
    (\<exists>tr. log s' = tr @ [(Close 7, a)]) \<and> m_client s' = m_client (net_initial []) \<and>
    m_close s' = m_close (net_initial [])"
  by (rule immediate_connect_is_dropped) (simp_all add: connect_kernel_def)

text \<open>A failed connection is closed with its connect callback left in the table. When the kernel
  hands the same descriptor out again, a build with assertions aborts in the next
  \<^verbatim>\<open>connect\<close>.\<close>

theorem failed_connect_leaves_callback:
  assumes "0 \<le> fd" "slot (m_client s) fd = Some u" "nat fd < length (cells (m_close s))"
    and "\<not> has_event ev (EPOLLIN OR EPOLLOUT)" "flag_close s"
    and "\<And>v t. usr E v fd t = Done () t"
  shows "\<exists>s'. i_onconnect E fd ev s = Done () s' \<and> slot (m_client s') fd = Some u \<and>
    slot (m_close s') fd = None \<and> (\<exists>tr a. log s' = tr @ [(Close fd, a)]) \<and>
    (if ndebug E then True else i_fd_add_event E fd e_state_connect cli cl s' = Stuck Assertion)"
proof -
  let ?d = "logged E (Epoll_del fd) s"
  have d: "del_event E fd s = Done () ?d" using assms(1) by (simp add: del_event_def INVALID_def sys_logged)
  have c: "i_call E m_close (usr E) fd fd ?d = Done () ?d"
    using assms(1,3,6) by (simp add: call_close_run split: option.splits)
  let ?c = "m_close_update (vec_clear fd) ?d"
  let ?e = "logged E (Close fd) ?c"
  have "i_onconnect E fd ev s = Done () ?e"
    using assms(4,5) d c by (simp add: i_onconnect_def clear_close_run sys_logged)
  moreover have "i_fd_add_event E fd e_state_connect cli cl ?e = Stuck Assertion" if "\<not> ndebug E"
    using assms(1,2) that
    by (simp add: i_fd_add_event_def add_event_def INVALID_def sys_logged i_emplace_back_def assertion_def bnd_def)
  ultimately show ?thesis using assms(2) by auto
qed

theorem failed_connect_leaves_callback_witness:
  "\<exists>s'. i_onconnect (test_env False (\<lambda>_. False) (\<lambda>n. n)) 0 EPOLLHUP
      ((net_initial [])\<lparr>m_client := \<lparr>cells = [Some ()], capacity = 1\<rparr>,
         m_close := \<lparr>cells = [Some ()], capacity = 1\<rparr>, flag_close := True\<rparr>) = Done () s' \<and>
    slot (m_client s') 0 = Some () \<and> slot (m_close s') 0 = None \<and> (\<exists>tr a. log s' = tr @ [(Close 0, a)]) \<and>
    (if ndebug (test_env False (\<lambda>_. False) (\<lambda>n. n)) then True
     else i_fd_add_event (test_env False (\<lambda>_. False) (\<lambda>n. n)) 0 e_state_connect (Some ()) None s' = Stuck Assertion)"
  by (rule failed_connect_leaves_callback)
     (simp_all add: slot_def has_event_def EPOLLHUP_def EPOLLIN_def EPOLLOUT_def)

subsubsection \<open>Sockets of other libraries\<close>

text \<open>A descriptor registered with \<^verbatim>\<open>e_state_client_ex\<close> (the sockets hiredis and the MySQL
  client own) is never closed by the loop: a hang-up with nothing to read or write changes no table and
  makes no system call.\<close>

theorem ex_socket_left_alone:
  assumes "0 \<le> fd" "fd < 2 ^ 31" "\<not> flag_close s"
    and "\<not> has_event ev EPOLLIN" "\<not> has_event ev EPOLLOUT"
  shows "handle_event E (i_merge fd (state_code e_state_client_ex), ev) s = Done () s"
proof -
  have "i_onclient E fd ev s = Done () s"
    using assms(3-5) by (simp add: i_onclient_def)
  then have "handle E (i_merge fd (state_code e_state_client_ex), ev) s = Done () s"
    using merge_roundtrip [OF assms(1,2), of "state_code e_state_client_ex"]
    by (simp add: handle_def)
  then show ?thesis using assms(3) by (simp add: handle_event_def try_catch_def)
qed

theorem ex_socket_left_alone_witness:
  "handle_event (test_env False (\<lambda>_. False) (\<lambda>n. n)) (i_merge 9 (state_code e_state_client_ex), EPOLLHUP)
     (net_initial []) = Done () (net_initial [])"
  by (rule ex_socket_left_alone)
     (simp_all add: net_initial_def has_event_def EPOLLHUP_def EPOLLIN_def EPOLLOUT_def)

subsubsection \<open>Timers\<close>

text \<open>A timer is armed with exactly the milliseconds asked for, in both the first expiry and the
  interval (nanoseconds in range), as a repeating one just when the interval is not 0, and
  its callback is in the table when \<^verbatim>\<open>set_timer\<close> returns.\<close>

theorem set_timer_exact:
  assumes "0 \<le> itime" "0 \<le> rtime" "\<And>tr. retval (kernel E tr Timerfd_create) = fd" "0 \<le> fd"
    and "\<And>tr t. retval (kernel E tr (Timerfd_settime fd t)) = 0" "slot (m_read s) fd = None"
  shows "\<exists>s' T a b c. set_timer E itime rtime (Some u) s = Done fd s' \<and> slot (m_read s') fd = Some u \<and>
    log s' = log s @ [(Timerfd_create, a), (Timerfd_settime fd T, b),
       (Epoll_add fd (i_merge fd (state_code (if rtime = 0 then e_state_timer else e_state_rtimer))) EPOLLIN, c)] \<and>
    it_value_sec T * 1000000000 + it_value_nsec T = itime * 1000000 \<and>
    it_interval_sec T * 1000000000 + it_interval_nsec T = rtime * 1000000 \<and>
    it_value_nsec T \<in> {0..<1000000000} \<and> it_interval_nsec T \<in> {0..<1000000000}"
proof -
  define T where "T = \<lparr>it_value_sec = itime sdiv 1000, it_value_nsec = (itime smod 1000) * 1000000,
    it_interval_sec = rtime sdiv 1000, it_interval_nsec = (rtime smod 1000) * 1000000\<rparr>"
  have d: "x sdiv 1000 = x div 1000" "x smod 1000 = x mod 1000" if "0 \<le> x" for x :: int
    using that by (auto simp: signed_divide_int_def signed_modulo_int_def sgn_if)
  have e: "x div 1000 * 1000000000 + x mod 1000 * 1000000 = x * 1000000" for x :: int
    using div_mult_mod_eq [of x 1000] by linarith
  have T: "it_value_sec T * 1000000000 + it_value_nsec T = itime * 1000000"
    "it_interval_sec T * 1000000000 + it_interval_nsec T = rtime * 1000000"
    "it_value_nsec T \<in> {0..<1000000000}" "it_interval_nsec T \<in> {0..<1000000000}"
    using d [OF assms(1)] d [OF assms(2)] by (simp_all add: T_def e)
  let ?s1 = "logged E Timerfd_create s"
  let ?s2 = "logged E (Timerfd_settime fd T) ?s1"
  let ?st = "if rtime = 0 then e_state_timer else e_state_rtimer"
  let ?s3 = "logged E (Epoll_add fd (i_merge fd (state_code ?st)) EPOLLIN) ?s2"
  let ?s4 = "m_read_update (vec_set fd (Some u)) (m_read_update (vec_grow fd) ?s3)"
  have "add_event E fd ?st EPOLLIN ?s2 = Done () ?s3"
    using assms(4) by (simp add: add_event_def INVALID_def sys_logged)
  moreover have "i_emplace_back E m_read m_read_update fd (Some u) ?s3 = Done () ?s4"
    using assms(4,6) by (simp add: i_emplace_back_def)
  ultimately have "set_timer E itime rtime (Some u) s = Done fd ?s4"
    using assms(3-5) by (simp add: set_timer_def i_settimer_def sys_logged INVALID_def T_def [symmetric])
  moreover have "slot (m_read ?s4) fd = Some u"
    using assms(4) by (simp add: slot_vec_set length_vec_grow less_max_iff_disj)
  ultimately show ?thesis using T by (intro exI [of _ ?s4] exI [of _ T]) simp
qed

theorem set_timer_exact_witness:
  "\<exists>s' T a b c. set_timer (test_env False (\<lambda>_. False) (\<lambda>n. n)) 1500 0 (Some ()) (net_initial []) = Done 0 s' \<and>
    slot (m_read s') 0 = Some () \<and>
    log s' = log (net_initial [] :: unit net) @ [(Timerfd_create, a), (Timerfd_settime 0 T, b),
       (Epoll_add 0 (i_merge 0 (state_code (if (0::int) = 0 then e_state_timer else e_state_rtimer))) EPOLLIN, c)] \<and>
    it_value_sec T * 1000000000 + it_value_nsec T = 1500 * 1000000 \<and>
    it_interval_sec T * 1000000000 + it_interval_nsec T = 0 * 1000000 \<and>
    it_value_nsec T \<in> {0..<1000000000} \<and> it_interval_nsec T \<in> {0..<1000000000}"
  by (rule set_timer_exact) (simp_all add: test_kernel_def net_initial_def slot_def vec_empty_def)

text \<open>\<^verbatim>\<open>remaining_timer\<close> divides the nanoseconds by 1000, not by 1000000: of
  \<open>sec\<close> seconds and \<open>ms\<close> milliseconds left it reports \<open>sec * 1000 + ms * 1000\<close>, right only when
  \<open>ms\<close> is 0.\<close>

theorem remaining_timer_unit:
  assumes "0 \<le> ms" "ms < 1000" "retval a = 0" "a = kernel E (log s) (Timerfd_gettime fd)"
    and "it_value_sec (out_time a) = sec" "it_value_nsec (out_time a) = ms * 1000000"
  shows "\<exists>v s'. remaining_timer E fd s = Done v s' \<and> v = sec * 1000 + ms * 1000 \<and>
    (v = sec * 1000 + ms \<longleftrightarrow> ms = 0)"
proof -
  have "(ms * 1000000) sdiv 1000 = ms * 1000"
    using assms(1) by (auto simp: signed_divide_int_def sgn_if)
  then show ?thesis
    using assms by (simp add: remaining_timer_def sys_logged INVALID_def)
qed

theorem remaining_timer_unit_witness:
  "\<exists>v s'. remaining_timer \<lparr>ndebug = True, kernel = (\<lambda>tr c. \<lparr>retval = 0, err = 0, out_err = 0,
       out_time = zero_time\<lparr>it_value_sec := 2, it_value_nsec := 500000000\<rparr>\<rparr>), usr = (\<lambda>u fd. skip)\<rparr> 3
     (net_initial [] :: unit net) = Done v s' \<and> v = 2 * 1000 + 500 * 1000 \<and>
    (v = 2 * 1000 + 500 \<longleftrightarrow> (500 :: int) = 0)"
  by (rule remaining_timer_unit [OF _ _ _ refl]) simp_all

end
