(* ===== verification/Wakeup.thy ===== *)
theory Wakeup
  imports AsyncLoop
begin

text \<open>
  \<^verbatim>\<open>asyncnet::notify\<close> from any thread against \<^verbatim>\<open>__onevent\<close> of the loop's, at the grain at which
  they can interleave: \<open>m_trigger\<close> is changed under \<^verbatim>\<open>m_mutex\<close>, the eventfd is written and read
  outside it. Of the kernel nothing is used but that an eventfd adds up what is written, that a read
  takes all of it, and that epoll reports it readable only while it holds something.
\<close>

subsection \<open>States and steps\<close>

text \<open>Where the loop's thread is: in \<^verbatim>\<open>epoll_wait\<close> or elsewhere, at the beginning of \<^verbatim>\<open>__onevent\<close>,
  between the swap and the read, or calling what it took.\<close>

datatype 'c loop_at = Elsewhere | Woken | Taken "'c list" | Calling "'c list"

text \<open>\<open>w_writing\<close>: the threads that have queued a callback and not yet written the eventfd. \<open>w_pushed\<close> and
  \<open>w_gone\<close> are the history: what was queued, and what left the loop, called or (behind one that threw) not;
  \<open>w_raced\<close>: a read has taken the signal of a callback queued after the swap.\<close>

record 'c wake =
  w_trigger :: "'c list"
  w_count :: nat
  w_writing :: nat
  w_loop :: "'c loop_at"
  w_pushed :: "'c list"
  w_gone :: "('c \<times> bool) list"
  w_raced :: bool

definition wake_initial :: "'c wake" where
  "wake_initial = \<lparr>w_trigger = [], w_count = 0, w_writing = 0, w_loop = Elsewhere, w_pushed = [], w_gone = [],
     w_raced = False\<rparr>"

text \<open>\<^verbatim>\<open>notify\<close> is \<open>push\<close> (its block under the mutex) and \<open>signal\<close> (its write); \<open>report\<close> is
  \<^verbatim>\<open>epoll_wait\<close> answering with the eventfd; of \<^verbatim>\<open>__onevent\<close>, \<open>swap\<close> is its block under the mutex,
  \<open>drain\<close> its read, \<open>call\<close> and \<open>throws\<close> a round of its loop, \<open>finish\<close> its return. A thread
  may be between \<open>push\<close> and \<open>signal\<close> while the loop takes any step.\<close>

inductive wake_step :: "'c wake \<Rightarrow> 'c wake \<Rightarrow> bool" where
  push: "wake_step s (s\<lparr>w_trigger := w_trigger s @ [c], w_writing := w_writing s + 1, w_pushed := w_pushed s @ [c]\<rparr>)"
| signal: "0 < w_writing s \<Longrightarrow> wake_step s (s\<lparr>w_writing := w_writing s - 1, w_count := w_count s + 1\<rparr>)"
| report: "w_loop s = Elsewhere \<Longrightarrow> 0 < w_count s \<Longrightarrow> wake_step s (s\<lparr>w_loop := Woken\<rparr>)"
| swap: "w_loop s = Woken \<Longrightarrow> wake_step s (s\<lparr>w_loop := Taken (w_trigger s), w_trigger := []\<rparr>)"
| drain: "w_loop s = Taken l \<Longrightarrow>
    wake_step s (s\<lparr>w_loop := Calling l, w_count := 0, w_raced := w_raced s \<or> w_trigger s \<noteq> []\<rparr>)"
| call: "w_loop s = Calling (c # l) \<Longrightarrow> wake_step s (s\<lparr>w_loop := Calling l, w_gone := w_gone s @ [(c, True)]\<rparr>)"
| throws: "w_loop s = Calling (c # l) \<Longrightarrow>
    wake_step s (s\<lparr>w_loop := Elsewhere, w_gone := w_gone s @ (c, True) # map (\<lambda>c. (c, False)) l\<rparr>)"
| finish: "w_loop s = Calling [] \<Longrightarrow> wake_step s (s\<lparr>w_loop := Elsewhere\<rparr>)"

inductive wake_reach :: "'c wake \<Rightarrow> bool" where
  initial: "wake_reach wake_initial"
| step: "wake_reach s \<Longrightarrow> wake_step s t \<Longrightarrow> wake_reach t"

subsection \<open>Every callback once, in order\<close>

fun in_hand :: "'c loop_at \<Rightarrow> 'c list" where
  "in_hand (Taken l) = l"
| "in_hand (Calling l) = l"
| "in_hand _ = []"

definition wake_ledger :: "'c wake \<Rightarrow> bool" where
  "wake_ledger s \<longleftrightarrow> map fst (w_gone s) @ in_hand (w_loop s) @ w_trigger s = w_pushed s"

text \<open>A wakeup is under way for what is queued, unless a read has raced with a notification.\<close>

definition wake_coming :: "'c wake \<Rightarrow> bool" where
  "wake_coming s \<longleftrightarrow> w_trigger s = [] \<or> 0 < w_count s \<or> 0 < w_writing s \<or> w_loop s = Woken \<or> w_raced s"

lemma wake_step_ledger: "wake_step s t \<Longrightarrow> wake_ledger s \<Longrightarrow> wake_ledger t"
  by (induction rule: wake_step.induct) (auto simp: wake_ledger_def comp_def)

lemma wake_step_coming: "wake_step s t \<Longrightarrow> wake_coming s \<Longrightarrow> wake_coming t"
  by (induction rule: wake_step.induct) (auto simp: wake_coming_def)

lemma wake_reach_ledger: "wake_reach s \<Longrightarrow> wake_ledger s"
  by (induction rule: wake_reach.induct) (auto simp: wake_ledger_def wake_initial_def wake_step_ledger [unfolded wake_ledger_def])

lemma wake_reach_coming: "wake_reach s \<Longrightarrow> wake_coming s"
  by (induction rule: wake_reach.induct) (auto simp: wake_coming_def wake_initial_def wake_step_coming [unfolded wake_coming_def])



lemma wake_reach_steps: "wake_step\<^sup>*\<^sup>* s t \<Longrightarrow> wake_reach s \<Longrightarrow> wake_reach t"
  by (induction rule: rtranclp_induct) (auto intro: wake_reach.step)

text \<open>A run in which two threads queue and one signal wakes the loop for both.\<close>

lemma wake_example:
  "wake_reach \<lparr>w_trigger = [], w_count = 0, w_writing = 1, w_loop = Calling [7 :: nat],
     w_pushed = [5, 7], w_gone = [(5, True)], w_raced = False\<rparr>" (is "wake_reach ?s")
proof -
  let ?a = "wake_initial :: nat wake"
  let ?b = "?a\<lparr>w_trigger := [5], w_writing := 1, w_pushed := [5]\<rparr>"
  let ?c = "?b\<lparr>w_trigger := [5, 7], w_writing := 2, w_pushed := [5, 7]\<rparr>"
  let ?d = "?c\<lparr>w_writing := 1, w_count := 1\<rparr>"
  let ?e = "?d\<lparr>w_loop := Woken\<rparr>"
  let ?f = "?e\<lparr>w_loop := Taken [5, 7], w_trigger := []\<rparr>"
  let ?g = "?f\<lparr>w_loop := Calling [5, 7], w_count := 0\<rparr>"
  have "wake_step ?a ?b" using wake_step.push [of ?a 5] by (simp add: wake_initial_def)
  moreover have "wake_step ?b ?c" using wake_step.push [of ?b 7] by (simp add: wake_initial_def numeral_2_eq_2)
  moreover have "wake_step ?c ?d" using wake_step.signal [of ?c] by (simp add: wake_initial_def)
  moreover have "wake_step ?d ?e" using wake_step.report [of ?d] by (simp add: wake_initial_def)
  moreover have "wake_step ?e ?f" using wake_step.swap [of ?e] by (simp add: wake_initial_def)
  moreover have "wake_step ?f ?g" using wake_step.drain [of ?f "[5, 7]"] by (simp add: wake_initial_def)
  moreover have "wake_step ?g ?s" using wake_step.call [of ?g 5 "[7]"] by (simp add: wake_initial_def)
  ultimately show ?thesis by (meson wake_reach.intros)
qed


subsection \<open>Whether the loop wakes up\<close>

text \<open>Unless a read of the eventfd has raced with a notification, queued callbacks are never
  forgotten: as long as \<^verbatim>\<open>m_trigger\<close> holds one, the loop has been woken, the eventfd is readable, or
  a thread is about to write it.\<close>

theorem wakeup_is_coming:
  assumes "wake_reach s" "\<not> w_raced s" "w_trigger s \<noteq> []"
  shows "0 < w_count s \<or> 0 < w_writing s \<or> w_loop s = Woken"
  using wake_reach_coming [OF assms(1)] assms(2,3) by (simp add: wake_coming_def)

lemma wake_example_waiting:
  "wake_reach \<lparr>w_trigger = [5 :: nat], w_count = 0, w_writing = 1, w_loop = Elsewhere, w_pushed = [5],
     w_gone = [], w_raced = False\<rparr>"
  using wake_reach.step [OF wake_reach.initial wake_step.push [of wake_initial 5]]
  by (simp add: wake_initial_def)

theorem wakeup_is_coming_witness: "0 < (0 :: nat) \<or> 0 < (1 :: nat) \<or> (Elsewhere :: nat loop_at) = Woken"
  using wakeup_is_coming [OF wake_example_waiting] by simp

text \<open>The race: \<^verbatim>\<open>__onevent\<close> empties the queue before it reads the eventfd. A thread that queues
  and signals between the two loses its signal to the read, and its callback stays in a queue nobody is
  told of. From there only another notification gets the loop going.\<close>

definition stranded :: "nat wake" where
  "stranded = \<lparr>w_trigger = [7], w_count = 0, w_writing = 0, w_loop = Elsewhere, w_pushed = [5, 7],
     w_gone = [(5, True)], w_raced = True\<rparr>"

lemma stranded_reachable: "wake_reach stranded"
proof -
  let ?a = "wake_initial :: nat wake"
  let ?b = "?a\<lparr>w_trigger := [5], w_writing := 1, w_pushed := [5]\<rparr>"
  let ?c = "?b\<lparr>w_writing := 0, w_count := 1\<rparr>"
  let ?d = "?c\<lparr>w_loop := Woken\<rparr>"
  let ?e = "?d\<lparr>w_loop := Taken [5], w_trigger := []\<rparr>"
  let ?f = "?e\<lparr>w_trigger := [7], w_writing := 1, w_pushed := [5, 7]\<rparr>"
  let ?g = "?f\<lparr>w_writing := 0, w_count := 2\<rparr>"
  let ?h = "?g\<lparr>w_loop := Calling [5], w_count := 0, w_raced := True\<rparr>"
  let ?i = "?h\<lparr>w_loop := Calling [], w_gone := [(5, True)]\<rparr>"
  have "wake_step ?a ?b" using wake_step.push [of ?a 5] by (simp add: wake_initial_def)
  moreover have "wake_step ?b ?c" using wake_step.signal [of ?b] by (simp add: wake_initial_def)
  moreover have "wake_step ?c ?d" using wake_step.report [of ?c] by (simp add: wake_initial_def)
  moreover have "wake_step ?d ?e" using wake_step.swap [of ?d] by (simp add: wake_initial_def)
  moreover have "wake_step ?e ?f" using wake_step.push [of ?e 7] by (simp add: wake_initial_def)
  moreover have "wake_step ?f ?g" using wake_step.signal [of ?f] by (simp add: wake_initial_def numeral_2_eq_2)
  moreover have "wake_step ?g ?h" using wake_step.drain [of ?g "[5]"] by (simp add: wake_initial_def)
  moreover have "wake_step ?h ?i" using wake_step.call [of ?h 5 "[]"] by (simp add: wake_initial_def)
  moreover have "wake_step ?i stranded"
    using wake_step.finish [of ?i] by (simp add: wake_initial_def stranded_def)
  ultimately show ?thesis by (meson wake_reach.intros)
qed

text \<open>The steps a state has: a notification can always be queued, the rest depends.\<close>

inductive_cases wake_stepE: "wake_step s t"

lemma lost_wakeup:
  "wake_reach stranded \<and> w_trigger stranded \<noteq> [] \<and> w_loop stranded = Elsewhere \<and>
   (\<forall>t. wake_step stranded t \<longrightarrow> w_pushed t \<noteq> w_pushed stranded)"
  using stranded_reachable by (auto simp: stranded_def elim!: wake_stepE)


subsection \<open>The code takes these steps\<close>

text \<open>What an eventfd holds after a history: the writes since the last read.\<close>

definition eventfd_step :: "int \<Rightarrow> syscall \<times> answer \<Rightarrow> nat \<Rightarrow> nat" where
  "eventfd_step fd = (\<lambda>(c, a) n.
     if c = Eventfd_write fd \<and> retval a \<noteq> -1 then n + 1 else if c = Eventfd_read fd then 0 else n)"

definition eventfd_count :: "int \<Rightarrow> trace \<Rightarrow> nat" where
  "eventfd_count fd tr = fold (eventfd_step fd) tr 0"

text \<open>A state of the loop and a state of the steps agree, where no thread is between queueing and
  writing.\<close>

definition linked :: "'u net \<Rightarrow> 'u wake \<Rightarrow> bool" where
  "linked s w \<longleftrightarrow> w_trigger w = m_trigger s \<and> w_count w = eventfd_count (m_eventfd s) (log s) \<and> w_writing w = 0"

definition writable_eventfd :: "'u env \<Rightarrow> bool" where
  "writable_eventfd E \<longleftrightarrow> (\<forall>tr fd. retval (kernel E tr (Eventfd_write fd)) \<noteq> -1)"

text \<open>Callbacks may notify their own loop, and leave its queue, eventfd and mutex alone otherwise.\<close>

definition only_notifies :: "'u net \<Rightarrow> 'u net \<Rightarrow> bool" where
  "only_notifies s t \<longleftrightarrow> (\<exists>cs. m_trigger t = m_trigger s @ cs \<and> m_eventfd t = m_eventfd s \<and>
     eventfd_count (m_eventfd s) (log t) = eventfd_count (m_eventfd s) (log s) + length cs \<and> m_locked t = m_locked s)"

definition tame :: "'u env \<Rightarrow> bool" where
  "tame E \<longleftrightarrow> (\<forall>u fd s. \<not> m_locked s \<longrightarrow>
     (case usr E u fd s of Done a t \<Rightarrow> only_notifies s t | Threw t \<Rightarrow> only_notifies s t | Stuck e \<Rightarrow> True))"

lemma eventfd_count_snoc [simp]:
  "eventfd_count fd (tr @ [x]) = eventfd_step fd x (eventfd_count fd tr)"
  by (simp add: eventfd_count_def)

text \<open>Any number of notifications, whatever the loop is at.\<close>

lemma pushes_run:
  "wake_step\<^sup>*\<^sup>* w (w\<lparr>w_trigger := w_trigger w @ cs, w_count := w_count w + length cs, w_pushed := w_pushed w @ cs\<rparr>)"
proof (induction cs rule: rev_induct)
  case Nil
  then show ?case by simp
next
  case (snoc c cs)
  let ?w = "w\<lparr>w_trigger := w_trigger w @ cs, w_count := w_count w + length cs, w_pushed := w_pushed w @ cs\<rparr>"
  let ?v = "?w\<lparr>w_trigger := w_trigger ?w @ [c], w_writing := w_writing ?w + 1, w_pushed := w_pushed ?w @ [c]\<rparr>"
  let ?t = "w\<lparr>w_trigger := w_trigger w @ cs @ [c], w_count := w_count w + length (cs @ [c]),
    w_pushed := w_pushed w @ cs @ [c]\<rparr>"
  have "wake_step ?w ?v" by (rule wake_step.push)
  moreover have "wake_step ?v (?v\<lparr>w_writing := w_writing ?v - 1, w_count := w_count ?v + 1\<rparr>)"
    by (rule wake_step.signal) simp
  moreover have "?v\<lparr>w_writing := w_writing ?v - 1, w_count := w_count ?v + 1\<rparr> = ?t" by simp
  ultimately have "wake_step ?w ?v" "wake_step ?v ?t" by (simp_all only:)
  with snoc.IH have "wake_step\<^sup>*\<^sup>* w ?t" by (rule rtranclp.rtrancl_into_rtrancl [OF rtranclp.rtrancl_into_rtrancl])
  then show ?case by (simp only: append_assoc)
qed

lemma only_notifies_steps:
  assumes "only_notifies s t" "linked s w"
  obtains w' where "wake_step\<^sup>*\<^sup>* w w'" "linked t w'" "w_loop w' = w_loop w" "w_gone w' = w_gone w"
proof -
  obtain cs where "m_trigger t = m_trigger s @ cs" "m_eventfd t = m_eventfd s"
      "eventfd_count (m_eventfd s) (log t) = eventfd_count (m_eventfd s) (log s) + length cs"
    using assms(1) by (auto simp: only_notifies_def)
  then show thesis
    using that [OF pushes_run [of w cs]] assms(2) by (simp add: linked_def)
qed

lemma notify_only_notifies:
  assumes "writable_eventfd E" "\<not> m_locked s"
  shows "\<exists>t. notify E u s = Done () t \<and> only_notifies s t \<and> m_trigger t = m_trigger s @ [u]"
proof -
  let ?t = "logged E (Eventfd_write (m_eventfd s)) (s\<lparr>m_trigger := m_trigger s @ [u], m_locked := False\<rparr>)"
  have "notify E u s = Done () ?t"
    using assms(2) by (simp add: notify_def with_lock_def sys_logged bnd_def)
  moreover have "only_notifies s ?t"
    using assms unfolding only_notifies_def
    by (intro exI [of _ "[u]"]) (simp add: eventfd_step_def writable_eventfd_def)
  ultimately show ?thesis by auto
qed

text \<open>What the loop's handler called, and what it dropped when one threw.\<close>

lemma calls_run:
  assumes "tame E" "\<not> m_locked s" "linked s w" "w_loop w = Calling lst"
    and "try_catch (each (\<lambda>u. usr E u fd) lst) s = Done () t"
  shows "\<exists>w'. wake_step\<^sup>*\<^sup>* w w' \<and> linked t w' \<and> w_loop w' = Elsewhere \<and> map fst (w_gone w') = map fst (w_gone w) @ lst"
  using assms(2-)
proof (induction lst arbitrary: s w)
  case Nil
  then have "t = s" by (simp add: try_catch_def)
  then show ?case using Nil.prems wake_step.finish [of w]
    by (intro exI [of _ "w\<lparr>w_loop := Elsewhere\<rparr>"]) (auto simp: linked_def)
next
  case (Cons c lst)
  let ?w = "w\<lparr>w_loop := Calling lst, w_gone := w_gone w @ [(c, True)]\<rparr>"
  have t: "case usr E c fd s of Done a t \<Rightarrow> only_notifies s t | Threw t \<Rightarrow> only_notifies s t | Stuck e \<Rightarrow> True"
    using assms(1) Cons.prems(1) by (simp add: tame_def)
  show ?case
  proof (cases "usr E c fd s")
    case (Done a s')
    have "only_notifies s s'" using t Done by simp
    moreover have "linked s ?w" using Cons.prems(2) by (simp add: linked_def)
    ultimately obtain w1 where w1: "wake_step\<^sup>*\<^sup>* ?w w1" "linked s' w1" "w_loop w1 = Calling lst"
        "w_gone w1 = w_gone w @ [(c, True)]"
      by (elim only_notifies_steps) auto
    have "\<not> m_locked s'" using t Done Cons.prems(1) by (auto simp: only_notifies_def)
    then obtain w' where "wake_step\<^sup>*\<^sup>* w1 w'" "linked t w'" "w_loop w' = Elsewhere"
        "map fst (w_gone w') = map fst (w_gone w1) @ lst"
      using Cons.IH [OF _ w1(2,3)] Cons.prems(4) Done by (auto simp: try_catch_def)
    moreover have "wake_step w ?w" using Cons.prems(3) by (rule wake_step.call)
    ultimately show ?thesis using w1(1,4)
      by (metis (no_types, lifting) append.assoc append_Cons append_Nil converse_rtranclp_into_rtranclp
          fst_conv list.simps(8,9) map_append rtranclp_trans)
  next
    case (Threw s')
    let ?v = "w\<lparr>w_loop := Elsewhere, w_gone := w_gone w @ (c, True) # map (\<lambda>c. (c, False)) lst\<rparr>"
    have s': "s' = t" using Threw Cons.prems(4) by (simp add: try_catch_def)
    have "only_notifies s s'" using t Threw by simp
    moreover have "linked s ?v" using Cons.prems(2) by (simp add: linked_def)
    ultimately obtain w1 where "wake_step\<^sup>*\<^sup>* ?v w1" "linked t w1" "w_loop w1 = Elsewhere" "w_gone w1 = w_gone ?v"
      unfolding s' by (elim only_notifies_steps) auto
    moreover have "wake_step w ?v" using Cons.prems(3) by (rule wake_step.throws)
    ultimately show ?thesis
      by (intro exI [of _ w1]) (auto simp: comp_def intro: converse_rtranclp_into_rtranclp)
  next
    case (Stuck e)
    then show ?thesis using Cons.prems(4) by (simp add: try_catch_def)
  qed
qed



end
