(* ===== verification/NetTypes.thy ===== *)
theory NetTypes
  imports AsyncLoop
begin

text \<open>
  The type invariant of \<^verbatim>\<open>asyncnet\<close>: its tables are vectors whose contents fit their capacity, and every word
  it has registered with epoll carries a descriptor and a state of the enumeration, so that what
  \<^verbatim>\<open>epoll_wait\<close> gives back is routed by the switch of \<^verbatim>\<open>__wait\<close>. Every operation and every pass of the
  loop keeps it; a callback does when it is made of such operations.
\<close>

subsection \<open>The invariant\<close>

definition vec_ok :: "'f vec \<Rightarrow> bool" where
  "vec_ok v \<longleftrightarrow> length (cells v) \<le> capacity v"

fun call_ok :: "syscall \<Rightarrow> bool" where
  "call_ok (Epoll_add fd d ev) \<longleftrightarrow> (\<exists>st. d = i_merge fd (state_code st))"
| "call_ok (Epoll_mod fd d ev) \<longleftrightarrow> (\<exists>st. d = i_merge fd (state_code st))"
| "call_ok _ \<longleftrightarrow> True"

definition net_ok :: "'u net \<Rightarrow> bool" where
  "net_ok s \<longleftrightarrow> vec_ok (m_client s) \<and> vec_ok (m_close s) \<and> vec_ok (m_read s) \<and> vec_ok (m_write s) \<and>
     (\<forall>(c, a) \<in> set (log s). call_ok c)"

lemma vec_ok_ops [simp]:
  "vec_ok v \<Longrightarrow> vec_ok (vec_grow fd v)" "vec_ok v \<Longrightarrow> vec_ok (vec_set fd x v)" "vec_ok v \<Longrightarrow> vec_ok (vec_clear fd v)"
  by (auto simp: vec_ok_def vec_grow_def vec_resize_def vec_set_def vec_clear_def)

text \<open>Fields the invariant does not speak of.\<close>

lemma net_ok_other [simp]:
  "net_ok (s\<lparr>m_wbuffer := w\<rparr>) = net_ok s" "net_ok (s\<lparr>m_locked := b\<rparr>) = net_ok s"
  "net_ok (s\<lparr>m_trigger := l\<rparr>) = net_ok s" "net_ok (s\<lparr>flag_close := b\<rparr>) = net_ok s"
  "net_ok (s\<lparr>m_running := r\<rparr>) = net_ok s" "net_ok (s\<lparr>m_epfd := e\<rparr>) = net_ok s"
  "net_ok (s\<lparr>m_eventfd := e\<rparr>) = net_ok s"
  by (simp_all add: net_ok_def)

named_theorems typed

lemmas [typed] = preserves_bnd preserves_basic preserves_if preserves_try preserves_each

lemma sys_typed [typed]:
  "call_ok c \<Longrightarrow> preserves net_ok (sys_answer E c)" "call_ok c \<Longrightarrow> preserves net_ok (sys E c)"
  "call_ok c \<Longrightarrow> preserves net_ok (sys_do E c)"
  by (simp_all add: preserves_def sys_logged net_ok_def)

lemma modify_typed [typed]:
  "preserves net_ok (modify (\<lambda>s. s\<lparr>flag_close := b\<rparr>))" "preserves net_ok (modify (\<lambda>s. s\<lparr>m_epfd := e\<rparr>))"
  "preserves net_ok (modify (\<lambda>s. s\<lparr>m_eventfd := e\<rparr>))" "preserves net_ok (modify (\<lambda>s. s\<lparr>m_trigger := m_trigger s @ l\<rparr>))"
  "preserves net_ok (modify (\<lambda>s. s\<lparr>m_running := r\<rparr>))"
  by (simp_all add: preserves_def)

lemma event_typed [typed]:
  "preserves net_ok (set_noblock E fd)" "preserves net_ok (set_reuseaddr E fd)" "preserves net_ok (getsockerr E fd)"
  "preserves net_ok (add_event E fd st ev)" "preserves net_ok (mod_event E fd st ev)" "preserves net_ok (del_event E fd)"
  unfolding set_noblock_def set_reuseaddr_def getsockerr_def add_event_def mod_event_def del_event_def
  by (intro typed; auto)+

lemma tables_typed [typed]:
  "preserves net_ok (i_clear m_read_update fd)" "preserves net_ok (i_clear m_close_update fd)"
  "preserves net_ok (i_clear m_client_update fd)" "preserves net_ok (i_clear m_write_update fd)"
  "preserves net_ok (modify (m_read_update (vec_grow fd)))" "preserves net_ok (modify (m_close_update (vec_grow fd)))"
  "preserves net_ok (modify (m_client_update (vec_grow fd)))" "preserves net_ok (modify (m_write_update (vec_grow fd)))"
  "preserves net_ok (modify (m_read_update (vec_set fd x)))" "preserves net_ok (modify (m_close_update (vec_set fd x)))"
  "preserves net_ok (modify (m_client_update (vec_set fd x)))" "preserves net_ok (modify (m_write_update (vec_set fd y)))"
  by (simp_all add: preserves_def i_clear_def net_ok_def)

lemma emplace_typed [typed]:
  "preserves net_ok (i_emplace_back E m_read m_read_update fd x)"
  "preserves net_ok (i_emplace_back E m_close m_close_update fd x)"
  "preserves net_ok (i_emplace_back E m_client m_client_update fd x)"
  "preserves net_ok (i_emplace_back E m_write m_write_update fd y)"
  unfolding i_emplace_back_def by (intro typed)+

lemma push_back_typed [typed]: "preserves net_ok (i_push_back_close E fd from)"
  by (auto simp: preserves_def i_push_back_close_def assertion_def net_ok_def bnd_def)

lemma wbuffer_typed [typed]: "preserves net_ok (get_wbuffer E fd)" "preserves net_ok (set_wbuffer fd l)"
proof -
  have "preserves net_ok (modify (\<lambda>s. if length (m_wbuffer s) \<le> nat fd
      then s\<lparr>m_wbuffer := m_wbuffer s @ replicate (nat fd + 1 - length (m_wbuffer s)) []\<rparr> else s))"
    by (simp add: preserves_def)
  then show "preserves net_ok (get_wbuffer E fd)" unfolding get_wbuffer_def by (intro typed)
  show "preserves net_ok (set_wbuffer fd l)" by (simp add: preserves_def set_wbuffer_def)
qed

lemma with_lock_typed [typed]: fixes m :: "('u net, 'b) prog" shows "preserves net_ok m \<Longrightarrow> preserves net_ok (with_lock m)"
  unfolding preserves_def with_lock_def
proof (intro allI impI)
  fix s :: "'u net"
  assume m: "\<forall>s. net_ok s \<longrightarrow> (case m s of Done a s' \<Rightarrow> net_ok s' | Threw s' \<Rightarrow> net_ok s' | Stuck e \<Rightarrow> True)" and s: "net_ok s"
  show "case (if m_locked s then Stuck Ub else case m (s\<lparr>m_locked := True\<rparr>) of
      Done a s' \<Rightarrow> Done a (s'\<lparr>m_locked := False\<rparr>) | Threw s' \<Rightarrow> Threw (s'\<lparr>m_locked := False\<rparr>) | Stuck e \<Rightarrow> Stuck e) of
      Done a s' \<Rightarrow> net_ok s' | Threw s' \<Rightarrow> net_ok s' | Stuck e \<Rightarrow> True"
    using m [rule_format, of "s\<lparr>m_locked := True\<rparr>"] s by (cases "m (s\<lparr>m_locked := True\<rparr>)") auto
qed

subsection \<open>The operations\<close>

definition typed_callbacks :: "'u env \<Rightarrow> bool" where
  "typed_callbacks E \<longleftrightarrow> (\<forall>u fd. preserves net_ok (usr E u fd))"

lemma usr_typed [typed]: "typed_callbacks E \<Longrightarrow> preserves net_ok (usr E u fd)"
  by (simp add: typed_callbacks_def)

lemma call_typed [typed]:
  "(\<And>f. preserves net_ok (run f arg)) \<Longrightarrow> preserves net_ok (i_call E get run fd arg)"
  unfolding i_call_def Let_def by (intro typed) (auto intro: typed split: option.splits)

lemma close_typed [typed]:
  "typed_callbacks E \<Longrightarrow> preserves net_ok (i_clientclose E fd)" "preserves net_ok (i_clientclosed_already E fd)"
  unfolding i_clientclose_def i_clientclosed_already_def by (intro typed; simp)+

lemma send_loop_typed [typed]: "typed_callbacks E \<Longrightarrow> preserves net_ok (send_loop E fd lst)"
  by (induction lst) (auto intro!: typed)

lemma send_typed [typed]:
  assumes "typed_callbacks E"
  shows "preserves net_ok (i_send E fd)" "preserves net_ok (net_send E fd msg)" "preserves net_ok (run_wcb E w fd)"
proof -
  show s: "preserves net_ok (i_send E fd)" unfolding i_send_def by (intro typed assms)
  show "preserves net_ok (net_send E fd msg)" unfolding net_send_def by (intro typed assms) simp_all
  show "preserves net_ok (run_wcb E w fd)" using s assms by (cases w) (simp_all add: usr_typed)
qed

lemma register_typed [typed]:
  "preserves net_ok (set_client E fd rd wr)" "preserves net_ok (set_clientclose E fd cl)"
  "preserves net_ok (i_fd_add_event E fd st cli cl)" "preserves net_ok (i_start E fd cli cl)"
  unfolding set_client_def set_clientclose_def i_fd_add_event_def i_start_def by (intro typed; simp)+

lemma open_typed [typed]:
  assumes "typed_callbacks E"
  shows "preserves net_ok (net_connect E ip port cli cl)" "preserves net_ok (i_bind E ip port)"
    "preserves net_ok (net_start E ip port cli cl)"
proof -
  have c: "preserves net_ok (case cl of Some u \<Rightarrow> usr E u fd | None \<Rightarrow> skip)" for fd
    using assms by (cases cl) (simp_all add: usr_typed preserves_basic)
  show "preserves net_ok (net_connect E ip port cli cl)" unfolding net_connect_def by (intro typed c) simp_all
  show b: "preserves net_ok (i_bind E ip port)" unfolding i_bind_def by (intro typed) simp_all
  show "preserves net_ok (net_start E ip port cli cl)" unfolding net_start_def by (intro typed b)
qed

lemma timer_typed [typed]:
  "preserves net_ok (i_settimer E fd it rt cb)" "preserves net_ok (set_timer E it rt cb)"
  "preserves net_ok (stop_timer E fd)" "preserves net_ok (remaining_timer E fd)"
proof -
  show s: "preserves net_ok (i_settimer E fd it rt cb)" for fd unfolding i_settimer_def by (intro typed) simp_all
  show "preserves net_ok (set_timer E it rt cb)" unfolding set_timer_def by (intro typed s) simp_all
  show "preserves net_ok (stop_timer E fd)" "preserves net_ok (remaining_timer E fd)"
    unfolding stop_timer_def remaining_timer_def by (intro typed; simp)+
qed

lemma notify_typed [typed]: "preserves net_ok (notify E u)"
  unfolding notify_def by (intro typed) simp_all

lemma handler_typed [typed]:
  assumes "typed_callbacks E"
  shows "preserves net_ok (i_ontimer E fd ev st)" "preserves net_ok (i_onconnect E fd ev)"
    "preserves net_ok (i_onaccept E fd ev)" "preserves net_ok (i_onclient E fd ev)" "preserves net_ok (i_onevent E fd)"
proof -
  show "preserves net_ok (i_ontimer E fd ev st)" unfolding i_ontimer_def by (intro typed assms) simp_all
  show "preserves net_ok (i_onconnect E fd ev)" unfolding i_onconnect_def Let_def by (intro typed assms) simp_all
  show "preserves net_ok (i_onaccept E fd ev)" unfolding i_onaccept_def by (intro typed assms) simp_all
  show "preserves net_ok (i_onclient E fd ev)" unfolding i_onclient_def by (intro typed assms)
  have "preserves net_ok (\<lambda>s. Done (m_trigger s) (s\<lparr>m_trigger := []\<rparr>))" by (simp add: preserves_def)
  then show "preserves net_ok (i_onevent E fd)" unfolding i_onevent_def by (intro typed assms) simp_all
qed

lemma pass_typed [typed]:
  assumes "typed_callbacks E"
  shows "preserves net_ok (handle E x)" "preserves net_ok (handle_event E x)" "preserves net_ok (i_wait E evs)"
    "preserves net_ok (wait E batches)"
proof -
  show h: "preserves net_ok (handle E x)" for x
    unfolding handle_def Let_def by (cases x) (auto intro!: typed assms)
  show e: "preserves net_ok (handle_event E x)" for x unfolding handle_event_def by (intro typed h)
  show w: "preserves net_ok (i_wait E evs)" for evs unfolding i_wait_def by (intro typed e)
  show "preserves net_ok (wait E batches)" proof (induction batches)
    case Nil
    show ?case unfolding wait.simps by (rule preserves_basic)
  next
    case (Cons b bs)
    show ?case unfolding wait.simps by (intro typed w Cons.IH)
  qed
qed

lemma new_typed [typed]: "preserves net_ok (net_new E n)" "preserves net_ok (net_destroy E)"
  unfolding net_new_def net_destroy_def by (intro typed; simp)+

lemma net_ok_initial: "net_ok (net_initial [])"
  by (simp add: net_ok_def net_initial_def vec_ok_def vec_empty_def)

subsection \<open>Property\<close>

text \<open>C12: Types of the event loop: a loop that is constructed, set up by any sequence of operations and run
  over any batches of events, with callbacks that keep the types (throwing or not), has tables that fit their
  capacity, and whatever it registered with epoll and the kernel can report, \<^verbatim>\<open>__wait\<close> decodes to the
  descriptor registered and to a state of the enumeration: the switch has a case for it.\<close>

theorem loop_keeps_types:
  assumes "typed_callbacks E" "preserves net_ok setup"
    and "bnd (net_new E n) (\<lambda>_. bnd setup (\<lambda>_. wait E batches)) (net_initial []) = Done r s"
  shows "vec_ok (m_client s) \<and> vec_ok (m_close s) \<and> vec_ok (m_read s) \<and> vec_ok (m_write s) \<and>
    (\<forall>fd d ev a. 0 \<le> fd \<and> fd < 2 ^ 31 \<and>
       ((Epoll_add fd d ev, a) \<in> set (log s) \<or> (Epoll_mod fd d ev, a) \<in> set (log s)) \<longrightarrow>
       event_fd d = fd \<and> event_state d \<in> range state_code)"
proof -
  have "preserves net_ok (bnd (net_new E n) (\<lambda>_. bnd setup (\<lambda>_. wait E batches)))"
    by (intro typed assms)
  then have s: "net_ok s" using net_ok_initial assms(3) by (rule preserves_Done)
  have routed: "event_fd d = fd \<and> event_state d \<in> range state_code"
    if fd: "0 \<le> fd" "fd < 2 ^ 31"
      and c: "(Epoll_add fd d ev, a) \<in> set (log s) \<or> (Epoll_mod fd d ev, a) \<in> set (log s)" for fd d ev a
  proof -
    obtain st where "d = i_merge fd (state_code st)" using s c by (fastforce simp: net_ok_def)
    then show ?thesis using merge_roundtrip [OF fd] state_code_range [of st] by auto
  qed
  have "vec_ok (m_client s) \<and> vec_ok (m_close s) \<and> vec_ok (m_read s) \<and> vec_ok (m_write s)"
    using s by (simp add: net_ok_def)
  then show ?thesis using routed by blast
qed

theorem loop_keeps_types_witness:
  "\<exists>r s. bnd (net_new (test_env False (\<lambda>_. False) (\<lambda>n. n)) 1) (\<lambda>_.
       bnd (set_timer (test_env False (\<lambda>_. False) (\<lambda>n. n)) 5 0 (Some ())) (\<lambda>_.
         wait (test_env False (\<lambda>_. False) (\<lambda>n. n)) [[], []])) (net_initial []) = Done r s \<and>
    capacity (m_read s) = 1 \<and>
    vec_ok (m_client s) \<and> vec_ok (m_close s) \<and> vec_ok (m_read s) \<and> vec_ok (m_write s) \<and>
    (\<forall>fd d ev a. 0 \<le> fd \<and> fd < 2 ^ 31 \<and>
       ((Epoll_add fd d ev, a) \<in> set (log s) \<or> (Epoll_mod fd d ev, a) \<in> set (log s)) \<longrightarrow>
       event_fd d = fd \<and> event_state d \<in> range state_code)"
proof -
  let ?E = "test_env False (\<lambda>_. False) (\<lambda>n. n)"
  have "\<exists>r s. bnd (net_new ?E 1) (\<lambda>_. bnd (set_timer ?E 5 0 (Some ())) (\<lambda>_. wait ?E [[], []])) (net_initial []) = Done r s \<and>
      capacity (m_read s) = 1"
    by (simp add: net_new_def set_timer_def i_settimer_def sys_logged test_kernel_def INVALID_def set_noblock_def
        add_event_def MAX_THREAD_COUNT_def i_emplace_back_def vec_grow_def vec_resize_def vec_set_def vec_empty_def
        slot_def i_wait_def net_initial_def) blast
  then obtain r s where r: "bnd (net_new ?E 1) (\<lambda>_. bnd (set_timer ?E 5 0 (Some ())) (\<lambda>_. wait ?E [[], []])) (net_initial []) =
      Done r s" "capacity (m_read s) = 1" by blast
  have "typed_callbacks ?E" by (simp add: typed_callbacks_def preserves_basic)
  moreover have "preserves net_ok (set_timer ?E 5 0 (Some ()))" by (rule timer_typed)
  ultimately show ?thesis using loop_keeps_types [OF _ _ r(1)] r by blast
qed

end
