(* ===== verification/SessionThreads.thy ===== *)
theory SessionThreads
  imports Session
begin

text \<open>
  One session between threads: any thread sends through it, the owner of its connection runs the loop.
  The object's mutex makes each operation of the session a step; a step of the loop takes the queue
  of notifications or runs the next of those it took. The property is that no message is left in the
  session's list without a notification under way for it, when the socket refuses only for now and no
  callback in the loop throws; what happens when one does is \<open>dropped_notification_stalls\<close>.
\<close>

subsection \<open>States and steps\<close>

text \<open>The session with its loop, and what \<^verbatim>\<open>__onevent\<close> has taken and not yet called.\<close>

record 'u shared =
  sh_session :: "'u session"
  sh_taken :: "'u list"

definition on_loop :: "('u net \<Rightarrow> 'u net) \<Rightarrow> 'u session \<Rightarrow> 'u session" where
  "on_loop g s = s\<lparr>net := g (net s)\<rparr>"

inductive sess_step :: "'u env \<Rightarrow> 'u \<Rightarrow> int \<Rightarrow> 'u shared \<Rightarrow> 'u shared \<Rightarrow> bool"
  for E tok owner where
  send: "session_send E tok cur msg (sh_session s) = Done () t \<Longrightarrow>
    sess_step E tok owner s (s\<lparr>sh_session := t\<rparr>)"
| client: "0 \<le> fd \<Longrightarrow> set_session_client E tok cur \<lparr>c_fd = fd, c_thdid = owner\<rparr> (sh_session s) = Done () t \<Longrightarrow>
    sess_step E tok owner s (s\<lparr>sh_session := t\<rparr>)"
| stop: "session_stop (sh_session s) = Done () t \<Longrightarrow> sess_step E tok owner s (s\<lparr>sh_session := t\<rparr>)"
| writable: "0 \<le> fd \<Longrightarrow> i_send E fd (net (sh_session s)) = Done () n \<Longrightarrow>
    sess_step E tok owner s (s\<lparr>sh_session := (sh_session s)\<lparr>net := n\<rparr>\<rparr>)"
| take: "sh_taken s = [] \<Longrightarrow>
    sess_step E tok owner s \<lparr>sh_session = on_loop (\<lambda>n. n\<lparr>m_trigger := []\<rparr>) (sh_session s),
      sh_taken = m_trigger (net (sh_session s))\<rparr>"
| run: "sh_taken s = tok # us \<Longrightarrow> on_notified E tok owner (sh_session s) = Done () t \<Longrightarrow>
    sess_step E tok owner s \<lparr>sh_session = t, sh_taken = us\<rparr>"
| other: "sh_taken s = u # us \<Longrightarrow> u \<noteq> tok \<Longrightarrow> m_locked n = m_locked (net (sh_session s)) \<Longrightarrow>
    m_trigger n = m_trigger (net (sh_session s)) @ cs \<Longrightarrow>
    sess_step E tok owner s \<lparr>sh_session = (sh_session s)\<lparr>net := n\<rparr>, sh_taken = us\<rparr>"

definition shared_fresh :: "'u net \<Rightarrow> 'u shared" where
  "shared_fresh n = \<lparr>sh_session = \<lparr>s_client = None, s_list = [], s_notified = False, net = n\<rparr>, sh_taken = []\<rparr>"

inductive sess_reach :: "'u env \<Rightarrow> 'u \<Rightarrow> int \<Rightarrow> 'u shared \<Rightarrow> bool" for E tok owner where
  fresh: "\<not> m_locked n \<Longrightarrow> sess_reach E tok owner (shared_fresh n)"
| more: "sess_reach E tok owner s \<Longrightarrow> sess_step E tok owner s t \<Longrightarrow> sess_reach E tok owner t"

subsection \<open>A loop whose sockets refuse for now only\<close>

definition patient :: "'u env \<Rightarrow> bool" where
  "patient E \<longleftrightarrow> ndebug E \<and>
     (\<forall>tr fd bs. let a = kernel E tr (Send fd bs) in 0 \<le> retval a \<or> retval a = -1 \<and> again (err a))"

lemma patientD:
  "patient E \<Longrightarrow> ndebug E"
  "patient E \<Longrightarrow> retval (kernel E tr (Send fd bs)) = INVALID \<Longrightarrow> again (err (kernel E tr (Send fd bs)))"
  unfolding patient_def Let_def INVALID_def by (simp, metis neg_0_le_iff_le not_one_le_zero)

text \<open>Sending leaves the queue of notifications and the mutex alone.\<close>

definition queue_of :: "'u net \<Rightarrow> 'u list \<times> bool" where
  "queue_of s = (m_trigger s, m_locked s)"

lemma queue_of_simps [simp]:
  "queue_of (wgrow fd s) = queue_of s" "queue_of (logged E c s) = queue_of s"
  "queue_of (s\<lparr>m_wbuffer := w\<rparr>) = queue_of s"
  by (simp_all add: queue_of_def wgrow_def)

lemma mod_event_quiet:
  "0 \<le> fd \<Longrightarrow> \<exists>d a s'. mod_event E fd st ev s = Done () s' \<and> queue_of s' = queue_of s \<and>
     log s' = log s @ [(Epoll_mod fd d ev, a)]"
  by (simp add: mod_event_def INVALID_def sys_logged)

lemma send_loop_quiet:
  assumes "patient E" "0 \<le> fd"
  shows "\<exists>s'. send_loop E fd lst s = Done () s' \<and> queue_of s' = queue_of s"
proof (induction lst arbitrary: s)
  case Nil
  then show ?case using mod_event_quiet [OF assms(2), of E e_state_client ev_in s] by auto
next
  case (Cons m rest)
  let ?s = "logged E (Send fd m) s"
  let ?r = "retval (kernel E (log s) (Send fd m))"
  show ?case
  proof (cases "?r = INVALID")
    case True
    then have "again (errno ?s)" using patientD(2) [OF assms(1) True] by (simp add: logged_def INVALID_def)
    then show ?thesis using True mod_event_quiet [OF assms(2), of E e_state_client ev_in_out ?s]
      by (auto simp: sys_logged)
  next
    case False
    then show ?thesis using Cons.IH [of "?s\<lparr>m_wbuffer := (m_wbuffer ?s)[nat fd := rest]\<rparr>"]
      by (auto simp: sys_logged set_wbuffer_def)
  qed
qed

lemma i_send_quiet:
  assumes "patient E" "0 \<le> fd" "i_send E fd s = Done () s'"
  shows "queue_of s' = queue_of s"
proof -
  obtain t where "send_loop E fd (pending fd s) (wgrow fd s) = Done () t" "queue_of t = queue_of (wgrow fd s)"
    using send_loop_quiet [OF assms(1,2)] by blast
  then show ?thesis
    using assms patientD(1) [OF assms(1)] get_wbuffer_run [OF assms(2), of E s] by (simp add: i_send_def)
qed

lemma net_send_quiet:
  assumes "patient E" "0 \<le> fd"
  shows "\<exists>r s'. net_send E fd msg s = Done r s' \<and> queue_of s' = queue_of s \<and> \<not> (r = INVALID \<and> just_closed fd s')"
proof (cases "pending fd s = []")
  case False
  then show ?thesis using get_wbuffer_run [OF assms(2), of E s]
    by (simp add: net_send_def set_wbuffer_def INVALID_def)
next
  case True
  let ?s = "logged E (Send fd msg) (wgrow fd s)"
  let ?r = "retval (kernel E (log s) (Send fd msg))"
  note g = get_wbuffer_run [OF assms(2), of E s]
  show ?thesis
  proof (cases "?r = INVALID")
    case False
    then show ?thesis using True g patientD(1) [OF assms(1)] by (simp add: net_send_def sys_logged)
  next
    case inv: True
    have "again (errno ?s)" using patientD(2) [OF assms(1) inv] inv by (simp add: logged_def INVALID_def)
    moreover obtain d a t where "mod_event E fd e_state_client ev_in_out ?s = Done () t"
        "queue_of t = queue_of ?s" "log t = log ?s @ [(Epoll_mod fd d ev_in_out, a)]"
      using mod_event_quiet [OF assms(2)] by blast
    ultimately show ?thesis using True inv g
      by (simp add: net_send_def sys_logged set_wbuffer_def just_closed_def)
  qed
qed

subsection \<open>The invariant, operation by operation\<close>

definition client_of :: "int \<Rightarrow> 'u session \<Rightarrow> bool" where
  "client_of owner s \<longleftrightarrow> (case s_client s of None \<Rightarrow> True | Some c \<Rightarrow> c_thdid c = owner \<and> 0 \<le> c_fd c)"

text \<open>\<open>X\<close>: what the loop has taken. A notification is on its way when the session believes so, and
  the session believes so when there is something to send.\<close>

definition announced :: "int \<Rightarrow> 'u \<Rightarrow> 'u set \<Rightarrow> 'u session \<Rightarrow> bool" where
  "announced owner tok X s \<longleftrightarrow> client_of owner s \<and> \<not> m_locked (net s) \<and>
     (s_notified s \<longrightarrow> tok \<in> X \<union> set (m_trigger (net s)))"

definition looked_after :: "int \<Rightarrow> 'u \<Rightarrow> 'u set \<Rightarrow> 'u session \<Rightarrow> bool" where
  "looked_after owner tok X s \<longleftrightarrow> announced owner tok X s \<and>
     (s_client s \<noteq> None \<and> s_list s \<noteq> [] \<longrightarrow> s_notified s)"

lemmas after_defs = looked_after_def announced_def client_of_def

lemma queue_ofD: "queue_of n = queue_of n' \<Longrightarrow> m_trigger n = m_trigger n' \<and> m_locked n = m_locked n'"
  by (simp add: queue_of_def)

lemma announced_net:
  "queue_of n = queue_of (net s) \<Longrightarrow> announced owner tok X (s\<lparr>net := n\<rparr>) = announced owner tok X s"
  by (drule queue_ofD) (simp add: announced_def client_of_def)

lemma announced_list [simp]: "announced owner tok X (s\<lparr>s_list := l\<rparr>) = announced owner tok X s"
  by (simp add: announced_def client_of_def)

lemma client_cases:
  assumes "client_of owner s"
  obtains "s_client s = None" "check_valid s = Done False s"
  | fd where "s_client s = Some \<lparr>c_fd = fd, c_thdid = owner\<rparr>" "0 \<le> fd" "check_valid s = Done True s"
proof (cases "s_client s")
  case None
  then show ?thesis using that(1) by (simp add: check_valid_def)
next
  case (Some c)
  then show ?thesis using that(2) [of "c_fd c"] assms
    by (cases c) (simp add: client_of_def check_valid_def INVALID_def)
qed

lemma client_send_quiet:
  assumes "patient E" "s_client s = Some \<lparr>c_fd = fd, c_thdid = owner\<rparr>" "0 \<le> fd"
  shows "\<exists>r n. client_send E owner m s = Done r (s\<lparr>net := n\<rparr>) \<and> queue_of n = queue_of (net s)"
proof -
  obtain r n where n: "net_send E fd m (net s) = Done r n" "queue_of n = queue_of (net s)"
      "\<not> (r = INVALID \<and> just_closed fd n)"
    using net_send_quiet [OF assms(1,3)] by blast
  then have "client_send E owner m s = Done r (s\<lparr>net := n\<rparr>)"
    using assms(2) by (auto simp: client_send_def with_client_def on_net_def bnd_def)
  then show ?thesis using n(2) by blast
qed

lemma notifysend_after:
  assumes "announced owner tok X s" "s_client s \<noteq> None"
  shows "\<exists>t. notifysend E tok s = Done () t \<and> announced owner tok X t \<and> s_notified t \<and>
    s_list t = s_list s \<and> s_client t = s_client s"
proof -
  have c: "client_of owner s" "\<not> m_locked (net s)" using assms(1) by (simp_all add: announced_def)
  obtain fd where fd: "s_client s = Some \<lparr>c_fd = fd, c_thdid = owner\<rparr>" "check_valid s = Done True s"
    using client_cases [OF c(1)] assms(2) by metis
  obtain n where n: "notify E tok (net s) = Done () n" "m_trigger n = m_trigger (net s) @ [tok]" "\<not> m_locked n"
    using c(2) by (simp add: notify_def with_lock_def sys_logged bnd_def)
  show ?thesis
  proof (cases "s_notified s")
    case True
    then show ?thesis using fd assms(1) by (simp add: notifysend_def)
  next
    case False
    then show ?thesis using fd(2) n c(1)
      by (simp add: notifysend_def on_net_def announced_def client_of_def)
  qed
qed

text \<open>From its own thread the session sends all it has, from another it asks the loop to.\<close>

lemma s_send_loop_after:
  assumes "patient E" "announced owner tok X s" "s_list s = l" "s_client s \<noteq> None"
  shows "\<exists>t. s_send_loop E tok cur l s = Done () t \<and> looked_after owner tok X t \<and>
    s_client t = s_client s \<and> (cur = owner \<longrightarrow> s_list t = [])"
  using assms(2-)
proof (induction l arbitrary: s)
  case Nil
  then show ?case by (simp add: looked_after_def)
next
  case (Cons m rest)
  obtain fd where fd: "s_client s = Some \<lparr>c_fd = fd, c_thdid = owner\<rparr>" "0 \<le> fd" "check_valid s = Done True s"
    using client_cases [of owner s] Cons.prems(1,3) by (metis announced_def)
  show ?case
  proof (cases "cur = owner")
    case True
    obtain r n where n: "client_send E owner m s = Done r (s\<lparr>net := n\<rparr>)" "queue_of n = queue_of (net s)"
      using client_send_quiet [OF assms(1) fd(1,2)] by blast
    let ?s = "(s\<lparr>net := n\<rparr>)\<lparr>s_list := rest\<rparr>"
    have "announced owner tok X ?s" using announced_net [OF n(2)] Cons.prems(1) by simp
    then show ?thesis using Cons.IH [of ?s] fd n(1) True by (simp add: with_client_def)
  next
    case False
    then show ?thesis using notifysend_after [OF Cons.prems(1,3), of E] fd Cons.prems(2)
      by (auto simp: with_client_def looked_after_def)
  qed
qed

lemma on_notified_after:
  assumes "patient E" "client_of owner s" "\<not> m_locked (net s)"
  shows "\<exists>t. on_notified E tok owner s = Done () t \<and> looked_after owner tok X t \<and> s_client t = s_client s \<and>
    (s_client s \<noteq> None \<longrightarrow> s_list t = [])"
proof -
  let ?s = "s\<lparr>s_notified := False\<rparr>"
  have a: "announced owner tok X ?s" using assms(2,3) by (simp add: announced_def client_of_def)
  show ?thesis
  proof (cases "s_client s")
    case None
    then have v: "check_valid ?s = Done False ?s" by (simp add: check_valid_def)
    have "s_send_loop E tok owner l ?s = Done () ?s" for l by (cases l) (simp_all add: bnd_Done [where m = check_valid, OF v])
    then show ?thesis using None a by (simp add: on_notified_def s_send_def looked_after_def)
  next
    case (Some c)
    then show ?thesis using s_send_loop_after [OF assms(1) a refl, of owner]
      by (auto simp: on_notified_def s_send_def)
  qed
qed

lemma set_client_after:
  assumes "patient E" "announced owner tok X s" "0 \<le> fd"
  shows "\<exists>t. set_session_client E tok cur \<lparr>c_fd = fd, c_thdid = owner\<rparr> s = Done () t \<and> looked_after owner tok X t"
proof -
  let ?s = "s\<lparr>s_client := Some \<lparr>c_fd = fd, c_thdid = owner\<rparr>\<rparr>"
  have "announced owner tok X ?s" using assms(2,3) by (simp add: announced_def client_of_def)
  then show ?thesis using s_send_loop_after [OF assms(1) _ refl, of owner tok X ?s cur]
    by (auto simp: set_session_client_def s_send_def)
qed

lemma session_send_after:
  assumes "patient E" "looked_after owner tok X s"
  shows "\<exists>t. session_send E tok cur m s = Done () t \<and> looked_after owner tok X t"
proof -
  have c: "client_of owner s" "announced owner tok X s"
    using assms(2) by (simp_all add: looked_after_def announced_def)
  show ?thesis
  proof (cases rule: client_cases [OF c(1)])
    case 1
    have "session_send E tok cur m s = queue_msg m s"
      by (simp add: session_send_def bnd_Done [where m = check_valid, OF 1(2)])
    then show ?thesis using 1 c(2) by (simp add: queue_msg_def looked_after_def)
  next
    case (2 fd)
    consider (waiting) "s_list s \<noteq> []" | (own) "s_list s = []" "cur = owner" | (foreign) "s_list s = []" "cur \<noteq> owner"
      by blast
    then show ?thesis
    proof cases
      case waiting
      then show ?thesis using 2 assms(2) by (simp add: session_send_def queue_msg_def looked_after_def)
    next
      case own
      obtain r n where n: "client_send E owner m s = Done r (s\<lparr>net := n\<rparr>)" "queue_of n = queue_of (net s)"
        using client_send_quiet [OF assms(1) 2(1,2)] by blast
      then show ?thesis using own 2 announced_net [OF n(2)] c(2)
        by (simp add: session_send_def with_client_def looked_after_def)
    next
      case foreign
      let ?n = "logged E (Send fd m) (net s)"
      let ?r = "retval (kernel E (log (net s)) (Send fd m))"
      have a: "announced owner tok X (s\<lparr>net := ?n\<rparr>)" by (subst announced_net) (simp_all add: c(2))
      have r: "client_realsend E m s = Done ?r (s\<lparr>net := ?n\<rparr>)"
        using 2 by (simp add: client_realsend_def with_client_def on_net_def sys_logged)
      show ?thesis
      proof (cases "?r = INVALID")
        case False
        then show ?thesis using foreign 2 a r by (simp add: session_send_def with_client_def looked_after_def)
      next
        case True
        let ?s = "(s\<lparr>net := ?n\<rparr>)\<lparr>s_list := [m]\<rparr>"
        have "again (errno ?n)" using patientD(2) [OF assms(1) True] True by (simp add: logged_def INVALID_def)
        moreover have "announced owner tok X ?s" "s_client ?s \<noteq> None" using a 2(1) by simp_all
        then obtain t where "notifysend E tok ?s = Done () t" "announced owner tok X t" "s_notified t"
          using notifysend_after [of owner tok X ?s E] by blast
        ultimately show ?thesis using foreign 2 r True
          by (auto simp: session_send_def with_client_def queue_msg_def looked_after_def)
      qed
    qed
  qed
qed

text \<open>Every step keeps it.\<close>

lemma sess_step_after:
  assumes "sess_step E tok owner s t" "patient E" "looked_after owner tok (set (sh_taken s)) (sh_session s)"
  shows "looked_after owner tok (set (sh_taken t)) (sh_session t)"
  using assms
proof (cases rule: sess_step.cases)
  case (send cur m u)
  then show ?thesis using session_send_after [OF assms(2,3), of cur m] by simp
next
  case (client fd cur u)
  have "announced owner tok (set (sh_taken s)) (sh_session s)" using assms(3) by (simp add: looked_after_def)
  then show ?thesis using client set_client_after [OF assms(2) _ client(2), of owner tok _ _ cur] by fastforce
next
  case (stop u)
  then show ?thesis using assms(3) by (auto simp: session_stop_def after_defs)
next
  case (writable fd n)
  then have "queue_of n = queue_of (net (sh_session s))" using i_send_quiet [OF assms(2)] by blast
  then have "announced owner tok X ((sh_session s)\<lparr>net := n\<rparr>) = announced owner tok X (sh_session s)" for X
    by (rule announced_net)
  then show ?thesis using writable assms(3) by (simp add: looked_after_def)
next
  case take
  then show ?thesis using assms(3) by (auto simp: on_loop_def after_defs split: option.splits)
next
  case (run us u)
  have "client_of owner (sh_session s)" "\<not> m_locked (net (sh_session s))"
    using assms(3) by (simp_all add: looked_after_def announced_def)
  then show ?thesis using run on_notified_after [OF assms(2), of owner "sh_session s" tok "set us"] by auto
next
  case (other u us n cs)
  then show ?thesis using assms(3) by (auto simp: after_defs split: option.splits)
qed

lemma sess_reach_after:
  assumes "patient E"
  shows "sess_reach E tok owner s \<Longrightarrow> looked_after owner tok (set (sh_taken s)) (sh_session s)"
proof (induction rule: sess_reach.induct)
  case (fresh n)
  then show ?case by (simp add: shared_fresh_def after_defs)
next
  case (more s t)
  then show ?case using sess_step_after [OF _ assms] by blast
qed

subsection \<open>Properties\<close>


text \<open>The sockets of the example are full from the first system call on; the session belongs to the
  thread 3, thread 4 sends.\<close>

definition full_env :: "unit env" where
  "full_env = test_env True (\<lambda>_. True) (\<lambda>n. n)"

lemma full_patient: "patient full_env"
  by (simp add: full_env_def patient_def test_kernel_def again_def)

definition waiting_session :: "unit shared" where
  "waiting_session = \<lparr>sh_session =
     \<lparr>s_client = Some \<lparr>c_fd = 5, c_thdid = 3\<rparr>, s_list = [[9]], s_notified = True,
      net = (logged full_env (Eventfd_write 0) (logged full_env (Send 5 [9]) (net_initial [])))
        \<lparr>m_trigger := [()]\<rparr>\<rparr>, sh_taken = []\<rparr>"

lemma waiting_reachable: "sess_reach full_env () 3 waiting_session"
proof -
  let ?a = "shared_fresh (net_initial []) :: unit shared"
  let ?b = "?a\<lparr>sh_session := (sh_session ?a)\<lparr>s_client := Some \<lparr>c_fd = 5, c_thdid = 3\<rparr>\<rparr>\<rparr>"
  have "sess_reach full_env () 3 ?a" by (rule sess_reach.fresh) (simp add: net_initial_def)
  moreover have "sess_step full_env () 3 ?a ?b"
    by (rule sess_step.client [of 5 _ _ 3]) (simp_all add: set_session_client_def s_send_def shared_fresh_def)
  moreover have "session_send full_env () 4 [9] (sh_session ?b) = Done () (sh_session waiting_session)"
    by (simp add: session_send_def check_valid_def shared_fresh_def INVALID_def with_client_def client_realsend_def
        on_net_def sys_logged full_env_def test_kernel_def queue_msg_def again_def logged_def notifysend_def
        notify_def with_lock_def waiting_session_def net_initial_def bnd_def)
  then have "sess_step full_env () 3 ?b (?b\<lparr>sh_session := sh_session waiting_session\<rparr>)"
    by (rule sess_step.send)
  moreover have "?b\<lparr>sh_session := sh_session waiting_session\<rparr> = waiting_session"
    by (simp add: shared_fresh_def waiting_session_def)
  ultimately show ?thesis by (metis sess_reach.more)
qed


text \<open>When a callback before it in the loop throws, the session's own is dropped
  (\<open>throwing_notification_drops_rest\<close>) with \<^verbatim>\<open>m_notified\<close> still \<^verbatim>\<open>TRUE\<close>: then no send from
  any thread writes or notifies again while the list is not empty.\<close>

lemma dropped_notification_stalls:
  assumes "s_client s = Some \<lparr>c_fd = fd, c_thdid = owner\<rparr>" "0 \<le> fd" "s_notified s" "s_list s \<noteq> []"
  shows "each (\<lambda>(th, m). session_send E tok th m) calls s = Done () (s\<lparr>s_list := s_list s @ map snd calls\<rparr>)"
  using assms
proof (induction calls arbitrary: s)
  case Nil
  then show ?case by simp
next
  case (Cons c calls)
  obtain th m where c: "c = (th, m)" by (cases c)
  have "session_send E tok th m s = Done () (s\<lparr>s_list := s_list s @ [m]\<rparr>)"
    using Cons.prems by (simp add: session_send_def check_valid_def INVALID_def queue_msg_def)
  then show ?case using Cons.IH [of "s\<lparr>s_list := s_list s @ [m]\<rparr>"] Cons.prems by (simp add: c)
qed

end
