(* ===== verification/MsgSession.thy ===== *)
theory MsgSession
  imports Prelude
begin

text \<open>
  \<^verbatim>\<open>src/src/service/msgsession.cpp\<close> and the client-side table \<^verbatim>\<open>service/msgdispatch.inl\<close>:
  a connection that reconnects, a list of queries of which one at a time is in flight, and the
  callbacks that answer them. The state has the fields of the class, the outcome of the next
  \<^verbatim>\<open>client::send\<close> (a send that fails makes the loop run the close callback before it returns),
  the clock, and a trace of what was submitted, sent, answered and retried. A callback is a name
  \<open>'c\<close>; \<open>usr\<close> gives the program over the session it runs (it may query again, and throw).
\<close>

subsection \<open>State\<close>

datatype e_state = e_state_waiting | e_state_query

record 'c rpcquery =
  q_msg :: "byte list"
  q_callback :: "'c option"
  q_tstamp :: int

record msg_results =
  last_error :: int
  len :: int
  data :: "byte list"

datatype 'c event = Submitted "'c option" | Sent "byte list" | Answered "'c option" msg_results
  | Retry_timer int | Connecting

record 'c msgsession =
  ms_list :: "'c rpcquery list"
  ms_client :: "bool option"
  ms_state :: e_state
  ms_timeout :: int
  ms_timer :: int
  ms_now :: int
  ms_sends :: "bool list"
  ms_trace :: "'c event list"

type_synonym 'c callbacks = "'c \<Rightarrow> msg_results \<Rightarrow> ('c msgsession, unit) prog"

definition INVALID :: int where "INVALID = -1"
definition TIMEOUT :: int where "TIMEOUT = -2"
definition MAX_RETRY_TIMEOUT :: int where "MAX_RETRY_TIMEOUT = 15 * 1000"

text \<open>\<^verbatim>\<open>m_client\<close> is null, or a client that still has its descriptor or not.\<close>

definition ms_valid :: "'c msgsession \<Rightarrow> bool" where
  "ms_valid s \<longleftrightarrow> ms_client s = Some True"

definition msgsession_new :: "'c msgsession" where
  "msgsession_new = \<lparr>ms_list = [], ms_client = None, ms_state = e_state_waiting, ms_timeout = 1000,
     ms_timer = INVALID, ms_now = 0, ms_sends = [], ms_trace = []\<rparr>"

definition emit :: "'c event \<Rightarrow> ('c msgsession, unit) prog" where
  "emit e = modify (\<lambda>s. s\<lparr>ms_trace := ms_trace s @ [e]\<rparr>)"

text \<open>\<^verbatim>\<open>results_of\<close>: \<^verbatim>\<open>msg_results\<close> as declared, or after \<^verbatim>\<open>__set\<close>.\<close>

definition results_error :: "int \<Rightarrow> msg_results" where
  "results_error e = \<lparr>last_error = e, len = 0, data = []\<rparr>"

definition results_set :: "int \<Rightarrow> int \<Rightarrow> byte list \<Rightarrow> msg_results" where
  "results_set e l d = \<lparr>last_error = e, len = l, data = d\<rparr>"

text \<open>Move the callback out of the first entry, erase the entry, and call it. Calling an empty
  \<^verbatim>\<open>std::function\<close> throws \<^verbatim>\<open>bad_function_call\<close>.\<close>

definition pop_query :: "msg_results \<Rightarrow> ('c msgsession, 'c option) prog" where
  "pop_query r = (\<lambda>s. case ms_list s of
     [] \<Rightarrow> Stuck Ub
   | q # rest \<Rightarrow> Done (q_callback q)
       (s\<lparr>ms_list := rest, ms_trace := ms_trace s @ [Answered (q_callback q) r]\<rparr>))"

definition call_back :: "'c callbacks \<Rightarrow> 'c option \<Rightarrow> msg_results \<Rightarrow> ('c msgsession, unit) prog" where
  "call_back usr cb r = (case cb of None \<Rightarrow> throw | Some c \<Rightarrow> usr c r)"

subsection \<open>Operations\<close>

text \<open>\<^verbatim>\<open>__retry_timeout\<close>; the list argument is the iterator's view. An iterator whose element is no
  longer the first would have been invalidated.\<close>

primrec retry_loop :: "'c callbacks \<Rightarrow> int \<Rightarrow> 'c rpcquery list \<Rightarrow> ('c msgsession, unit) prog" where
  "retry_loop usr t [] = skip"
| "retry_loop usr t (q # rest) =
     (if t < q_tstamp q + MAX_RETRY_TIMEOUT then skip
      else bnd (gets ms_list) (\<lambda>l.
        if l = [] \<or> hd l \<noteq> q then stuck Ub
        else bnd (pop_query (results_error TIMEOUT)) (\<lambda>cb.
          bnd (case cb of None \<Rightarrow> skip | Some c \<Rightarrow> usr c (results_error TIMEOUT))
            (\<lambda>_. retry_loop usr t rest))))"

definition retry_timeout :: "'c callbacks \<Rightarrow> ('c msgsession, unit) prog" where
  "retry_timeout usr = bnd (gets ms_now) (\<lambda>t. bnd (gets ms_list) (retry_loop usr t))"

definition ms_retry :: "'c callbacks \<Rightarrow> int \<Rightarrow> ('c msgsession, unit) prog" where
  "ms_retry usr fd =
     bnd (retry_timeout usr) (\<lambda>_.
       bnd (gets ms_timeout) (\<lambda>t.
         bnd (emit (Retry_timer t)) (\<lambda>_. modify (\<lambda>s. s\<lparr>ms_timer := fd\<rparr>))))"

text \<open>The timer's lambda, and \<^verbatim>\<open>__init\<close>.\<close>

definition ms_init :: "('c msgsession, unit) prog" where
  "ms_init = emit Connecting"

definition on_timer :: "('c msgsession, unit) prog" where
  "on_timer = bnd (modify (\<lambda>s. s\<lparr>ms_timer := INVALID\<rparr>)) (\<lambda>_. ms_init)"

definition on_close :: "'c callbacks \<Rightarrow> int \<Rightarrow> ('c msgsession, unit) prog" where
  "on_close usr fd =
     bnd (modify (\<lambda>s. s\<lparr>ms_client := None\<rparr>)) (\<lambda>_.
       bnd (gets (\<lambda>s. ms_state s = e_state_query \<and> ms_list s \<noteq> [])) (\<lambda>b.
         bnd (if b then bnd (pop_query (results_error INVALID)) (\<lambda>cb. call_back usr cb (results_error INVALID))
              else skip) (\<lambda>_.
           bnd (modify (\<lambda>s. s\<lparr>ms_state := e_state_waiting\<rparr>)) (\<lambda>_. ms_retry usr fd))))"

text \<open>\<^verbatim>\<open>m_client->send(msg)\<close>: the next answer says whether the connection survives it.\<close>

definition ms_client_send :: "'c callbacks \<Rightarrow> int \<Rightarrow> byte list \<Rightarrow> ('c msgsession, unit) prog" where
  "ms_client_send usr fd msg =
     bnd (emit (Sent msg)) (\<lambda>_.
       bnd (gets (\<lambda>s. case ms_sends s of [] \<Rightarrow> True | b # _ \<Rightarrow> b)) (\<lambda>ok.
         bnd (modify (\<lambda>s. s\<lparr>ms_sends := tl (ms_sends s)\<rparr>)) (\<lambda>_.
           if ok then skip else on_close usr fd)))"

definition ms_send_next :: "'c callbacks \<Rightarrow> int \<Rightarrow> ('c msgsession, unit) prog" where
  "ms_send_next usr fd =
     bnd (gets (\<lambda>s. ms_state s = e_state_waiting \<and> ms_valid s)) (\<lambda>b.
       bnd (gets ms_list) (\<lambda>l.
         if b then
           (case l of [] \<Rightarrow> skip
            | q # _ \<Rightarrow> bnd (modify (\<lambda>s. s\<lparr>ms_state := e_state_query\<rparr>)) (\<lambda>_. ms_client_send usr fd (q_msg q)))
         else skip))"

definition query :: "'c callbacks \<Rightarrow> int \<Rightarrow> byte list \<Rightarrow> 'c option \<Rightarrow> ('c msgsession, unit) prog" where
  "query usr fd req cb =
     bnd (modify (\<lambda>s. s\<lparr>ms_list := ms_list s @ [\<lparr>q_msg = req, q_callback = cb, q_tstamp = ms_now s\<rparr>],
                        ms_trace := ms_trace s @ [Submitted cb]\<rparr>)) (\<lambda>_. ms_send_next usr fd)"

text \<open>\<open>oninit\<close> is the hook of \<^verbatim>\<open>heartbeat<msgsession>\<close>, empty unless \<^verbatim>\<open>heartbeat_init\<close> set it.\<close>

definition on_connect :: "'c callbacks \<Rightarrow> ('c msgsession, unit) prog \<Rightarrow> int \<Rightarrow> ('c msgsession, unit) prog" where
  "on_connect usr oninit fd =
     bnd (modify (\<lambda>s. s\<lparr>ms_client := Some True, ms_state := e_state_waiting\<rparr>)) (\<lambda>_.
       bnd oninit (\<lambda>_. ms_send_next usr fd))"

definition ms_send :: "'c callbacks \<Rightarrow> int \<Rightarrow> byte list \<Rightarrow> ('c msgsession, unit) prog" where
  "ms_send usr fd msg =
     bnd (gets ms_valid) (\<lambda>v. if v then ms_client_send usr fd msg else skip)"

definition ms_stop :: "('c msgsession, unit) prog" where
  "ms_stop = modify (\<lambda>s. s\<lparr>ms_client := None\<rparr>)"

text \<open>The read callback of the connection, \<^verbatim>\<open>m_client->recv()\<close>, which hands what it reads to
  \<open>recv\<close>.\<close>

definition on_readable :: "('c msgsession, unit) prog \<Rightarrow> ('c msgsession, unit) prog" where
  "on_readable recv = bnd (gets ms_client) (\<lambda>c. if c = None then stuck Ub else recv)"

definition ms_on_dispatch :: "bool \<Rightarrow> 'c callbacks \<Rightarrow> int \<Rightarrow> int \<Rightarrow> byte list \<Rightarrow> ('c msgsession, unit) prog" where
  "ms_on_dispatch nd usr e l d =
     bnd (gets ms_list) (\<lambda>lst.
       if lst = [] then skip
       else bnd (gets ms_state) (\<lambda>st.
         bnd (assertion nd (st = e_state_query)) (\<lambda>_.
           bnd (modify (\<lambda>s. s\<lparr>ms_state := e_state_waiting\<rparr>)) (\<lambda>_.
             bnd (pop_query (results_set e l d)) (\<lambda>cb.
               try_catch (call_back usr cb (results_set e l d)))))))"

subsection \<open>msgdispatch\<close>

text \<open>Registered events by command, the methods answered by queries, the callback of the rest.
  The flag says whether dispatching has begun, after which registering is an error.\<close>

record ('id, 'c) msgdispatch =
  m_dispatch_init :: bool
  m_dispatch :: "'id \<rightharpoonup> 'c"
  m_callback :: "'c option"
  m_method :: "'id set"

definition msgdispatch_new :: "('id, 'c) msgdispatch" where
  "msgdispatch_new = \<lparr>m_dispatch_init = False, m_dispatch = Map.empty, m_callback = None, m_method = {}\<rparr>"

definition set_method :: "'id \<Rightarrow> ('id, 'c) msgdispatch \<Rightarrow> ('id, 'c) msgdispatch" where
  "set_method cmd t = t\<lparr>m_method := insert cmd (m_method t)\<rparr>"

definition has_method :: "'id \<Rightarrow> ('id, 'c) msgdispatch \<Rightarrow> bool" where
  "has_method cmd t \<longleftrightarrow> cmd \<in> m_method t"

definition onevent_any :: "bool \<Rightarrow> 'c \<Rightarrow> ('id, 'c) msgdispatch \<Rightarrow> ('id, 'c) msgdispatch res" where
  "onevent_any nd cb t =
     (if m_dispatch_init t \<and> \<not> nd then Inl Assertion else Inr (t\<lparr>m_callback := Some cb\<rparr>))"

definition onevent :: "bool \<Rightarrow> 'id \<Rightarrow> 'c \<Rightarrow> ('id, 'c) msgdispatch \<Rightarrow> ('id, 'c) msgdispatch res" where
  "onevent nd cmd cb t =
     (if m_dispatch_init t \<and> \<not> nd then Inl Assertion
      else Inr (t\<lparr>m_dispatch := emplace_map cmd cb (m_dispatch t)\<rparr>))"

definition dispatch_msg :: "bool \<Rightarrow> 'c callbacks \<Rightarrow> int \<Rightarrow> ('id, 'c) msgdispatch \<Rightarrow> 'id \<Rightarrow> int \<Rightarrow> int \<Rightarrow>
    byte list \<Rightarrow> ('id, 'c) msgdispatch \<times> ('c msgsession, unit) prog" where
  "dispatch_msg nd usr fd t cmd e l d =
     (case m_dispatch t cmd of
        Some c \<Rightarrow> (t\<lparr>m_dispatch_init := True\<rparr>,
          bnd (try_catch (usr c (results_set e l d))) (\<lambda>_. ms_send_next usr fd))
      | None \<Rightarrow> (t, bnd (ms_on_dispatch nd usr e l d) (\<lambda>_. ms_send_next usr fd)))"

definition dispatch_msgex :: "bool \<Rightarrow> 'c callbacks \<Rightarrow> int \<Rightarrow> ('id, 'c) msgdispatch \<Rightarrow> 'id \<Rightarrow> int \<Rightarrow> int \<Rightarrow>
    byte list \<Rightarrow> ('id, 'c) msgdispatch \<times> ('c msgsession, unit) prog" where
  "dispatch_msgex nd usr fd t cmd e l d =
     (if has_method cmd t then (t, bnd (ms_on_dispatch nd usr e l d) (\<lambda>_. ms_send_next usr fd))
      else (t\<lparr>m_dispatch_init := True\<rparr>,
        bnd (try_catch (call_back usr (m_callback t) (results_set e l d))) (\<lambda>_. ms_send_next usr fd)))"

subsection \<open>The ledger of queries\<close>

text \<open>What has been submitted and answered, by the trace.\<close>

fun submits :: "'c event list \<Rightarrow> 'c option list" where
  "submits [] = []"
| "submits (Submitted c # es) = c # submits es"
| "submits (_ # es) = submits es"

fun answers :: "'c event list \<Rightarrow> 'c option list" where
  "answers [] = []"
| "answers (Answered c r # es) = c # answers es"
| "answers (_ # es) = answers es"

lemma submits_append [simp]: "submits (xs @ ys) = submits xs @ submits ys"
  by (induction xs rule: submits.induct) simp_all

lemma answers_append [simp]: "answers (xs @ ys) = answers xs @ answers ys"
  by (induction xs rule: answers.induct) simp_all

definition ledger :: "'c msgsession \<Rightarrow> bool" where
  "ledger s \<longleftrightarrow> answers (ms_trace s) @ map q_callback (ms_list s) = submits (ms_trace s)"

lemma pop_ledger [pres]: "preserves ledger (pop_query r)"
  by (auto simp: preserves_def pop_query_def ledger_def split: list.splits)

lemma emit_ledger:
  "preserves ledger (emit (Sent m))" "preserves ledger (emit (Retry_timer t))" "preserves ledger (emit Connecting)"
  by (simp_all add: preserves_def emit_def ledger_def)

lemma field_ledger:
  "preserves ledger (modify (\<lambda>s. s\<lparr>ms_client := c\<rparr>))" "preserves ledger (modify (\<lambda>s. s\<lparr>ms_state := st\<rparr>))"
  "preserves ledger (modify (\<lambda>s. s\<lparr>ms_timer := fd\<rparr>))" "preserves ledger (modify (\<lambda>s. s\<lparr>ms_sends := tl (ms_sends s)\<rparr>))"
  "preserves ledger (modify (\<lambda>s. s\<lparr>ms_client := c, ms_state := st\<rparr>))"
  by (simp_all add: preserves_def ledger_def)

lemma submit_ledger: "preserves ledger (modify (\<lambda>s. s\<lparr>ms_list := ms_list s @ [\<lparr>q_msg = req, q_callback = cb,
    q_tstamp = ms_now s\<rparr>], ms_trace := ms_trace s @ [Submitted cb]\<rparr>))"
  by (simp add: preserves_def ledger_def)

lemmas ledger_basic = emit_ledger field_ledger submit_ledger

lemma call_back_ledger:
  "(\<And>c r. preserves ledger (usr c r)) \<Longrightarrow> preserves ledger (call_back usr cb r)"
  by (cases cb) (auto simp: call_back_def intro: pres)

lemma retry_loop_ledger:
  assumes "\<And>c r. preserves ledger (usr c r)"
  shows "preserves ledger (retry_loop usr t l)"
proof (induction l)
  case Nil
  show ?case unfolding retry_loop.simps by (rule preserves_basic)
next
  case (Cons q l)
  have "preserves ledger (case cb of None \<Rightarrow> skip | Some c \<Rightarrow> usr c (results_error TIMEOUT))" for cb
    using assms by (cases cb) (simp_all add: preserves_basic)
  then show ?case unfolding retry_loop.simps by (intro pres Cons.IH)
qed

lemma ops_ledger:
  assumes "\<And>c r. preserves ledger (usr c r)"
  shows "preserves ledger (ms_retry usr fd)" "preserves ledger (on_close usr fd)"
    "preserves ledger (ms_client_send usr fd msg)" "preserves ledger (ms_send_next usr fd)"
    "preserves ledger (query usr fd msg cb)" "preserves ledger (ms_on_dispatch nd usr e l d)"
proof -
  show r: "preserves ledger (ms_retry usr fd)"
    unfolding ms_retry_def retry_timeout_def by (intro pres ledger_basic retry_loop_ledger assms)
  show c: "preserves ledger (on_close usr fd)"
    unfolding on_close_def by (intro pres ledger_basic call_back_ledger assms r)
  show s: "preserves ledger (ms_client_send usr fd msg)" for msg
    unfolding ms_client_send_def by (intro pres ledger_basic c)
  show n: "preserves ledger (ms_send_next usr fd)"
    unfolding ms_send_next_def
    by (intro pres) (auto intro!: pres ledger_basic s split: list.splits)
  show "preserves ledger (query usr fd msg cb)"
    unfolding query_def by (intro pres ledger_basic n)
  show "preserves ledger (ms_on_dispatch nd usr e l d)"
    unfolding ms_on_dispatch_def by (intro pres ledger_basic call_back_ledger assms)
qed

subsection \<open>Sessions that are driven\<close>

text \<open>What can happen to a session: a query of the program, a connection made, lost, readable
  (a response of the server), the retry timer, time passing.\<close>

datatype 'c stim = Query "byte list" "'c option" | Connected | Closed | Response int "byte list"
  | Timer | Tick int

fun ms_step :: "bool \<Rightarrow> 'c callbacks \<Rightarrow> ('id, 'c) msgdispatch \<Rightarrow> 'id \<Rightarrow> 'c stim \<Rightarrow> ('c msgsession, unit) prog" where
  "ms_step nd usr t cmd (Query m cb) = query usr 0 m cb"
| "ms_step nd usr t cmd Connected = on_connect usr skip 0"
| "ms_step nd usr t cmd Closed = on_close usr 0"
| "ms_step nd usr t cmd (Response e d) = on_readable (snd (dispatch_msg nd usr 0 t cmd e (int (length d)) d))"
| "ms_step nd usr t cmd Timer = on_timer"
| "ms_step nd usr t cmd (Tick n) = modify (\<lambda>s. s\<lparr>ms_now := n\<rparr>)"

text \<open>The loop catches what a step throws.\<close>

definition ms_run :: "bool \<Rightarrow> 'c callbacks \<Rightarrow> ('id, 'c) msgdispatch \<Rightarrow> 'id \<Rightarrow> 'c stim list \<Rightarrow>
    ('c msgsession, unit) prog" where
  "ms_run nd usr t cmd = each (\<lambda>x. try_catch (ms_step nd usr t cmd x))"

lemma ms_step_ledger:
  assumes "\<And>c r. preserves ledger (usr c r)"
  shows "preserves ledger (ms_step nd usr t cmd x)"
proof (cases x)
  case (Query m cb)
  then show ?thesis using ops_ledger(5) [OF assms] by simp
next
  case Connected
  show ?thesis unfolding Connected ms_step.simps on_connect_def
    by (intro pres ledger_basic ops_ledger(4) assms)
next
  case Closed
  then show ?thesis using ops_ledger(2) [OF assms] by simp
next
  case (Response e d)
  have "preserves ledger (snd (dispatch_msg nd usr 0 t cmd e (int (length d)) d))"
    unfolding dispatch_msg_def
    by (auto intro!: pres ops_ledger assms split: option.splits)
  then show ?thesis unfolding Response ms_step.simps on_readable_def by (intro pres)
next
  case Timer
  show ?thesis unfolding Timer ms_step.simps on_timer_def ms_init_def
    by (intro pres ledger_basic)
next
  case (Tick n)
  then show ?thesis by (simp add: preserves_def ledger_def)
qed

subsection \<open>One query in flight\<close>

text \<open>No query waits while the connection is idle.\<close>

definition busy :: "'c msgsession \<Rightarrow> bool" where
  "busy s \<longleftrightarrow> ms_list s = [] \<or> \<not> ms_valid s \<or> ms_state s = e_state_query"

text \<open>A program that ends, by a return or a throw, only in states with \<open>B\<close>.\<close>

definition ends_in :: "('s \<Rightarrow> bool) \<Rightarrow> ('s, 'a) prog \<Rightarrow> 's \<Rightarrow> bool" where
  "ends_in B m s \<longleftrightarrow> (case m s of Done a s' \<Rightarrow> B s' | Threw s' \<Rightarrow> B s' | Stuck e \<Rightarrow> True)"

lemma ends_in_bnd:
  "(\<And>t. m s = Threw t \<Longrightarrow> B t) \<Longrightarrow> (\<And>a t. m s = Done a t \<Longrightarrow> ends_in B (f a) t) \<Longrightarrow> ends_in B (bnd m f) s"
  by (cases "m s") (simp_all add: ends_in_def)

lemma preserves_ends: "preserves B m \<Longrightarrow> B s \<Longrightarrow> ends_in B m s"
  by (simp add: preserves_def ends_in_def)

lemma ends_in_mono: "ends_in B m s \<Longrightarrow> (\<And>t. B t \<Longrightarrow> C t) \<Longrightarrow> ends_in C m s"
  by (cases "m s") (simp_all add: ends_in_def)

lemma ends_in_try: "ends_in B m s \<Longrightarrow> ends_in B (try_catch m) s"
  by (cases "m s") (simp_all add: ends_in_def try_catch_def)

definition no_client :: "'c msgsession \<Rightarrow> bool" where
  "no_client s \<longleftrightarrow> ms_client s = None"

lemma no_client_basic:
  "preserves no_client (emit e)" "preserves no_client (pop_query r)"
  "preserves no_client (modify (\<lambda>s. s\<lparr>ms_state := st\<rparr>))" "preserves no_client (modify (\<lambda>s. s\<lparr>ms_timer := fd\<rparr>))"
  by (auto simp: preserves_def no_client_def emit_def pop_query_def split: list.splits)

lemma retry_no_client:
  assumes "\<And>c r. preserves no_client (usr c r)"
  shows "preserves no_client (retry_loop usr t l)" "preserves no_client (ms_retry usr fd)"
proof -
  show l: "preserves no_client (retry_loop usr t l)" for t l
  proof (induction l)
    case Nil
    show ?case unfolding retry_loop.simps by (rule preserves_basic)
  next
    case (Cons q l)
    have "preserves no_client (case cb of None \<Rightarrow> skip | Some c \<Rightarrow> usr c (results_error TIMEOUT))" for cb
      using assms by (cases cb) (simp_all add: preserves_basic)
    then show ?case unfolding retry_loop.simps by (intro pres no_client_basic Cons.IH)
  qed
  show "preserves no_client (ms_retry usr fd)"
    unfolding ms_retry_def retry_timeout_def by (intro pres no_client_basic l)
qed

lemma on_close_no_client:
  assumes "\<And>c r. preserves no_client (usr c r)"
  shows "ends_in no_client (on_close usr fd) s"
proof -
  let ?k = "bnd (gets (\<lambda>s. ms_state s = e_state_query \<and> ms_list s \<noteq> [])) (\<lambda>b.
      bnd (if b then bnd (pop_query (results_error INVALID)) (\<lambda>cb. call_back usr cb (results_error INVALID))
           else skip) (\<lambda>_. bnd (modify (\<lambda>s. s\<lparr>ms_state := e_state_waiting\<rparr>)) (\<lambda>_. ms_retry usr fd)))"
  have "preserves no_client (call_back usr cb r)" for cb r
    using assms by (cases cb) (simp_all add: call_back_def preserves_basic)
  then have "preserves no_client ?k"
    by (intro pres no_client_basic retry_no_client assms)
  then have "ends_in no_client ?k (s\<lparr>ms_client := None\<rparr>)"
    by (rule preserves_ends) (simp add: no_client_def)
  then show ?thesis by (simp add: on_close_def ends_in_def)
qed

lemma ms_send_next_busy:
  assumes "\<And>c r. preserves no_client (usr c r)"
  shows "ends_in busy (ms_send_next usr fd) s"
proof (cases "ms_state s = e_state_waiting \<and> ms_valid s \<and> ms_list s \<noteq> []")
  case False
  then have "ms_send_next usr fd s = Done () s"
    by (auto simp: ms_send_next_def split: list.splits)
  moreover have "busy s" using False by (cases "ms_state s") (auto simp: busy_def)
  ultimately show ?thesis by (simp add: ends_in_def)
next
  case True
  then obtain q rest where q: "ms_list s = q # rest" by (cases "ms_list s") auto
  let ?s = "s\<lparr>ms_state := e_state_query, ms_trace := ms_trace s @ [Sent (q_msg q)], ms_sends := tl (ms_sends s)\<rparr>"
  have run: "ms_send_next usr fd s = (if (case ms_sends s of [] \<Rightarrow> True | b # _ \<Rightarrow> b)
      then Done () ?s else on_close usr fd ?s)"
    using True q by (simp add: ms_send_next_def ms_client_send_def emit_def)
  have "ends_in busy (on_close usr fd) ?s"
    using on_close_no_client [of usr fd ?s, OF assms]
    by (rule ends_in_mono) (simp add: no_client_def busy_def ms_valid_def)
  then show ?thesis by (simp add: ends_in_def run busy_def)
qed

lemma try_no_throw: "try_catch m s \<noteq> Threw t"
  by (cases "m s") (simp_all add: try_catch_def)

lemma dispatch_no_throw: "ms_on_dispatch nd usr e l d s \<noteq> Threw t"
  by (auto simp: ms_on_dispatch_def bnd_def assertion_def pop_query_def try_no_throw split: exec.splits list.splits)

lemma ms_step_busy:
  assumes "\<And>c r. preserves no_client (usr c r)" "busy s"
  shows "ends_in busy (ms_step nd usr t cmd x) s"
proof (cases x)
  case (Query m cb)
  then show ?thesis
    using ms_send_next_busy [of usr, OF assms(1)] by (simp add: query_def ends_in_def)
next
  case Connected
  then show ?thesis
    using ms_send_next_busy [of usr, OF assms(1)] by (simp add: on_connect_def ends_in_def)
next
  case Closed
  have "ends_in busy (on_close usr 0) s"
    using on_close_no_client [of usr 0 s, OF assms(1)]
    by (rule ends_in_mono) (simp add: no_client_def busy_def ms_valid_def)
  then show ?thesis using Closed by simp
next
  case (Response e d)
  have "ends_in busy (snd (dispatch_msg nd usr 0 t cmd e (int (length d)) d)) s"
    unfolding dispatch_msg_def
    by (auto intro!: ends_in_bnd ms_send_next_busy assms(1) simp: dispatch_no_throw try_no_throw split: option.splits)
  then show ?thesis using Response by (simp add: on_readable_def ends_in_def)
next
  case Timer
  then show ?thesis using assms(2)
    by (simp add: ends_in_def on_timer_def ms_init_def emit_def busy_def ms_valid_def)
next
  case (Tick n)
  then show ?thesis using assms(2) by (simp add: ends_in_def busy_def ms_valid_def)
qed

lemma ms_run_busy:
  assumes "\<And>c r. preserves no_client (usr c r)"
  shows "busy s \<Longrightarrow> ms_run nd usr t cmd xs s = Done () s' \<Longrightarrow> busy s'"
proof (induction xs arbitrary: s)
  case Nil
  then show ?case by (simp add: ms_run_def)
next
  case (Cons x xs)
  obtain s1 where s1: "try_catch (ms_step nd usr t cmd x) s = Done () s1" "ms_run nd usr t cmd xs s1 = Done () s'"
    using Cons.prems(2) by (auto simp: ms_run_def bnd_eq_Done)
  have "ends_in busy (try_catch (ms_step nd usr t cmd x)) s"
    by (intro ends_in_try ms_step_busy assms Cons.prems(1))
  then have "busy s1" using s1(1) by (simp add: ends_in_def)
  then show ?case using Cons.IH s1(2) by blast
qed

subsection \<open>Properties\<close>


text \<open>Callbacks for examples: \<open>0\<close> queries again, \<open>1\<close> throws, the others return.\<close>

definition test_usr :: "nat callbacks" where
  "test_usr c r = (if c = 0 then query (\<lambda>_ _. skip) 0 [7] (Some 5) else if c = 1 then throw else skip)"

lemma test_usr_ledger: "preserves ledger (test_usr c r)"
  by (auto simp: test_usr_def intro!: pres ops_ledger)


text \<open>C10: A session never sits on work: after any run, thrown callbacks included, either nothing is
  queued, or the connection is down, or a query is in flight. The callbacks may do anything but make a
  connection out of nothing.\<close>

theorem session_never_idles:
  assumes "\<And>c r. preserves no_client (usr c r)" "ms_run nd usr t cmd xs msgsession_new = Done () s"
  shows "ms_list s = [] \<or> \<not> ms_valid s \<or> ms_state s = e_state_query"
  using ms_run_busy [of usr msgsession_new, OF assms(1) _ assms(2)]
  by (simp add: busy_def msgsession_new_def)

theorem session_never_idles_witness:
  "\<exists>s. ms_run False (\<lambda>(c :: nat) r. throw) (msgdispatch_new :: (int, nat) msgdispatch) 9
      [Connected, Query [1] (Some 0), Query [2] (Some 1), Response 0 [3]] msgsession_new = Done () s \<and>
    (ms_list s = [] \<or> \<not> ms_valid s \<or> ms_state s = e_state_query)"
proof -
  obtain s where s: "ms_run False (\<lambda>(c :: nat) r. throw) (msgdispatch_new :: (int, nat) msgdispatch) 9
      [Connected, Query [1] (Some 0), Query [2] (Some 1), Response 0 [3]] msgsession_new = Done () s"
    by (simp add: ms_run_def on_connect_def msgsession_new_def ms_send_next_def ms_valid_def query_def
        ms_client_send_def emit_def on_readable_def dispatch_msg_def msgdispatch_new_def ms_on_dispatch_def
        pop_query_def call_back_def try_catch_def bnd_def assertion_def)
  show ?thesis using s session_never_idles [OF preserves_basic(4) s] by blast
qed

text \<open>When a connection is lost with a query in flight whose callback throws (or is empty, which
  \<^verbatim>\<open>__onclose\<close>, unlike the timeout path, does not check), the session is never reconnected: no retry
  timer is set, and it stays in the query state without a client.\<close>

theorem throwing_callback_stops_reconnecting:
  assumes "ms_state s = e_state_query" "ms_list s = q # rest"
    and "case q_callback q of None \<Rightarrow> True | Some c \<Rightarrow> (\<forall>t. usr c (results_error INVALID) t = Threw t)"
  shows "\<exists>s'. on_close usr fd s = Threw s' \<and> ms_client s' = None \<and> ms_state s' = e_state_query \<and>
    ms_timer s' = ms_timer s \<and> ms_list s' = rest \<and>
    ms_trace s' = ms_trace s @ [Answered (q_callback q) (results_error INVALID)]"
  using assms
  by (simp add: on_close_def pop_query_def call_back_def bnd_def split: option.splits)

theorem throwing_callback_stops_reconnecting_witness:
  "\<exists>s'. on_close test_usr 4 (msgsession_new\<lparr>ms_state := e_state_query,
        ms_list := [\<lparr>q_msg = [1], q_callback = None, q_tstamp = 0\<rparr>]\<rparr>) = Threw s' \<and>
    ms_client s' = None \<and> ms_state s' = e_state_query \<and>
    ms_timer s' = ms_timer (msgsession_new\<lparr>ms_state := e_state_query,
        ms_list := [\<lparr>q_msg = [1], q_callback = None, q_tstamp = 0\<rparr>]\<rparr> :: nat msgsession) \<and>
    ms_list s' = [] \<and>
    ms_trace s' = ms_trace (msgsession_new\<lparr>ms_state := e_state_query,
        ms_list := [\<lparr>q_msg = [1], q_callback = None, q_tstamp = 0\<rparr>]\<rparr>) @
      [Answered (q_callback \<lparr>q_msg = [1], q_callback = None, q_tstamp = 0\<rparr>) (results_error INVALID)]"
  by (rule throwing_callback_stops_reconnecting) simp_all

text \<open>Stopping a session (as a missed heartbeat does) leaves its read callback registered with a null
  client: the next byte from the server dereferences it.\<close>

lemma stopped_session_read_is_ub: "bnd ms_stop (\<lambda>_. on_readable recv) s = Stuck Ub"
  by (simp add: ms_stop_def on_readable_def)

end
