(* ===== verification/Controllers.thy ===== *)
theory Controllers
  imports Prelude
begin

text \<open>
  The controllers of \<^verbatim>\<open>msg/rpc.h\<close> and \<^verbatim>\<open>pbmsg/pbrpc.h\<close>. A controller is shared by the handler of a
  request and by whatever the method keeps of it, and its destructor sends the response. The two templates
  differ in the fields a controller has beyond the common ones (a record extension) and in what the
  destructor serializes (\<open>ser\<close>). The locale \<open>responder\<close> shows once, for both, that a request is answered
  exactly when the last reference to its controller goes.
\<close>

subsection \<open>Shared pointers to controllers\<close>

text \<open>\<open>k_refs\<close> is the number of \<^verbatim>\<open>shared_ptr\<close>s to the controller; at 0 it is destroyed.\<close>

record ('q, 'r) controllor =
  k_cli :: int
  k_error :: "32 word"
  k_req :: 'q
  k_res :: 'r
  k_refs :: nat

text \<open>Controllers by the order of their making, and the responses sent: of which controller, to which
  session, the frame.\<close>

record 'k controllers =
  k_all :: "'k list"
  k_sent :: "(nat \<times> int \<times> byte list) list"

definition controllers_new :: "'k controllers" where
  "controllers_new = \<lparr>k_all = [], k_sent = []\<rparr>"

definition ctl_add :: "'k \<Rightarrow> ('k controllers, nat) prog" where
  "ctl_add c =
     bnd (gets (\<lambda>s. length (k_all s))) (\<lambda>i. bnd (modify (\<lambda>s. s\<lparr>k_all := k_all s @ [c]\<rparr>)) (\<lambda>_. ret i))"

text \<open>Through a \<^verbatim>\<open>shared_ptr\<close> that is held; a destroyed controller is out of reach of the defined.\<close>

definition ctl_update :: "nat \<Rightarrow> (('q, 'r, 'z) controllor_scheme \<Rightarrow> ('q, 'r, 'z) controllor_scheme) \<Rightarrow>
    (('q, 'r, 'z) controllor_scheme controllers, unit) prog" where
  "ctl_update i f = (\<lambda>s.
     if i < length (k_all s) \<and> 0 < k_refs (k_all s ! i)
     then Done () (s\<lparr>k_all := (k_all s)[i := f (k_all s ! i)]\<rparr>)
     else Stuck Ub)"

definition set_error :: "32 word \<Rightarrow> nat \<Rightarrow> (('q, 'r, 'z) controllor_scheme controllers, unit) prog" where
  "set_error e i = ctl_update i (\<lambda>c. c\<lparr>k_error := e\<rparr>)"

definition ctl_share :: "nat \<Rightarrow> (('q, 'r, 'z) controllor_scheme controllers, unit) prog" where
  "ctl_share i = ctl_update i (\<lambda>c. c\<lparr>k_refs := k_refs c + 1\<rparr>)"

definition ctl_destroy :: "(('q, 'r, 'z) controllor_scheme \<Rightarrow> byte list res) \<Rightarrow> nat \<Rightarrow>
    (('q, 'r, 'z) controllor_scheme controllers, unit) prog" where
  "ctl_destroy ser i = (\<lambda>s.
     let c = k_all s ! i
     in case ser c of
          Inl e \<Rightarrow> Stuck e
        | Inr frame \<Rightarrow> Done () (s\<lparr>k_sent := k_sent s @ [(i, k_cli c, frame)]\<rparr>))"

definition ctl_drop :: "(('q, 'r, 'z) controllor_scheme \<Rightarrow> byte list res) \<Rightarrow> nat \<Rightarrow>
    (('q, 'r, 'z) controllor_scheme controllers, unit) prog" where
  "ctl_drop ser i =
     bnd (ctl_update i (\<lambda>c. c\<lparr>k_refs := k_refs c - 1\<rparr>)) (\<lambda>_.
       bnd (gets (\<lambda>s. k_refs (k_all s ! i))) (\<lambda>n. if n = 0 then ctl_destroy ser i else skip))"

text \<open>What a method does with its controller, and a local \<^verbatim>\<open>shared_ptr\<close>, dropped on a return and on a
  throw.\<close>

datatype 'r rop = Set_error "32 word" | Set_response 'r | Keep

fun run_rop :: "nat \<Rightarrow> 'r rop \<Rightarrow> (('q, 'r, 'z) controllor_scheme controllers, unit) prog" where
  "run_rop i (Set_error e) = set_error e i"
| "run_rop i (Set_response r) = ctl_update i (\<lambda>c. c\<lparr>k_res := r\<rparr>)"
| "run_rop i Keep = ctl_share i"

definition with_local :: "('s, unit) prog \<Rightarrow> ('s, unit) prog \<Rightarrow> ('s, unit) prog" where
  "with_local leave m = (\<lambda>s. case m s of
     Done a s' \<Rightarrow> leave s'
   | Threw s' \<Rightarrow> bnd leave (\<lambda>_. throw) s'
   | Stuck e \<Rightarrow> Stuck e)"

lemma try_with_local: "try_catch (with_local leave m) s = try_catch (bnd (try_catch m) (\<lambda>_. leave)) s"
  by (auto simp: with_local_def try_catch_def bnd_def split: exec.splits)

text \<open>The operations \<open>ops\<close> of a method, and whether it throws in the end.\<close>

definition run_method :: "('o \<Rightarrow> ('s, unit) prog) \<Rightarrow> 'o list \<times> bool \<Rightarrow> ('s, unit) prog" where
  "run_method op = (\<lambda>(ops, thrown). bnd (each op ops) (\<lambda>_. if thrown then throw else skip))"

lemma try_run_method: "each op (fst m) s = Done () t \<Longrightarrow> try_catch (run_method op m) s = Done () t"
  by (cases m) (simp add: run_method_def try_catch_def)

text \<open>Operations that write fields of the one controller they are run on, in its place at the end.\<close>

lemma each_writes:
  assumes "\<And>op. op \<in> set ops \<Longrightarrow> run op = ctl_update (length cs) (eff op)"
    and "\<And>op c. op \<in> set ops \<Longrightarrow> k_refs (eff op c) = k_refs c"
  shows "k_all s = cs @ [c] \<Longrightarrow> 0 < k_refs c \<Longrightarrow>
    each run ops s = Done () (s\<lparr>k_all := cs @ [fold eff ops c]\<rparr>)"
  using assms
proof (induction ops arbitrary: s c)
  case (Cons op ops)
  have "run op s = Done () (s\<lparr>k_all := cs @ [eff op c]\<rparr>)"
    using Cons.prems by (simp add: ctl_update_def)
  moreover have "each run ops (s\<lparr>k_all := cs @ [eff op c]\<rparr>) =
      Done () (s\<lparr>k_all := cs @ [eff op c]\<rparr>\<lparr>k_all := cs @ [fold eff ops (eff op c)]\<rparr>)"
    using Cons.prems by (intro Cons.IH) simp_all
  ultimately show ?case by simp
qed simp

subsection \<open>Runs of a server\<close>

text \<open>Requests of connections, and what is done later with a controller that was kept.\<close>

datatype 'o rpc_stim = Request int "byte list" | Late nat 'o | Release nat

definition held :: "nat \<Rightarrow> ('q, 'r, 'z) controllor_scheme controllers \<Rightarrow> bool" where
  "held i s \<longleftrightarrow> i < length (k_all s) \<and> 0 < k_refs (k_all s ! i)"

fun ctl_step :: "(('q, 'r, 'z) controllor_scheme \<Rightarrow> byte list res) \<Rightarrow>
    (nat \<Rightarrow> 'o \<Rightarrow> (('q, 'r, 'z) controllor_scheme controllers, unit) prog) \<Rightarrow>
    (int \<Rightarrow> byte list \<Rightarrow> (('q, 'r, 'z) controllor_scheme controllers, unit) prog) \<Rightarrow> 'o rpc_stim \<Rightarrow>
    (('q, 'r, 'z) controllor_scheme controllers, unit) prog" where
  "ctl_step ser run handle (Request cli buf) = try_catch (handle cli buf)"
| "ctl_step ser run handle (Late i op) = bnd (gets (held i)) (\<lambda>b. if b then run i op else skip)"
| "ctl_step ser run handle (Release i) = bnd (gets (held i)) (\<lambda>b. if b then ctl_drop ser i else skip)"

text \<open>A controller has answered, once and with what it holds in the end, exactly when nobody has a reference.\<close>

definition answered :: "(('q, 'r, 'z) controllor_scheme \<Rightarrow> byte list) \<Rightarrow>
    ('q, 'r, 'z) controllor_scheme controllers \<Rightarrow> bool" where
  "answered frame s \<longleftrightarrow> distinct (map fst (k_sent s)) \<and>
     fst ` set (k_sent s) = {i. i < length (k_all s) \<and> k_refs (k_all s ! i) = 0} \<and>
     (\<forall>(i, r) \<in> set (k_sent s). r = (k_cli (k_all s ! i), frame (k_all s ! i)))"

definition answered_holding where
  "answered_holding frame i s \<longleftrightarrow> answered frame s \<and> held i s"

lemma answered_new: "answered frame controllers_new"
  by (simp add: answered_def controllers_new_def)

lemma answered_update:
  assumes "\<And>c. 0 < k_refs c \<Longrightarrow> 0 < k_refs (f c)"
  shows "keeps (answered_holding frame i) (ctl_update i f)"
proof (rule keepsI)
  fix s assume s: "answered_holding frame i s"
  let ?s = "s\<lparr>k_all := (k_all s)[i := f (k_all s ! i)]\<rparr>"
  have i: "i < length (k_all s)" "0 < k_refs (k_all s ! i)" "0 < k_refs (f (k_all s ! i))"
    using s assms by (simp_all add: answered_holding_def held_def)
  have ne: "j \<noteq> i" if "(j, r) \<in> set (k_sent s)" for j r
  proof -
    have "j \<in> fst ` set (k_sent s)" using that by force
    then show ?thesis using s i by (auto simp: answered_holding_def answered_def)
  qed
  have "{j. j < length (k_all ?s) \<and> k_refs (k_all ?s ! j) = 0} = {j. j < length (k_all s) \<and> k_refs (k_all s ! j) = 0}"
    using i by (auto simp: nth_list_update split: if_splits)
  moreover have "r = (k_cli (k_all ?s ! j), frame (k_all ?s ! j))" if "(j, r) \<in> set (k_sent s)" for j r
    using that ne [OF that] s by (auto simp: answered_holding_def answered_def)
  ultimately have "answered frame ?s" using s by (auto simp: answered_holding_def answered_def)
  then show "\<exists>a s'. ctl_update i f s = Done a s' \<and> answered_holding frame i s'"
    using i by (simp add: ctl_update_def answered_holding_def held_def)
qed

lemma answered_rop: "keeps (answered_holding frame i) (run_rop i op)"
  by (cases op) (auto simp: set_error_def ctl_share_def intro!: answered_update)

lemma answered_add:
  assumes "answered frame s" "0 < k_refs c"
  shows "\<exists>s'. ctl_add c s = Done (length (k_all s)) s' \<and> answered_holding frame (length (k_all s)) s'"
proof -
  let ?s = "s\<lparr>k_all := k_all s @ [c]\<rparr>"
  have lt: "j < length (k_all s)" if "(j, r) \<in> set (k_sent s)" for j r
  proof -
    have "j \<in> fst ` set (k_sent s)" using that by force
    then show ?thesis using assms(1) by (auto simp: answered_def)
  qed
  have "{j. j < length (k_all ?s) \<and> k_refs (k_all ?s ! j) = 0} = {j. j < length (k_all s) \<and> k_refs (k_all s ! j) = 0}"
    using assms(2) by (auto simp: nth_append less_Suc_eq)
  moreover have "r = (k_cli (k_all ?s ! j), frame (k_all ?s ! j))" if "(j, r) \<in> set (k_sent s)" for j r
    using that lt [OF that] assms(1) by (auto simp: answered_def nth_append)
  ultimately have "answered frame ?s" using assms(1) by (auto simp: answered_def)
  then show ?thesis using assms(2) by (simp add: ctl_add_def held_def answered_holding_def)
qed

subsection \<open>Responders\<close>

text \<open>The contract of a template: what its destructor serializes succeeds with a certain frame, when the
  messages are \<open>sound\<close>; an operation of a method writes its controller or takes a reference.\<close>

locale responder =
  fixes sound :: bool
    and ser :: "('q, 'r, 'z) controllor_scheme \<Rightarrow> byte list res"
    and frame :: "('q, 'r, 'z) controllor_scheme \<Rightarrow> byte list"
    and run :: "nat \<Rightarrow> 'o \<Rightarrow> (('q, 'r, 'z) controllor_scheme controllers, unit) prog"
  assumes serialized: "sound \<Longrightarrow> ser c = Inr (frame c)"
    and operated: "keeps (answered_holding frame i) (run i op)"
begin

lemma answered_drop:
  assumes "sound" "answered_holding frame i s"
  shows "\<exists>s'. ctl_drop ser i s = Done () s' \<and> answered frame s'"
proof (cases "k_refs (k_all s ! i) = 1")
  case False
  let ?s = "s\<lparr>k_all := (k_all s)[i := (k_all s ! i)\<lparr>k_refs := k_refs (k_all s ! i) - 1\<rparr>]\<rparr>"
  have i: "i < length (k_all s)" "0 < k_refs (k_all s ! i)" "answered frame s"
    using assms(2) by (simp_all add: answered_holding_def held_def)
  have ne: "j \<noteq> i" if "(j, r) \<in> set (k_sent s)" for j r
  proof -
    have "j \<in> fst ` set (k_sent s)" using that by force
    then show ?thesis using i by (auto simp: answered_def)
  qed
  have "{j. j < length (k_all ?s) \<and> k_refs (k_all ?s ! j) = 0} = {j. j < length (k_all s) \<and> k_refs (k_all s ! j) = 0}"
    using i False by (auto simp: nth_list_update split: if_splits)
  moreover have "r = (k_cli (k_all ?s ! j), frame (k_all ?s ! j))" if "(j, r) \<in> set (k_sent s)" for j r
    using that ne [OF that] i(3) by (auto simp: answered_def)
  ultimately have "answered frame ?s" using i(3) by (auto simp: answered_def)
  then show ?thesis using i False by (simp add: ctl_drop_def ctl_update_def)
next
  case True
  let ?c = "(k_all s ! i)\<lparr>k_refs := 0\<rparr>"
  let ?s = "s\<lparr>k_all := (k_all s)[i := ?c], k_sent := k_sent s @ [(i, k_cli ?c, frame ?c)]\<rparr>"
  have i: "i < length (k_all s)" "answered frame s" using assms(2) by (simp_all add: answered_holding_def held_def)
  have out: "i \<notin> fst ` set (k_sent s)" using i(2) True by (auto simp: answered_def)
  have ne: "j \<noteq> i" if "(j, r) \<in> set (k_sent s)" for j r
    using that out by force
  have "ctl_drop ser i s = Done () ?s"
    using True i(1) serialized [OF assms(1)] by (simp add: ctl_drop_def ctl_update_def ctl_destroy_def Let_def)
  moreover have "{j. j < length (k_all ?s) \<and> k_refs (k_all ?s ! j) = 0} =
      insert i {j. j < length (k_all s) \<and> k_refs (k_all s ! j) = 0}"
    using i True by (auto simp: nth_list_update split: if_splits)
  moreover have "r = (k_cli (k_all ?s ! j), frame (k_all ?s ! j))" if "(j, r) \<in> set (k_sent s)" for j r
    using that ne [OF that] i(2) by (auto simp: answered_def)
  ultimately show ?thesis using i out by (auto simp: answered_def)
qed

lemma try_method_keeps: "keeps (answered_holding frame i) (try_catch (run_method (run i) m))"
proof (rule keepsI)
  fix s assume "answered_holding frame i s"
  moreover have "keeps (answered_holding frame i) (each (run i) (fst m))"
    by (intro keeps_each operated)
  ultimately obtain s' where "each (run i) (fst m) s = Done () s'" "answered_holding frame i s'"
    using keepsD by fastforce
  then show "\<exists>a s'. try_catch (run_method (run i) m) s = Done a s' \<and> answered_holding frame i s'"
    using try_run_method [of "run i" m s s'] by simp
qed

text \<open>A handler that makes a controller and runs a program on it while it holds it.\<close>

lemma answered_scope:
  assumes "sound" "answered frame s" "0 < k_refs c"
    and "\<And>i. keeps (answered_holding frame i) (try_catch (body i))"
  shows "\<exists>s'. try_catch (bnd (ctl_add c) (\<lambda>i. with_local (ctl_drop ser i) (body i))) s = Done () s' \<and> answered frame s'"
proof -
  let ?i = "length (k_all s)"
  obtain s1 where s1: "ctl_add c s = Done ?i s1" "answered_holding frame ?i s1"
    using answered_add [OF assms(2,3)] by blast
  then obtain s2 where s2: "try_catch (body ?i) s1 = Done () s2" "answered_holding frame ?i s2"
    using keepsD [OF assms(4) s1(2)] by auto
  obtain s3 where s3: "ctl_drop ser ?i s2 = Done () s3" "answered frame s3"
    using answered_drop [OF assms(1) s2(2)] by blast
  have "try_catch (with_local (ctl_drop ser ?i) (body ?i)) s1 = Done () s3"
    unfolding try_with_local using s2(1) s3(1) by (simp add: try_catch_def [of "bnd _ _"])
  then show ?thesis using s1(1) s3(2) by (simp add: try_catch_def)
qed

lemma answered_step:
  assumes "sound" "\<And>cli buf. keeps (answered frame) (try_catch (handle cli buf))"
  shows "keeps (answered frame) (ctl_step ser run handle x)"
proof (cases x)
  case (Request cli buf)
  then show ?thesis using assms(2) by simp
next
  case (Late i op)
  have "\<exists>s'. run i op s = Done () s' \<and> answered frame s'" if "answered_holding frame i s" for s
    using keepsD [OF operated that, of op] by (auto simp: answered_holding_def)
  then show ?thesis using Late by (auto simp: keeps_def answered_holding_def)
next
  case (Release i)
  then show ?thesis using answered_drop [OF assms(1), of i] by (auto simp: keeps_def answered_holding_def)
qed

lemma answers_once:
  assumes "sound" "\<And>cli buf. keeps (answered frame) (try_catch (handle cli buf))"
  shows "\<exists>s. each (ctl_step ser run handle) xs controllers_new = Done () s \<and> distinct (map fst (k_sent s)) \<and>
    fst ` set (k_sent s) = {i. i < length (k_all s) \<and> k_refs (k_all s ! i) = 0} \<and>
    k_sent s = map (\<lambda>i. (i, k_cli (k_all s ! i), frame (k_all s ! i))) (map fst (k_sent s))"
proof -
  have "keeps (answered frame) (each (ctl_step ser run handle) xs)"
    by (intro kept answered_step assms)
  from keepsD [OF this answered_new]
  obtain s where "each (ctl_step ser run handle) xs controllers_new = Done () s" "answered frame s" by auto
  moreover from this have "k_sent s = map (\<lambda>i. (i, k_cli (k_all s ! i), frame (k_all s ! i))) (map fst (k_sent s))"
    by (auto simp: answered_def intro!: map_idI [symmetric])
  ultimately show ?thesis by (auto simp: answered_def)
qed

end

end
