(* ===== verification/Calls.thy ===== *)
theory Calls
  imports Client MsgSession Controllers
begin

text \<open>
  A client session and a message server joined by a connection. The session's queue
  (\<^verbatim>\<open>service/msgsession.cpp\<close>), the reader of each end (\<open>Client\<close>) and the server's controllers are fixed;
  the frames and the two dispatchers are those of a template of calls, an instance of the locale
  \<open>call_link\<close>: \<open>EndToEnd\<close> for \<^verbatim>\<open>msg/rpc.h\<close>, \<open>PbRpc\<close> for \<^verbatim>\<open>pbmsg/pbrpc.h\<close>. The network hands each end the
  bytes the other sent, cut into any reads.
\<close>

subsection \<open>Frames in pieces\<close>

text \<open>A frame read in pieces of the lengths given, the rest at once.\<close>

fun pieces :: "nat list \<Rightarrow> 'b list \<Rightarrow> 'b list list" where
  "pieces [] f = (if f = [] then [] else [f])"
| "pieces (n # ns) f = take n f # pieces ns (drop n f)"

definition readable :: "nat list \<Rightarrow> 'b list \<Rightarrow> bool" where
  "readable ns f \<longleftrightarrow> (\<forall>x\<in>set (pieces ns f). x \<noteq> [] \<and> length x \<le> 0x1000) \<and> cuts_ok 4 [f] [] (pieces ns f)"

lemma concat_pieces [simp]: "concat (pieces ns f) = f"
  by (induction ns f rule: pieces.induct) simp_all

context stream_frames
begin

lemma recv_pieces:
  assumes "idle_reader disp c" "ok m" "good st" "readable ns (enc m)" "h = 4"
  shows "\<exists>c'. client_recv fresh (map recv_of (pieces ns (enc m))) c st = Inr (c', act m st) \<and> idle_reader disp c'"
proof -
  have "leftover (map enc [m]) []" using nonempty [OF assms(2)] by simp
  then obtain c' where "client_recv fresh (map recv_of (pieces ns (enc m))) c st = Inr (c', fold act [m] st)"
      "ex_inv (m_iobuf c')" "ex_live (m_iobuf c') = []" "dispatch c' = dispatch c"
      "m_expand_size (base (m_iobuf c')) = 0x1000"
    using recv_frames [of c "[]" "[m]" "pieces ns (enc m)" st fresh] assms
    by (auto simp: idle_reader_def readable_def)
  then show ?thesis using assms(1) by (simp add: idle_reader_def)
qed

end

subsection \<open>The session's end\<close>

text \<open>Callbacks that leave the session alone; they may throw.\<close>

definition quiet_callbacks :: "'c callbacks \<Rightarrow> bool" where
  "quiet_callbacks usr \<longleftrightarrow> (\<forall>c r s. usr c r s = Done () s \<or> usr c r s = Threw s)"

definition in_flight :: "'c msgsession \<Rightarrow> bool" where
  "in_flight s \<longleftrightarrow> ms_valid s \<and> ms_sends s = [] \<and>
     ms_state s = (if ms_list s = [] then e_state_waiting else e_state_query)"

text \<open>What an answer does: the first query is answered, the next one sent.\<close>

definition next_sent :: "'c rpcquery list \<Rightarrow> 'c event list" where
  "next_sent l = (case l of [] \<Rightarrow> [] | q # _ \<Rightarrow> [Sent (q_msg q)])"

definition session_answer :: "msg_results \<Rightarrow> 'c msgsession \<Rightarrow> 'c msgsession" where
  "session_answer r s = (case ms_list s of
     [] \<Rightarrow> s
   | q # rest \<Rightarrow> s\<lparr>ms_list := rest, ms_state := (if rest = [] then e_state_waiting else e_state_query),
       ms_trace := ms_trace s @ Answered (q_callback q) r # next_sent rest\<rparr>)"

lemma send_next_run:
  assumes "ms_valid s" "ms_sends s = []" "ms_state s = e_state_waiting"
  shows "ms_send_next usr fd s = Done () (s\<lparr>ms_state := (if ms_list s = [] then e_state_waiting else e_state_query),
    ms_trace := ms_trace s @ next_sent (ms_list s)\<rparr>)"
  using assms by (cases "ms_list s") (simp_all add: ms_send_next_def next_sent_def ms_client_send_def MsgSession.emit_def)

lemma dispatch_run:
  assumes "in_flight s" "quiet_callbacks usr" "m_dispatch t cmd = None"
  shows "snd (dispatch_msg nd usr fd t cmd e n xs) s = Done () (session_answer (results_set e n xs) s)"
proof (cases "ms_list s")
  case Nil
  then have "ms_send_next usr fd s = Done () s"
    using send_next_run [of s usr fd] assms(1) by (simp add: in_flight_def next_sent_def)
  then show ?thesis using Nil assms(3) by (simp add: dispatch_msg_def ms_on_dispatch_def session_answer_def)
next
  case (Cons q rest)
  let ?r = "results_set e n xs"
  let ?s = "s\<lparr>ms_state := e_state_waiting, ms_list := rest, ms_trace := ms_trace s @ [Answered (q_callback q) ?r]\<rparr>"
  have "try_catch (call_back usr (q_callback q) ?r) ?s = Done () ?s"
    using assms(2) [unfolded quiet_callbacks_def, rule_format, of "the (q_callback q)" ?r ?s]
    by (cases "q_callback q") (auto simp: call_back_def try_catch_def)
  then have "ms_on_dispatch nd usr e n xs s = Done () ?s"
    using Cons assms(1) by (simp add: ms_on_dispatch_def in_flight_def pop_query_def)
  moreover have "ms_send_next usr fd ?s = Done () (session_answer ?r s)"
    using send_next_run [of ?s usr fd] Cons assms(1) by (simp add: in_flight_def session_answer_def ms_valid_def)
  ultimately show ?thesis using assms(3) by (simp add: dispatch_msg_def)
qed

lemma session_answer_in_flight: "in_flight s \<Longrightarrow> in_flight (session_answer r s)"
  by (auto simp: in_flight_def session_answer_def ms_valid_def split: list.splits)

text \<open>What the callbacks of the queries were given.\<close>

fun results_of :: "'c event list \<Rightarrow> ('c option \<times> msg_results) list" where
  "results_of [] = []"
| "results_of (Answered cb r # es) = (cb, r) # results_of es"
| "results_of (_ # es) = results_of es"

lemma results_of_append [simp]: "results_of (xs @ ys) = results_of xs @ results_of ys"
  by (induction xs rule: results_of.induct) simp_all

lemma results_of_next [simp]: "results_of (next_sent l) = []"
  by (cases l) (simp_all add: next_sent_def)

subsection \<open>The two ends joined\<close>

record ('k, 'c) link =
  l_session :: "'c msgsession"
  l_reader :: "'c msgsession client"
  l_server :: "'k controllers"
  l_accepted :: "'k controllers client"

definition last_sent :: "'c event list \<Rightarrow> byte list option" where
  "last_sent tr = foldl (\<lambda>m e. case e of Sent x \<Rightarrow> Some x | _ \<Rightarrow> m) None tr"

lemma last_sent_simps [simp]:
  "last_sent (tr @ [Sent m]) = Some m" "last_sent (tr @ [Answered cb r]) = last_sent tr"
  "last_sent (tr @ [Submitted cb]) = last_sent tr"
  by (simp_all add: last_sent_def)

text \<open>The frame in flight goes to the server in the pieces \<open>fst ns\<close>; what the server sends in turn
  comes back in the pieces \<open>snd ns\<close>.\<close>

definition exchange :: "(nat \<Rightarrow> byte) \<Rightarrow> nat list \<times> nat list \<Rightarrow> ('k, 'c) link \<Rightarrow> ('k, 'c) link res" where
  "exchange fresh ns l =
     (case last_sent (ms_trace (l_session l)) of
        None \<Rightarrow> Inr l
      | Some f \<Rightarrow>
          bind_res (client_recv fresh (map recv_of (pieces (fst ns) f)) (l_accepted l) (l_server l)) (\<lambda>(acc, srv).
            let g = concat (map (snd \<circ> snd) (drop (length (k_sent (l_server l))) (k_sent srv)))
            in bind_res (client_recv fresh (map recv_of (pieces (snd ns) g)) (l_reader l) (l_session l)) (\<lambda>(rd, ses).
                 Inr \<lparr>l_session = ses, l_reader = rd, l_server = srv, l_accepted = acc\<rparr>)))"

fun exchanges :: "(nat \<Rightarrow> byte) \<Rightarrow> (nat list \<times> nat list) list \<Rightarrow> ('k, 'c) link \<Rightarrow> ('k, 'c) link res" where
  "exchanges fresh [] l = Inr l"
| "exchanges fresh (ns # nss) l = bind_res (exchange fresh ns l) (exchanges fresh nss)"

text \<open>A query of a template on a session; \<open>ser\<close> builds its frame.\<close>

definition ask :: "('q \<Rightarrow> byte list res) \<Rightarrow> 'c callbacks \<Rightarrow> int \<Rightarrow> 'q \<times> 'c \<Rightarrow> ('c msgsession, unit) prog" where
  "ask ser usr fd = (\<lambda>(q, c). case ser q of Inl e \<Rightarrow> stuck e | Inr f \<Rightarrow> query usr fd f (Some c))"

text \<open>A session that has just connected to a server that has just accepted, and the queries made.\<close>

definition open_link :: "('q \<Rightarrow> byte list res) \<Rightarrow> 'c callbacks \<Rightarrow> 'c msgsession dispatcher \<Rightarrow>
    'k controllers dispatcher \<Rightarrow> int \<Rightarrow> int \<Rightarrow> (nat \<Rightarrow> byte) \<Rightarrow> ('q \<times> 'c) list \<Rightarrow> ('k, 'c) link res" where
  "open_link ser usr cl srv fd cli fresh calls =
     bind_res (as_res (bnd (on_connect usr skip fd) (\<lambda>_. each (ask ser usr fd) calls)) msgsession_new) (\<lambda>ses.
       Inr \<lparr>l_session = ses, l_reader = client_with fresh 0 fd cl,
            l_server = controllers_new, l_accepted = client_with fresh 0 cli srv\<rparr>)"

definition entry_of :: "('q \<Rightarrow> byte list) \<Rightarrow> 'q \<times> 'c \<Rightarrow> 'c rpcquery" where
  "entry_of req = (\<lambda>(q, c). \<lparr>q_msg = req q, q_callback = Some c, q_tstamp = 0\<rparr>)"

subsection \<open>Templates of calls\<close>

text \<open>For queries that are \<open>fine\<close>: the frame is \<open>req\<close>; read in any pieces by the server, which keeps its
  invariant, it makes it send \<open>res\<close>; and that, read in any pieces by a session with the query in flight,
  answers it with \<open>results\<close>.\<close>

locale call_link =
  fixes ser :: "'q \<Rightarrow> byte list res"
    and cl :: "'c msgsession dispatcher"
    and srv :: "'k controllers dispatcher"
    and inv :: "'k controllers \<Rightarrow> bool"
    and fine :: "'q \<Rightarrow> bool"
    and req :: "'q \<Rightarrow> byte list"
    and res :: "'q \<Rightarrow> byte list"
    and results :: "'q \<Rightarrow> msg_results"
  assumes new: "inv controllers_new"
    and written: "fine q \<Longrightarrow> ser q = Inr (req q)"
    and serves: "fine q \<Longrightarrow> idle_reader srv acc \<Longrightarrow> inv st \<Longrightarrow> readable ns (req q) \<Longrightarrow>
      \<exists>acc' st' i to. client_recv fresh (map recv_of (pieces ns (req q))) acc st = Inr (acc', st') \<and>
        idle_reader srv acc' \<and> inv st' \<and> k_sent st' = k_sent st @ [(i, to, res q)]"
    and answers: "fine q \<Longrightarrow> idle_reader cl rd \<Longrightarrow> in_flight ses \<Longrightarrow> readable ns (res q) \<Longrightarrow>
      \<exists>rd'. client_recv fresh (map recv_of (pieces ns (res q))) rd ses = Inr (rd', session_answer (results q) ses) \<and>
        idle_reader cl rd'"
begin

definition link_inv :: "('q \<times> 'c) list \<Rightarrow> ('k, 'c) link \<Rightarrow> bool" where
  "link_inv calls l \<longleftrightarrow>
     in_flight (l_session l) \<and> inv (l_server l) \<and> idle_reader cl (l_reader l) \<and> idle_reader srv (l_accepted l) \<and>
     ms_list (l_session l) = map (entry_of req) calls \<and>
     (calls \<noteq> [] \<longrightarrow> last_sent (ms_trace (l_session l)) = Some (req (fst (hd calls))))"

lemma exchange_answers:
  assumes "fine q" "link_inv ((q, c) # calls) l" "readable (fst ns) (req q)" "readable (snd ns) (res q)"
  shows "\<exists>l'. exchange fresh ns l = Inr l' \<and> link_inv calls l' \<and>
    results_of (ms_trace (l_session l')) = results_of (ms_trace (l_session l)) @ [(Some c, results q)] \<and>
    length (k_sent (l_server l')) = length (k_sent (l_server l)) + 1"
proof -
  let ?ses = "session_answer (results q) (l_session l)"
  have i: "in_flight (l_session l)" "inv (l_server l)" "idle_reader cl (l_reader l)" "idle_reader srv (l_accepted l)"
    "ms_list (l_session l) = entry_of req (q, c) # map (entry_of req) calls"
    "last_sent (ms_trace (l_session l)) = Some (req q)"
    using assms(2) by (simp_all add: link_inv_def)
  obtain acc srv' i to where acc: "client_recv fresh (map recv_of (pieces (fst ns) (req q))) (l_accepted l) (l_server l) =
      Inr (acc, srv')" "idle_reader srv acc" "inv srv'" "k_sent srv' = k_sent (l_server l) @ [(i, to, res q)]"
    using serves [OF assms(1) i(4,2) assms(3)] by blast
  obtain rd where rd: "client_recv fresh (map recv_of (pieces (snd ns) (res q))) (l_reader l) (l_session l) =
      Inr (rd, ?ses)" "idle_reader cl rd"
    using answers [OF assms(1) i(3,1) assms(4)] by blast
  let ?l = "\<lparr>l_session = ?ses, l_reader = rd, l_server = srv', l_accepted = acc\<rparr>"
  have "last_sent (ms_trace ?ses) = Some (req (fst (hd calls)))" if "calls \<noteq> []"
  proof -
    obtain q' c' calls' where "calls = (q', c') # calls'" using \<open>calls \<noteq> []\<close> by (cases calls) auto
    then show ?thesis using i(5) last_sent_simps(1) [of "ms_trace (l_session l) @ [Answered (Some c) r]" for r]
      by (simp add: session_answer_def next_sent_def entry_of_def)
  qed
  then have "link_inv calls ?l"
    using acc(2,3) rd(2) session_answer_in_flight [OF i(1)] i(5) by (auto simp: link_inv_def session_answer_def)
  moreover have "exchange fresh ns l = Inr ?l"
    using i(6) acc(1,4) rd(1) by (simp add: exchange_def Let_def)
  ultimately show ?thesis using i(5) acc(4) by (simp add: session_answer_def entry_of_def)
qed

lemma exchanges_answer:
  "list_all2 (\<lambda>ns (q, c). fine q \<and> readable (fst ns) (req q) \<and> readable (snd ns) (res q)) nss calls \<Longrightarrow>
    link_inv calls l \<Longrightarrow>
    \<exists>l'. exchanges fresh nss l = Inr l' \<and> link_inv [] l' \<and>
      results_of (ms_trace (l_session l')) = results_of (ms_trace (l_session l)) @ map (\<lambda>(q, c). (Some c, results q)) calls \<and>
      length (k_sent (l_server l')) = length (k_sent (l_server l)) + length calls"
proof (induction nss calls arbitrary: l rule: list_all2_induct)
  case Nil
  then show ?case by simp
next
  case (Cons ns nss call calls)
  obtain q c where call: "call = (q, c)" by (cases call)
  obtain l1 where l1: "exchange fresh ns l = Inr l1" "link_inv calls l1"
    "results_of (ms_trace (l_session l1)) = results_of (ms_trace (l_session l)) @ [(Some c, results q)]"
    "length (k_sent (l_server l1)) = length (k_sent (l_server l)) + 1"
    using exchange_answers [of q c calls l ns fresh] Cons call by auto
  then show ?case using Cons.IH [OF l1(2)] call by auto
qed

text \<open>Queries on a session that has just connected: the first goes out, the others wait.\<close>

lemma asks_run:
  "\<forall>(q, c)\<in>set calls. fine q \<Longrightarrow> in_flight s \<Longrightarrow> ms_now s = 0 \<Longrightarrow> ms_list s = map (entry_of req) made \<Longrightarrow>
      (made \<noteq> [] \<longrightarrow> last_sent (ms_trace s) = Some (req (fst (hd made)))) \<Longrightarrow>
    \<exists>s'. each (ask ser usr fd) calls s = Done () s' \<and> in_flight s' \<and>
      ms_list s' = map (entry_of req) (made @ calls) \<and>
      (made @ calls \<noteq> [] \<longrightarrow> last_sent (ms_trace s') = Some (req (fst (hd (made @ calls))))) \<and>
      results_of (ms_trace s') = results_of (ms_trace s)"
proof (induction calls arbitrary: s made)
  case Nil
  then show ?case by simp
next
  case (Cons call calls)
  obtain q c where call: "call = (q, c)" by (cases call)
  let ?s = "s\<lparr>ms_list := ms_list s @ [entry_of req call], ms_trace := ms_trace s @ [Submitted (Some c)]\<rparr>"
  let ?t = "?s\<lparr>ms_state := e_state_query, ms_trace := ms_trace ?s @ (if made = [] then [Sent (req q)] else [])\<rparr>"
  have "ser q = Inr (req q)" using written Cons.prems(1) call by simp
  moreover have "ms_send_next usr fd ?s = Done () ?t"
  proof (cases "made = []")
    case True
    then show ?thesis
      using send_next_run [of ?s usr fd] Cons.prems(2,4) call
      by (simp add: in_flight_def ms_valid_def next_sent_def entry_of_def)
  next
    case False
    then show ?thesis using Cons.prems(2,4) by (simp add: ms_send_next_def in_flight_def ms_valid_def)
  qed
  ultimately have run: "ask ser usr fd call s = Done () ?t"
    using Cons.prems(3) call by (simp add: ask_def query_def entry_of_def)
  have "in_flight ?t" using Cons.prems(2) by (simp add: in_flight_def ms_valid_def)
  moreover have "last_sent (ms_trace ?t) = Some (req (fst (hd (made @ [call]))))"
    using Cons.prems(5) last_sent_simps(1) [of "ms_trace s @ [Submitted (Some c)]" "req q"] call by simp
  moreover have "ms_now ?t = 0" "ms_list ?t = map (entry_of req) (made @ [call])" "\<forall>(q, c)\<in>set calls. fine q"
    using Cons.prems(1,3,4) by simp_all
  ultimately obtain s' where "each (ask ser usr fd) calls ?t = Done () s'" "in_flight s'"
      "ms_list s' = map (entry_of req) ((made @ [call]) @ calls)"
      "last_sent (ms_trace s') = Some (req (fst (hd ((made @ [call]) @ calls))))"
      "results_of (ms_trace s') = results_of (ms_trace ?t)"
    using Cons.IH [of ?t "made @ [call]"] by blast
  moreover have "results_of (ms_trace ?t) = results_of (ms_trace s)" by simp
  ultimately show ?case using run by (intro exI [of _ s']) simp
qed

lemma calls_answered:
  assumes "list_all2 (\<lambda>ns (q, c). fine q \<and> readable (fst ns) (req q) \<and> readable (snd ns) (res q)) nss calls"
  shows "\<exists>l l'. open_link ser usr cl srv fd cli fresh calls = Inr l \<and> exchanges fresh nss l = Inr l' \<and>
    ms_list (l_session l') = [] \<and>
    results_of (ms_trace (l_session l')) = map (\<lambda>(q, c). (Some c, results q)) calls \<and>
    length (k_sent (l_server l')) = length calls"
proof -
  let ?s = "msgsession_new\<lparr>ms_client := Some True, ms_state := e_state_waiting\<rparr> :: 'c msgsession"
  have opened: "on_connect usr skip fd msgsession_new = Done () ?s"
    by (simp add: on_connect_def msgsession_new_def ms_send_next_def)
  have "in_flight ?s" "ms_now ?s = 0" "ms_list ?s = map (entry_of req) []" "results_of (ms_trace ?s) = []"
    by (simp_all add: in_flight_def msgsession_new_def ms_valid_def)
  moreover have "\<forall>(q, c)\<in>set calls. fine q" using assms by (induction rule: list_all2_induct) auto
  ultimately obtain s where s: "each (ask ser usr fd) calls ?s = Done () s" "in_flight s"
      "ms_list s = map (entry_of req) calls"
      "calls \<noteq> [] \<longrightarrow> last_sent (ms_trace s) = Some (req (fst (hd calls)))"
      "results_of (ms_trace s) = []"
    using asks_run [of calls ?s "[]" usr fd] by auto
  let ?l = "\<lparr>l_session = s, l_reader = client_with fresh 0 fd cl,
            l_server = controllers_new, l_accepted = client_with fresh 0 cli srv\<rparr>"
  have "open_link ser usr cl srv fd cli fresh calls = Inr ?l"
    using opened s(1) by (simp add: open_link_def as_res_def)
  moreover have l: "link_inv calls ?l"
    using s new by (simp add: link_inv_def idle_client_with)
  obtain l' where "exchanges fresh nss ?l = Inr l'" "link_inv [] l'"
    "results_of (ms_trace (l_session l')) = map (\<lambda>(q, c). (Some c, results q)) calls"
    "length (k_sent (l_server l')) = length calls"
    using exchanges_answer [OF assms l, of fresh] s(5) by (auto simp: controllers_new_def)
  ultimately show ?thesis by (auto simp: link_inv_def)
qed

end

end
