(* ===== verification/Registry.thy ===== *)
theory Registry
  imports Prelude
begin

text \<open>
  The tables a program registers things in: the object pool (\<^verbatim>\<open>pool.h\<close>,
  \<^verbatim>\<open>object.h\<close>), the process-wide events (\<^verbatim>\<open>net/asyncevent.cpp\<close>, \<^verbatim>\<open>myevent.h\<close>) and
  the router of a message server (\<^verbatim>\<open>service/msgserver.inl\<close>). A \<^verbatim>\<open>std::map\<close> is the list
  of its entries in key order, an \<^verbatim>\<open>unordered_map\<close> whose order nothing reads a map. The
  locale \<open>registry\<close> is the contract all of them have in common: looking a key up gives the
  value it was first registered with.
\<close>

subsection \<open>The contract\<close>

locale registry =
  fixes nothing :: 't
    and add :: "'k \<Rightarrow> 'v \<Rightarrow> 't \<Rightarrow> 't"
    and lookup :: "'t \<Rightarrow> 'k \<Rightarrow> 'v option"
    and good :: "'t \<Rightarrow> bool"
  assumes good_nothing: "good nothing"
    and good_add: "good t \<Longrightarrow> good (add k v t)"
    and lookup_nothing: "lookup nothing k = None"
    and lookup_add: "good t \<Longrightarrow>
      lookup (add k v t) j = (if j = k \<and> lookup t k = None then Some v else lookup t j)"
begin

definition add_all :: "('k \<times> 'v) list \<Rightarrow> 't \<Rightarrow> 't" where
  "add_all kvs t = foldl (\<lambda>t (k, v). add k v t) t kvs"

lemma add_all_onto:
  "good t \<Longrightarrow> good (add_all kvs t) \<and>
   lookup (add_all kvs t) k = (case lookup t k of Some v \<Rightarrow> Some v | None \<Rightarrow> map_of kvs k)"
proof (induction kvs arbitrary: t)
  case Nil
  then show ?case by (simp add: add_all_def split: option.splits)
next
  case (Cons kv kvs)
  obtain j v where kv: "kv = (j, v)" by (cases kv)
  have "good (add j v t)" using Cons.prems by (rule good_add)
  from Cons.IH [OF this] show ?case
    using Cons.prems by (auto simp: add_all_def kv lookup_add split: option.splits)
qed

lemma first_wins: "lookup (add_all kvs nothing) k = map_of kvs k"
  using add_all_onto [OF good_nothing] by (simp add: lookup_nothing)

lemma add_all_good: "good (add_all kvs nothing)"
  using add_all_onto [OF good_nothing] by simp

end

subsection \<open>Ordered maps\<close>

text \<open>\<^verbatim>\<open>std::map\<close>: \<^verbatim>\<open>emplace\<close>, \<^verbatim>\<open>find\<close>, \<^verbatim>\<open>erase\<close> on the entries in key order.\<close>

fun omap_emplace :: "'k::linorder \<Rightarrow> 'v \<Rightarrow> ('k \<times> 'v) list \<Rightarrow> ('k \<times> 'v) list" where
  "omap_emplace k v [] = [(k, v)]"
| "omap_emplace k v ((j, w) # m) =
     (if k < j then (k, v) # (j, w) # m
      else if k = j then (j, w) # m
      else (j, w) # omap_emplace k v m)"

definition omap_erase :: "'k \<Rightarrow> ('k \<times> 'v) list \<Rightarrow> ('k \<times> 'v) list" where
  "omap_erase k m = filter (\<lambda>(j, _). j \<noteq> k) m"

definition omap_ok :: "('k::linorder \<times> 'v) list \<Rightarrow> bool" where
  "omap_ok m \<longleftrightarrow> sorted_wrt (<) (map fst m)"

lemma omap_ok_Nil: "omap_ok []"
  by (simp add: omap_ok_def)

lemma omap_emplace_keys: "fst ` set (omap_emplace k v m) = insert k (fst ` set m)"
  by (induction m rule: omap_emplace.induct) auto

lemma omap_ok_emplace: "omap_ok m \<Longrightarrow> omap_ok (omap_emplace k v m)"
proof (induction k v m rule: omap_emplace.induct)
  case (1 k v)
  then show ?case by (simp add: omap_ok_def)
next
  case (2 k v j w m)
  have "\<forall>x \<in> fst ` set (omap_emplace k v m). j < x" if "j < k"
    using 2(2) that unfolding omap_emplace_keys omap_ok_def by auto
  then show ?case using 2 by (auto simp: omap_ok_def)
qed

lemma omap_ok_erase: "omap_ok m \<Longrightarrow> omap_ok (omap_erase k m)"
  by (induction m) (auto simp: omap_ok_def omap_erase_def)

lemma map_of_emplace:
  "omap_ok m \<Longrightarrow> map_of (omap_emplace k v m) = emplace_map k v (map_of m)"
proof (induction k v m rule: omap_emplace.induct)
  case (1 k v)
  then show ?case by (simp add: emplace_map_def)
next
  case (2 k v j w m)
  have "map_of m k = None" if "k < j"
    using 2(2) that by (fastforce simp: omap_ok_def map_of_eq_None_iff)
  then show ?case using 2
    by (auto simp: omap_ok_def emplace_map_def fun_eq_iff split: option.splits)
qed

lemma map_of_erase: "map_of (omap_erase k m) = (map_of m)(k := None)"
  by (induction m) (auto simp: omap_erase_def fun_eq_iff)

interpretation omap: registry "[]" omap_emplace map_of omap_ok
  by unfold_locales (auto simp: omap_ok_emplace map_of_emplace emplace_map_apply omap_ok_Nil)

subsection \<open>pool\<close>

text \<open>
  \<^verbatim>\<open>pool<_ID, _CLS>\<close>, of shared pointers: \<open>None\<close> is the null pointer. \<open>held\<close> says
  that the calling thread is inside the pool's \<^verbatim>\<open>std::mutex\<close>; taking it again is
  undefined. \<open>'w\<close> is what else the functions passed to \<^verbatim>\<open>for_each\<close> work on.
\<close>

record ('k, 'o, 'w) pool =
  m_objects :: "('k \<times> 'o) list"
  held :: bool
  p_world :: 'w

definition guarded :: "(('k, 'o, 'w) pool, 'a) prog \<Rightarrow> (('k, 'o, 'w) pool, 'a) prog" where
  "guarded m = (\<lambda>s.
     if held s then Stuck Ub
     else case m (s\<lparr>held := True\<rparr>) of
            Done a s' \<Rightarrow> Done a (s'\<lparr>held := False\<rparr>)
          | Threw s' \<Rightarrow> Threw (s'\<lparr>held := False\<rparr>)
          | Stuck e \<Rightarrow> Stuck e)"

definition pool_insert :: "'k::linorder \<Rightarrow> 'o \<Rightarrow> (('k, 'o, 'w) pool, unit) prog" where
  "pool_insert k x = guarded (modify (\<lambda>s. s\<lparr>m_objects := omap_emplace k x (m_objects s)\<rparr>))"

definition pool_erase :: "'k \<Rightarrow> (('k, 'o, 'w) pool, unit) prog" where
  "pool_erase k = guarded (modify (\<lambda>s.
     case map_of (m_objects s) k of
       Some _ \<Rightarrow> s\<lparr>m_objects := omap_erase k (m_objects s)\<rparr>
     | None \<Rightarrow> s))"

definition pool_get :: "'k \<Rightarrow> (('k, 'o, 'w) pool, 'o option) prog" where
  "pool_get k = guarded (gets (\<lambda>s. map_of (m_objects s) k))"

definition pool_for_each ::
    "('k \<Rightarrow> 'o \<Rightarrow> (('k, 'o, 'w) pool, unit) prog) \<Rightarrow> (('k, 'o, 'w) pool, unit) prog" where
  "pool_for_each f = guarded (bnd (gets m_objects) (each (\<lambda>(k, x). f k x)))"

definition pool_new :: "'w \<Rightarrow> ('k, 'o, 'w) pool" where
  "pool_new w = \<lparr>m_objects = [], held = False, p_world = w\<rparr>"

text \<open>\<^verbatim>\<open>object<_ID, _CLS>\<close>: the identifier an object carries, and a number for its identity.\<close>

record 'k obj =
  m_id :: 'k
  ident :: nat

definition insert_pool :: "'k::linorder \<Rightarrow> nat \<Rightarrow> (('k, 'k obj, 'w) pool, 'k obj) prog" where
  "insert_pool k n =
     (let x = \<lparr>m_id = k, ident = n\<rparr> in bnd (pool_insert k x) (\<lambda>_. ret x))"

definition pool_erase_obj :: "'k obj \<Rightarrow> (('k, 'k obj, 'w) pool, unit) prog" where
  "pool_erase_obj x = guarded (modify (\<lambda>s. s\<lparr>m_objects := omap_erase (m_id x) (m_objects s)\<rparr>))"

definition remove_pool :: "'k obj \<Rightarrow> (('k, 'k obj, 'w) pool, unit) prog" where
  "remove_pool x = pool_erase (m_id x)"

lemma guarded_modify:
  "\<not> held s \<Longrightarrow> (\<And>t. held (f t) = held t) \<Longrightarrow>
     guarded (modify f) s = Done () ((f (s\<lparr>held := True\<rparr>))\<lparr>held := False\<rparr>)"
  by (simp add: guarded_def)

lemma pool_ops:
  assumes "\<not> held s"
  shows "pool_insert k x s = Done () (s\<lparr>m_objects := omap_emplace k x (m_objects s)\<rparr>)"
    and "pool_erase k s = Done () (s\<lparr>m_objects := omap_erase k (m_objects s)\<rparr>)"
    and "pool_get k s = Done (map_of (m_objects s) k) s"
proof -
  have gone: "omap_erase k (m_objects s) = m_objects s" if "map_of (m_objects s) k = None"
    using that by (force simp: omap_erase_def map_of_eq_None_iff intro!: filter_True)
  show "pool_insert k x s = Done () (s\<lparr>m_objects := omap_emplace k x (m_objects s)\<rparr>)"
    using assms by (cases s) (simp add: pool_insert_def guarded_def)
  show "pool_erase k s = Done () (s\<lparr>m_objects := omap_erase k (m_objects s)\<rparr>)"
    using assms gone by (cases s) (auto simp: pool_erase_def guarded_def split: option.splits)
  show "pool_get k s = Done (map_of (m_objects s) k) s"
    using assms by (cases s) (simp add: pool_get_def guarded_def)
qed

text \<open>Sequences of operations, and what a map does with them.\<close>

datatype ('k, 'o) pool_op = Insert 'k 'o | Erase 'k | Get 'k

fun pool_run :: "('k::linorder, 'o) pool_op list \<Rightarrow> (('k, 'o, 'w) pool, 'o option list) prog" where
  "pool_run [] = ret []"
| "pool_run (Insert k x # ops) = bnd (pool_insert k x) (\<lambda>_. pool_run ops)"
| "pool_run (Erase k # ops) = bnd (pool_erase k) (\<lambda>_. pool_run ops)"
| "pool_run (Get k # ops) = bnd (pool_get k) (\<lambda>r. bnd (pool_run ops) (\<lambda>rs. ret (r # rs)))"

fun map_run :: "('k, 'o) pool_op list \<Rightarrow> ('k \<rightharpoonup> 'o) \<Rightarrow> 'o option list \<times> ('k \<rightharpoonup> 'o)" where
  "map_run [] m = ([], m)"
| "map_run (Insert k x # ops) m = map_run ops (emplace_map k x m)"
| "map_run (Erase k # ops) m = map_run ops (m(k := None))"
| "map_run (Get k # ops) m = (case map_run ops m of (rs, m') \<Rightarrow> (m k # rs, m'))"

text \<open>C23: A pool is a map from identifiers to objects in which the first registration stays:
  any sequence of \<^verbatim>\<open>insert\<close>, \<^verbatim>\<open>erase\<close> and \<^verbatim>\<open>get\<close> answers what that map answers, leaves
  its contents, keeps the entries in strictly increasing key order (the order \<^verbatim>\<open>for_each\<close> visits
  them in, each once) and the mutex free.\<close>

theorem pool_refines_map:
  assumes "omap_ok (m_objects s)" "\<not> held s"
  shows "\<exists>s'. pool_run ops s = Done (fst (map_run ops (map_of (m_objects s)))) s' \<and>
    map_of (m_objects s') = snd (map_run ops (map_of (m_objects s))) \<and>
    omap_ok (m_objects s') \<and> \<not> held s'"
  using assms
proof (induction ops arbitrary: s rule: pool_run.induct)
  case (2 k x ops)
  then show ?case
    using "2.IH" [of "s\<lparr>m_objects := omap_emplace k x (m_objects s)\<rparr>"]
    by (simp add: pool_ops omap_ok_emplace map_of_emplace)
next
  case (3 k ops)
  then show ?case
    using "3.IH" [of "s\<lparr>m_objects := omap_erase k (m_objects s)\<rparr>"]
    by (simp add: pool_ops omap_ok_erase map_of_erase fun_upd_def)
next
  case (4 k ops)
  obtain s' where "pool_run ops s = Done (fst (map_run ops (map_of (m_objects s)))) s'"
    "map_of (m_objects s') = snd (map_run ops (map_of (m_objects s)))"
    "omap_ok (m_objects s')" "\<not> held s'"
    using "4.IH" [of s] 4(2,3) by blast
  then show ?case using 4(3) by (simp add: pool_ops split: prod.splits)
qed simp

theorem pool_refines_map_witness:
  "\<exists>s'. pool_run [Insert (2::nat) ''b'', Insert 1 ''a'', Insert 2 ''c'', Get 2, Erase 2, Get 2]
      (pool_new ()) = Done [Some ''b'', None] s' \<and> map_of (m_objects s') = [1 \<mapsto> ''a'']"
  using pool_refines_map [of "pool_new ()" "[Insert (2::nat) ''b'', Insert 1 ''a'', Insert 2 ''c'', Get 2, Erase 2, Get 2]"]
  by (auto simp: pool_new_def omap_ok_def emplace_map_def)

text \<open>\<^verbatim>\<open>insert_pool\<close> gives an object the identifier even when another object has it already:
  the new one is not in the pool then, and its \<^verbatim>\<open>remove_pool\<close> takes the other one out.\<close>

theorem duplicate_insert_unregisters_first:
  assumes "\<not> held s" "map_of (m_objects s) k = Some old" "omap_ok (m_objects s)"
  shows "\<exists>t x. insert_pool k n s = Done x t \<and> map_of (m_objects t) k = Some old \<and>
    (\<exists>t'. remove_pool x t = Done () t' \<and> map_of (m_objects t') k = None)"
  using assms
  by (simp add: insert_pool_def remove_pool_def Let_def bnd_def pool_ops map_of_emplace map_of_erase emplace_map_apply)

theorem duplicate_insert_unregisters_first_witness:
  "\<exists>t x. insert_pool 7 1 \<lparr>m_objects = [(7::nat, \<lparr>m_id = 7, ident = 0\<rparr>)], held = False, p_world = ()\<rparr> = Done x t \<and>
     map_of (m_objects t) 7 = Some \<lparr>m_id = 7, ident = 0\<rparr> \<and>
     (\<exists>t'. remove_pool x t = Done () t' \<and> map_of (m_objects t') 7 = None)"
  by (rule duplicate_insert_unregisters_first) (simp_all add: omap_ok_def)

subsection \<open>asyncevent\<close>

text \<open>
  The table of events and the read-write lock, as one thread sees it: it holds the lock
  \<open>readers\<close> times for reading. A write lock asked for by a thread that has the lock is
  undefined (it waits for itself). \<^verbatim>\<open>myevent<T>\<close> passes its argument's address as the data.
\<close>

record ('c, 'w) asyncevent =
  m_events :: "(string \<times> 'c) list"
  readers :: nat
  e_world :: 'w

definition onevent :: "string \<Rightarrow> 'c \<Rightarrow> (('c, 'w) asyncevent, unit) prog" where
  "onevent str cb =
     bnd (gets readers) (\<lambda>n.
       if 0 < n then stuck Ub
       else modify (\<lambda>s. s\<lparr>m_events := m_events s @ (if map_of (m_events s) str = None then [(str, cb)] else [])\<rparr>))"

definition emit :: "('c \<Rightarrow> 'd \<Rightarrow> (('c, 'w) asyncevent, unit) prog) \<Rightarrow> string \<Rightarrow> 'd \<Rightarrow>
    (('c, 'w) asyncevent, unit) prog" where
  "emit usr str d =
     bnd (modify (\<lambda>s. s\<lparr>readers := readers s + 1\<rparr>)) (\<lambda>_.
       bnd (gets (\<lambda>s. map_of (m_events s) str)) (\<lambda>cb.
         bnd (case cb of Some c \<Rightarrow> try_catch (usr c d) | None \<Rightarrow> skip) (\<lambda>_.
           modify (\<lambda>s. s\<lparr>readers := readers s - 1\<rparr>))))"

definition asyncevent_new :: "'w \<Rightarrow> ('c, 'w) asyncevent" where
  "asyncevent_new w = \<lparr>m_events = [], readers = 0, e_world = w\<rparr>"

definition register :: "string \<Rightarrow> 'c \<Rightarrow> ('c, 'w) asyncevent \<Rightarrow> ('c, 'w) asyncevent" where
  "register str cb s = (case onevent str cb s of Done _ s' \<Rightarrow> s' | Threw s' \<Rightarrow> s' | Stuck _ \<Rightarrow> s)"

interpretation events: registry "asyncevent_new w" register "\<lambda>s. map_of (m_events s)"
    "\<lambda>s. readers s = 0" for w
  by unfold_locales
     (auto simp: asyncevent_new_def register_def onevent_def bnd_def map_add_def split: option.splits)

definition reached :: "'s \<Rightarrow> ('a, 's) exec \<Rightarrow> 's" where
  "reached s r = (case r of Done _ t \<Rightarrow> t | Threw t \<Rightarrow> t | Stuck _ \<Rightarrow> s)"

definition goes_on :: "('s \<Rightarrow> 'x) \<Rightarrow> 's \<Rightarrow> ('a, 's) exec \<Rightarrow> bool" where
  "goes_on f s r \<longleftrightarrow> (case r of Done _ t \<Rightarrow> f t = f s | Threw t \<Rightarrow> f t = f s | Stuck _ \<Rightarrow> False)"

lemma try_goes_on: "goes_on f s (m s) \<Longrightarrow> try_catch m s = Done () (reached s (m s)) \<and> f (reached s (m s)) = f s"
  by (cases "m s") (auto simp: goes_on_def try_catch_def reached_def)

text \<open>After any registrations, emitting an event runs the callback that was registered first
  under its name, with the lock held for reading; whatever it throws ends there, and the lock is
  released. An event nobody registered does nothing.\<close>

theorem emit_runs_first_registration:
  assumes "\<And>c t. goes_on readers t (usr c d t)"
    and "T = foldl (\<lambda>s (k, v). register k v s) (asyncevent_new w) kvs"
  shows "emit usr str d T = Done () (case map_of kvs str of
      None \<Rightarrow> T
    | Some c \<Rightarrow> (reached T (usr c d (T\<lparr>readers := 1\<rparr>)))\<lparr>readers := 0\<rparr>)"
proof -
  have T: "map_of (m_events T) str = map_of kvs str" "readers T = 0"
    using events.first_wins [of kvs w] events.add_all_good [of kvs w]
    by (simp_all add: assms(2) events.add_all_def)
  show ?thesis
  proof (cases "map_of kvs str")
    case None
    then show ?thesis using T by (cases T) (simp add: emit_def bnd_def)
  next
    case (Some c)
    have t: "try_catch (usr c d) (T\<lparr>readers := 1\<rparr>) = Done () (reached (T\<lparr>readers := 1\<rparr>) (usr c d (T\<lparr>readers := 1\<rparr>)))"
      "readers (reached (T\<lparr>readers := 1\<rparr>) (usr c d (T\<lparr>readers := 1\<rparr>))) = 1"
      using try_goes_on [of readers "T\<lparr>readers := 1\<rparr>" "usr c d"] assms(1) [of "T\<lparr>readers := 1\<rparr>" c] by fastforce+
    moreover have "reached (T\<lparr>readers := 1\<rparr>) (usr c d (T\<lparr>readers := 1\<rparr>)) = reached T (usr c d (T\<lparr>readers := 1\<rparr>))"
      using assms(1) [of "T\<lparr>readers := 1\<rparr>" c] by (auto simp: reached_def goes_on_def split: exec.splits)
    ultimately show ?thesis using T Some by (simp add: emit_def bnd_def)
  qed
qed

theorem emit_runs_first_registration_witness:
  "emit (\<lambda>c d. bnd (modify (\<lambda>s. s\<lparr>e_world := e_world s + c + d\<rparr>)) (\<lambda>_. throw)) ''login'' (5::nat)
     (foldl (\<lambda>s (k, v). register k v s) (asyncevent_new 0) [(''login'', 10), (''login'', 20)]) =
   Done () \<lparr>m_events = [(''login'', 10)], readers = 0, e_world = 15\<rparr>"
  using emit_runs_first_registration
    [of "\<lambda>c d. bnd (modify (\<lambda>s. s\<lparr>e_world := e_world s + c + d\<rparr>)) (\<lambda>_. throw)" "5::nat" _ 0
       "[(''login'', 10), (''login'', 20)]" "''login''"]
  by (simp add: goes_on_def bnd_def reached_def register_def onevent_def asyncevent_new_def)

text \<open>A callback that registers another event while its own is being emitted asks for the
  write lock its thread already holds for reading: the thread waits for itself.\<close>

theorem register_while_emitting_deadlocks:
  assumes "map_of (m_events s) str = Some c" "\<And>t. usr c d t = onevent other c' t"
  shows "emit usr str d s = Stuck Ub"
  using assms by (simp add: emit_def bnd_def try_catch_def onevent_def)

theorem register_while_emitting_deadlocks_witness:
  "emit (\<lambda>c d. onevent ''b'' (1::nat)) ''a'' () \<lparr>m_events = [(''a'', 0)], readers = 0, e_world = ()\<rparr> = Stuck Ub"
  by (rule register_while_emitting_deadlocks [where c = 0]) simp_all

subsection \<open>msgserver\<close>

text \<open>The router of a server: methods by command. A method is given the session, the data and its
  size; what it does is a program over a state \<open>'s\<close> of the user's. A size of 0 says that the data is
  the parsed message (\<open>pbdispatch\<close>).\<close>

type_synonym ('id, 'c) router = "'id \<rightharpoonup> 'c"

definition add_method :: "'id \<Rightarrow> 'c \<Rightarrow> ('id, 'c) router \<Rightarrow> ('id, 'c) router" where
  "add_method cmd cb r = emplace_map cmd cb r"

definition on_dispatch :: "('c \<Rightarrow> 'ses \<Rightarrow> byte list \<Rightarrow> int \<Rightarrow> ('s, unit) prog) \<Rightarrow> ('id, 'c) router \<Rightarrow> 'ses \<Rightarrow>
    'id \<Rightarrow> byte list \<Rightarrow> int \<Rightarrow> ('s, unit) prog" where
  "on_dispatch usr r ses cmd d n =
     (case r cmd of Some c \<Rightarrow> try_catch (usr c ses d n) | None \<Rightarrow> skip)"

interpretation router: registry Map.empty add_method "\<lambda>r. r" "\<lambda>r. True"
  by unfold_locales (simp_all add: add_method_def emplace_map_apply)

text \<open>A server runs, for a request, the method registered first for its command, once, and lets
  no exception of it reach the connection; requests nobody registered for are ignored.\<close>

theorem dispatch_runs_first_method:
  "on_dispatch usr (foldl (\<lambda>r (k, v). add_method k v r) Map.empty kvs) ses cmd d n s =
     (case map_of kvs cmd of
        None \<Rightarrow> Done () s
      | Some c \<Rightarrow> (case usr c ses d n s of Done _ t \<Rightarrow> Done () t | Threw t \<Rightarrow> Done () t | Stuck e \<Rightarrow> Stuck e))"
proof -
  have "foldl (\<lambda>r (k, v). add_method k v r) Map.empty kvs cmd = map_of kvs cmd"
    using router.first_wins by (simp add: router.add_all_def)
  then show ?thesis by (simp add: on_dispatch_def try_catch_def split: option.splits)
qed

end
