(* ===== verification/Rpc.thy ===== *)
theory Rpc
  imports Msg MsgSession Registry Controllers
begin

text \<open>
  \<^verbatim>\<open>src/src/msg/rpc.h\<close>: typed calls over \<^verbatim>\<open>MSG\<close> frames. On the server a request makes a
  controller (\<open>Controllers\<close>), whose destructor sends the response. On the client a query's callback gets the
  parsed response. The classes \<^verbatim>\<open>protoc\<close> generates are the parameter \<open>proto\<close>: what they serialize to and
  parse from, and a new response. A method is what it does with the controller and whether it throws in
  the end.
\<close>

subsection \<open>The server\<close>

record ('q, 'r) proto =
  p_parse_req :: "byte list \<Rightarrow> 'q"
  p_ser_req :: "'q \<Rightarrow> byte list"
  p_parse_res :: "byte list \<Rightarrow> 'r"
  p_ser_res :: "'r \<Rightarrow> byte list"
  p_new_req :: 'q
  p_new_res :: 'r

type_synonym ('q, 'r) rpc_server = "('q, 'r) controllor controllers"

abbreviation rpc_new :: "('q, 'r) rpc_server" where
  "rpc_new \<equiv> controllers_new"

definition ctl_new :: "('q, 'r) proto \<Rightarrow> int \<Rightarrow> ('q, 'r) controllor" where
  "ctl_new P cli = \<lparr>k_cli = cli, k_error = 0, k_req = p_new_req P, k_res = p_new_res P, k_refs = 1\<rparr>"

text \<open>What the destructor serializes.\<close>

definition ctl_ser :: "i32 \<Rightarrow> ('q, 'r) proto \<Rightarrow> ('q, 'r) controllor \<Rightarrow> byte list res" where
  "ctl_ser CMD P c = rpc_serialize (p_ser_res P) CMD (k_res c) (k_error c)"

type_synonym ('q, 'r) rpc_method = "'q \<Rightarrow> 'r rop list \<times> bool"

text \<open>The lambda \<^verbatim>\<open>rpc::add_method\<close> registers.\<close>

definition rpc_handle ::
    "i32 \<Rightarrow> ('q, 'r) proto \<Rightarrow> ('q, 'r) rpc_method \<Rightarrow> int \<Rightarrow> byte list \<Rightarrow> (('q, 'r) rpc_server, unit) prog" where
  "rpc_handle CMD P meth cli buf =
     bnd (ctl_add (ctl_new P cli)) (\<lambda>i.
       with_local (ctl_drop (ctl_ser CMD P) i)
         (bnd (ctl_update i (\<lambda>c. c\<lparr>k_req := p_parse_req P buf\<rparr>)) (\<lambda>_.
            bnd (gets (\<lambda>s. meth (k_req (k_all s ! i)))) (run_method (run_rop i)))))"

definition rpc_add_method :: "i32 \<Rightarrow> ('q, 'r) rpc_method \<Rightarrow> (i32, ('q, 'r) rpc_method) router \<Rightarrow>
    (i32, ('q, 'r) rpc_method) router" where
  "rpc_add_method CMD meth r = add_method CMD meth r"

text \<open>A server of one command: what its \<^verbatim>\<open>dispatch\<close> does with the bytes a connection holds.\<close>

definition rpc_dispatch :: "i32 \<Rightarrow> ('q, 'r) proto \<Rightarrow> ('q, 'r) rpc_method \<Rightarrow> int \<Rightarrow> byte list \<Rightarrow> int \<Rightarrow>
    ('q, 'r) rpc_server \<Rightarrow> (int \<times> ('q, 'r) rpc_server) res" where
  "rpc_dispatch CMD P meth cli =
     mydispatch_server (\<lambda>s. s) (\<lambda>cmd xs.
       as_res (on_dispatch (\<lambda>m cli d n. rpc_handle CMD P m cli d) (rpc_add_method CMD meth Map.empty) cli cmd xs
                 (int (length xs))))"

subsection \<open>The client\<close>

text \<open>\<^verbatim>\<open>rpc::query\<close>: the frame given to \<^verbatim>\<open>msgsession::query\<close>; \<^verbatim>\<open>__oncallback\<close>: the
  arguments the user's callback gets of a result.\<close>

definition rpc_query :: "i32 \<Rightarrow> ('q, 'r) proto \<Rightarrow> 'q \<Rightarrow> byte list res" where
  "rpc_query CMD P q = rpc_serialize (p_ser_req P) CMD q 0"

definition rpc_oncallback :: "('q, 'r) proto \<Rightarrow> msg_results \<Rightarrow> int \<times> 'r option" where
  "rpc_oncallback P r =
     (if 0 < len r then (last_error r, Some (p_parse_res P (take (nat (len r)) (data r))))
      else (last_error r, None))"

definition rpc_onevent :: "bool \<Rightarrow> i32 \<Rightarrow> 'c \<Rightarrow> (i32, 'c) msgdispatch \<Rightarrow> (i32, 'c) msgdispatch res" where
  "rpc_onevent nd CMD cb t = MsgSession.onevent nd CMD cb t"

definition rpc_request :: "i32 \<Rightarrow> ('q, 'r) proto \<Rightarrow> bool \<Rightarrow> i32 \<Rightarrow> 'q \<Rightarrow> byte list option res" where
  "rpc_request CMD P cli err q =
     (if cli then bind_res (rpc_serialize (p_ser_req P) CMD q err) (\<lambda>f. Inr (Some f)) else Inr None)"

definition rpc_response :: "i32 \<Rightarrow> ('q, 'r) proto \<Rightarrow> bool \<Rightarrow> i32 \<Rightarrow> 'r \<Rightarrow> byte list option res" where
  "rpc_response CMD P cli err r =
     (if cli then bind_res (rpc_serialize (p_ser_res P) CMD r err) (\<lambda>f. Inr (Some f)) else Inr None)"


subsection \<open>Runs of a server\<close>

definition rpc_step :: "i32 \<Rightarrow> ('q, 'r) proto \<Rightarrow> ('q, 'r) rpc_method \<Rightarrow> 'r rop rpc_stim \<Rightarrow>
    (('q, 'r) rpc_server, unit) prog" where
  "rpc_step CMD P meth = ctl_step (ctl_ser CMD P) run_rop (rpc_handle CMD P meth)"

text \<open>Messages are below the 2 GB protobuf allows, less the header.\<close>

definition small_messages :: "('q, 'r) proto \<Rightarrow> bool" where
  "small_messages P \<longleftrightarrow> (\<forall>q. sizeof_MSG + length (p_ser_req P q) < 2 ^ 31) \<and>
     (\<forall>r. sizeof_MSG + length (p_ser_res P r) < 2 ^ 31)"

definition ctl_frame :: "i32 \<Rightarrow> ('q, 'r) proto \<Rightarrow> ('q, 'r) controllor \<Rightarrow> byte list" where
  "ctl_frame CMD P c = MSG_bytes CMD (k_error c) (p_ser_res P (k_res c))"

definition response_of :: "i32 \<Rightarrow> ('q, 'r) proto \<Rightarrow> ('q, 'r) controllor \<Rightarrow> int \<times> byte list" where
  "response_of CMD P c = (k_cli c, ctl_frame CMD P c)"

lemma rpc_serialize_small:
  assumes "small_messages P"
  shows "rpc_serialize (p_ser_res P) CMD r e = Inr (MSG_bytes CMD e (p_ser_res P r))"
    "rpc_serialize (p_ser_req P) CMD q e = Inr (MSG_bytes CMD e (p_ser_req P q))"
proof -
  have "sizeof_MSG + length (p_ser_res P r) < 2 ^ 31" "sizeof_MSG + length (p_ser_req P q) < 2 ^ 31"
    using assms by (simp_all add: small_messages_def)
  then show "rpc_serialize (p_ser_res P) CMD r e = Inr (MSG_bytes CMD e (p_ser_res P r))"
    "rpc_serialize (p_ser_req P) CMD q e = Inr (MSG_bytes CMD e (p_ser_req P q))"
    by (simp_all add: rpc_serialize_bytes)
qed

interpretation rpc: responder "small_messages P" "ctl_ser CMD P" "ctl_frame CMD P" run_rop
  for P :: "('q, 'r) proto" and CMD
  by unfold_locales (simp_all add: ctl_ser_def ctl_frame_def rpc_serialize_small answered_rop)

lemma answered_handle:
  assumes "small_messages P"
  shows "keeps (answered (ctl_frame CMD P)) (try_catch (rpc_handle CMD P meth cli buf))"
proof (rule keepsI)
  fix s assume s: "answered (ctl_frame CMD P) s"
  have "keeps (answered_holding (ctl_frame CMD P) i) (try_catch
      (bnd (ctl_update i (\<lambda>c. c\<lparr>k_req := p_parse_req P buf\<rparr>)) (\<lambda>_.
         bnd (gets (\<lambda>s. meth (k_req (k_all s ! i)))) (run_method (run_rop i)))))" for i
    by (intro keeps_try_bnd answered_update keeps_basic rpc.try_method_keeps) simp
  then show "\<exists>a s'. try_catch (rpc_handle CMD P meth cli buf) s = Done a s' \<and> answered (ctl_frame CMD P) s'"
    unfolding rpc_handle_def using rpc.answered_scope [OF assms s] by (simp add: ctl_new_def)
qed

text \<open>C31: Whatever a method does with its controller (answer at once, keep it for later, throw) and whatever
  is done with the kept ones, a server answers each request at most once, and has answered it exactly when
  the last reference to its controller is gone: with the error and the response the controller held then,
  in a frame to the session the request came from.\<close>

theorem rpc_answers_once:
  assumes "small_messages P"
  shows "\<exists>s. each (rpc_step CMD P meth) xs rpc_new = Done () s \<and> distinct (map fst (k_sent s)) \<and>
    fst ` set (k_sent s) = {i. i < length (k_all s) \<and> k_refs (k_all s ! i) = 0} \<and>
    k_sent s = map (\<lambda>i. (i, response_of CMD P (k_all s ! i))) (map fst (k_sent s))"
  using rpc.answers_once [OF assms, of CMD "rpc_handle CMD P meth" xs] answered_handle [OF assms]
  unfolding rpc_step_def response_of_def by blast

theorem rpc_answers_once_witness:
  "\<exists>s. each (rpc_step 1 \<lparr>p_parse_req = (\<lambda>b. b), p_ser_req = take 8, p_parse_res = (\<lambda>b. b), p_ser_res = take 8,
           p_new_req = [], p_new_res = []\<rparr> (\<lambda>q. if q = [1] then ([Keep], True) else ([Set_response q], False)))
        [Request 4 [1], Request 4 [2], Late 0 (Set_error 3), Release 0] rpc_new = Done () s \<and>
     distinct (map fst (k_sent s)) \<and>
     fst ` set (k_sent s) = {i. i < length (k_all s) \<and> k_refs (k_all s ! i) = 0} \<and>
     k_sent s = map (\<lambda>i. (i, response_of 1 \<lparr>p_parse_req = (\<lambda>b. b), p_ser_req = take 8, p_parse_res = (\<lambda>b. b),
       p_ser_res = take 8, p_new_req = [], p_new_res = []\<rparr> (k_all s ! i))) (map fst (k_sent s))"
  by (rule rpc_answers_once) (simp add: small_messages_def sizeof_MSG_def min_def)


subsection \<open>Methods that answer at once\<close>

fun outcome :: "i32 \<times> 'r \<Rightarrow> 'r rop list \<Rightarrow> i32 \<times> 'r" where
  "outcome er [] = er"
| "outcome (e, r) (Set_error e' # ops) = outcome (e', r) ops"
| "outcome (e, r) (Set_response r' # ops) = outcome (e, r') ops"
| "outcome er (Keep # ops) = outcome er ops"

definition reply :: "('q, 'r) proto \<Rightarrow> ('q, 'r) rpc_method \<Rightarrow> 'q \<Rightarrow> i32 \<times> 'r" where
  "reply P meth q = outcome (0, p_new_res P) (fst (meth q))"

lemma rops_outcome:
  assumes "k_all s = cs @ [c]" "0 < k_refs c" "Keep \<notin> set ops"
  shows "each (run_rop (length cs)) ops s =
    Done () (s\<lparr>k_all := cs @ [c\<lparr>k_error := fst (outcome (k_error c, k_res c) ops),
                                 k_res := snd (outcome (k_error c, k_res c) ops)\<rparr>]\<rparr>)"
  using assms
proof (induction ops arbitrary: s c)
  case (Cons op ops)
  show ?case
  proof (cases op)
    case (Set_error e)
    have "run_rop (length cs) op s = Done () (s\<lparr>k_all := cs @ [c\<lparr>k_error := e\<rparr>]\<rparr>)"
      using Cons.prems Set_error by (simp add: set_error_def ctl_update_def)
    then show ?thesis
      using Cons.IH [of "s\<lparr>k_all := cs @ [c\<lparr>k_error := e\<rparr>]\<rparr>" "c\<lparr>k_error := e\<rparr>"] Cons.prems Set_error by simp
  next
    case (Set_response r)
    have "run_rop (length cs) op s = Done () (s\<lparr>k_all := cs @ [c\<lparr>k_res := r\<rparr>]\<rparr>)"
      using Cons.prems Set_response by (simp add: ctl_update_def)
    then show ?thesis
      using Cons.IH [of "s\<lparr>k_all := cs @ [c\<lparr>k_res := r\<rparr>]\<rparr>" "c\<lparr>k_res := r\<rparr>"] Cons.prems Set_response by simp
  qed (use Cons.prems in simp)
qed simp

lemma handle_replies:
  assumes "small_messages P" "Keep \<notin> set (fst (meth (p_parse_req P buf)))"
  shows "\<exists>s'. try_catch (rpc_handle CMD P meth cli buf) s = Done () s' \<and>
    k_sent s' = k_sent s @ [(length (k_all s), cli,
      MSG_bytes CMD (fst (reply P meth (p_parse_req P buf))) (p_ser_res P (snd (reply P meth (p_parse_req P buf)))))]"
proof -
  obtain ops thrown where m: "meth (p_parse_req P buf) = (ops, thrown)" by fastforce
  let ?c = "\<lparr>k_cli = cli, k_error = 0, k_req = p_parse_req P buf, k_res = p_new_res P, k_refs = 1\<rparr>"
  let ?s = "s\<lparr>k_all := k_all s @ [?c]\<rparr>"
  have "each (run_rop (length (k_all s))) ops ?s =
      Done () (?s\<lparr>k_all := k_all s @ [?c\<lparr>k_error := fst (outcome (0, p_new_res P) ops),
                                         k_res := snd (outcome (0, p_new_res P) ops)\<rparr>]\<rparr>)"
    using rops_outcome [of ?s "k_all s" ?c ops] assms(2) m by simp
  then show ?thesis
    using m rpc_serialize_small(1) [OF assms(1)]
    by (cases thrown)
       (simp_all add: rpc_handle_def ctl_new_def ctl_add_def ctl_update_def with_local_def run_method_def ctl_drop_def
          ctl_ser_def ctl_destroy_def Let_def try_catch_def reply_def)
qed

text \<open>C29: With a library that parses what it serialized, a call comes through: the frame of
  \<^verbatim>\<open>rpc::query\<close>, with whatever follows it, is consumed whole by the server, which sends the session one
  response; and the frame of that, consumed whole by the client, hands the callback the error the method
  set and the response it built (a null pointer where that serializes to nothing), also when the
  method throws after building it.\<close>

theorem rpc_roundtrip:
  assumes "small_messages P" "\<And>q. p_parse_req P (p_ser_req P q) = q" "\<And>r. p_parse_res P (p_ser_res P r) = r"
    and "p_ser_req P q \<noteq> []" "Keep \<notin> set (fst (meth q))" "reply P meth q = (e, r)"
  shows "\<exists>f s' g. rpc_query CMD P q = Inr f \<and>
    rpc_dispatch CMD P meth cli (f @ rest) (int (length f)) s = Inr (int (length f), s') \<and>
    k_sent s' = k_sent s @ [(length (k_all s), cli, g)] \<and>
    mydispatch_client (\<lambda>x. x) (\<lambda>cmd err d x. Inr (x @ [rpc_oncallback P (results_set (sint err) (int (length d)) d)]))
      (g @ rest') (int (length g)) [] =
      Inr (int (length g), [(sint e, if p_ser_res P r = [] then None else Some r)])"
proof -
  let ?f = "MSG_bytes CMD 0 (p_ser_req P q)" and ?g = "MSG_bytes CMD e (p_ser_res P r)"
  have f: "rpc_query CMD P q = Inr ?f" using rpc_serialize_small(2) [OF assms(1)] by (simp add: rpc_query_def)
  have small: "sizeof_MSG + length (p_ser_req P q) < 2 ^ 31" "sizeof_MSG + length (p_ser_res P r) < 2 ^ 31"
    using assms(1) by (simp_all add: small_messages_def)
  obtain s' where s': "try_catch (rpc_handle CMD P meth cli (p_ser_req P q)) s = Done () s'"
    "k_sent s' = k_sent s @ [(length (k_all s), cli, ?g)]"
    using handle_replies [OF assms(1), of meth "p_ser_req P q" CMD cli s] assms(2,5,6) by auto
  have "rpc_dispatch CMD P meth cli (?f @ rest) (int (length ?f)) s = Inr (int (length ?f), s')"
    unfolding rpc_dispatch_def
    by (subst mydispatch_server_full [OF refl small(1)])
       (use assms(4) s'(1) in \<open>simp_all add: as_res_def on_dispatch_def rpc_add_method_def add_method_def emplace_map_apply\<close>)
  moreover have "mydispatch_client (\<lambda>x. x)
      (\<lambda>cmd err d x. Inr (x @ [rpc_oncallback P (results_set (sint err) (int (length d)) d)])) (?g @ rest') (int (length ?g)) [] =
      Inr (int (length ?g), [(sint e, if p_ser_res P r = [] then None else Some r)])"
    by (subst mydispatch_client_full [OF refl small(2)])
       (simp_all add: rpc_oncallback_def results_set_def assms(3))
  ultimately show ?thesis using f s'(2) by blast
qed

definition sample_proto :: "(bool, bool) proto" where
  "sample_proto = \<lparr>p_parse_req = (\<lambda>b. b = [7]), p_ser_req = (\<lambda>q. if q then [7] else [8]),
       p_parse_res = (\<lambda>b. b = [9]), p_ser_res = (\<lambda>r. if r then [9] else []), p_new_req = False, p_new_res = False\<rparr>"

theorem rpc_roundtrip_witness:
  "\<exists>f s' g. rpc_query 1 sample_proto True = Inr f \<and>
     rpc_dispatch 1 sample_proto (\<lambda>q. ([Set_error 5, Set_response True], True)) 4 (f @ [1, 2]) (int (length f)) rpc_new =
       Inr (int (length f), s') \<and>
     k_sent s' = k_sent (rpc_new :: (bool, bool) rpc_server) @ [(length (k_all (rpc_new :: (bool, bool) rpc_server)), 4, g)] \<and>
     mydispatch_client (\<lambda>x. x) (\<lambda>cmd err d x. Inr (x @ [rpc_oncallback sample_proto (results_set (sint err) (int (length d)) d)]))
       (g @ []) (int (length g)) [] =
       Inr (int (length g), [(sint (5 :: i32), if p_ser_res sample_proto True = [] then None else Some True)])"
  by (rule rpc_roundtrip [where P = sample_proto and q = True and r = True and e = 5 and CMD = 1 and cli = 4
        and meth = "\<lambda>q. ([Set_error 5, Set_response True], True)" and rest = "[1, 2]" and rest' = "[]" and s = rpc_new])
     (simp_all add: sample_proto_def small_messages_def sizeof_MSG_def reply_def)

text \<open>A request that serializes to nothing is taken for a heartbeat: it is consumed and nobody answers it, so
  the session that sent it waits with the queries behind it.\<close>

theorem empty_request_is_dropped:
  assumes "small_messages P" "p_ser_req P q = []"
  shows "\<exists>f. rpc_query CMD P q = Inr f \<and>
    rpc_dispatch CMD P meth cli (f @ rest) (int (length f)) s = Inr (int (length f), s)"
proof -
  have "rpc_query CMD P q = Inr (MSG_bytes CMD 0 [])"
    using rpc_serialize_small(2) [OF assms(1), of CMD q 0] assms(2) by (simp add: rpc_query_def)
  moreover have "rpc_dispatch CMD P meth cli (MSG_bytes CMD 0 [] @ rest) (int (length (MSG_bytes CMD 0 []))) s =
      Inr (int (length (MSG_bytes CMD 0 [])), s)"
    unfolding rpc_dispatch_def by (subst mydispatch_server_full [OF refl]) (simp_all add: sizeof_MSG_def)
  ultimately show ?thesis by blast
qed

text \<open>Responses go out in the order in which controllers are let go, and a client gives them to its queries in
  the order of these: a method that keeps its first controller swaps two answers.\<close>

theorem kept_controller_swaps_answers:
  assumes "small_messages P" "meth (p_parse_req P b1) = ([Keep], False)"
    "meth (p_parse_req P b2) = ([Set_response r], False)"
  shows "\<exists>s. each (rpc_step CMD P meth) [Request cli b1, Request cli b2, Release 0] rpc_new = Done () s \<and>
    k_sent s = [(1, cli, MSG_bytes CMD 0 (p_ser_res P r)), (0, cli, MSG_bytes CMD 0 (p_ser_res P (p_new_res P)))]"
  using assms(2,3) rpc_serialize_small(1) [OF assms(1)]
  by (simp add: rpc_step_def rpc_handle_def ctl_new_def ctl_add_def ctl_update_def ctl_share_def with_local_def
      run_method_def ctl_drop_def ctl_ser_def ctl_destroy_def Let_def try_catch_def controllers_new_def held_def)

end
