(* ===== verification/EndToEnd.thy ===== *)
theory EndToEnd
  imports Calls Rpc
begin

text \<open>
  What \<^verbatim>\<open>rpccli\<close> (\<^verbatim>\<open>msg/rpccli.h\<close>) and a \<^verbatim>\<open>msgserver<int>\<close> with one \<^verbatim>\<open>rpc\<close> method do to each
  other: the frames of \<^verbatim>\<open>msg/rpc.h\<close> and the two dispatchers of \<^verbatim>\<open>mydispatch.h\<close> as an instance of
  \<open>call_link\<close>.
\<close>

subsection \<open>The server's end\<close>

definition rpc_act :: "i32 \<Rightarrow> ('q, 'r) proto \<Rightarrow> ('q, 'r) rpc_method \<Rightarrow> int \<Rightarrow> i32 \<times> i32 \<times> byte list \<Rightarrow>
    ('q, 'r) rpc_server \<Rightarrow> ('q, 'r) rpc_server" where
  "rpc_act CMD P meth cli = (\<lambda>(cmd, err, xs) s.
     if xs = [] \<or> cmd \<noteq> CMD then s
     else case try_catch (rpc_handle CMD P meth cli xs) s of Done a s' \<Rightarrow> s' | _ \<Rightarrow> s)"

lemma rpc_on_dispatch:
  "on_dispatch (\<lambda>m cli d n. rpc_handle CMD P m cli d) (rpc_add_method CMD meth Map.empty) cli cmd xs n =
     (if cmd = CMD then try_catch (rpc_handle CMD P meth cli xs) else skip)"
  by (simp add: on_dispatch_def rpc_add_method_def add_method_def emplace_map_apply)

interpretation link_server: stream_frames "rpc_dispatch CMD P meth cli" 4
    "\<lambda>m. MSG_ok m \<and> small_messages P" MSG_frame "rpc_act CMD P meth cli" "answered (ctl_frame CMD P)"
  for CMD meth cli and P :: "('q, 'r) proto"
proof
  fix m :: "i32 \<times> i32 \<times> byte list" and mem :: "byte list" and n :: int and k :: nat
    and st :: "('q, 'r) rpc_server"
  assume ok: "MSG_ok m \<and> small_messages P"
  obtain cmd err xs where m: "m = (cmd, err, xs)" by (cases m)
  have len: "sizeof_MSG + length xs < 2 ^ 31" using ok by (simp add: m MSG_ok_def)
  show "MSG_frame m \<noteq> []" by (simp add: m MSG_frame_def MSG_bytes_nonempty)
  show "length (MSG_frame m) + 0x1000 < 2 ^ 31" using ok by (simp add: m MSG_frame_def MSG_ok_def)
  have run: "\<exists>s'. try_catch (rpc_handle CMD P meth cli xs) st = Done () s' \<and> answered (ctl_frame CMD P) s'"
    if "answered (ctl_frame CMD P) st"
    using keepsD [OF answered_handle that] ok by fastforce
  show "answered (ctl_frame CMD P) (rpc_act CMD P meth cli m st)" if "answered (ctl_frame CMD P) st"
    using run [OF that] that by (auto simp: m rpc_act_def)
  show "rpc_dispatch CMD P meth cli mem n st = Inr (int (length (MSG_frame m)), rpc_act CMD P meth cli m st)"
    if "answered (ctl_frame CMD P) st" "take (length (MSG_frame m)) mem = MSG_frame m" "int (length (MSG_frame m)) \<le> n"
    unfolding rpc_dispatch_def
    by (subst mydispatch_server_full [OF front_frame [OF that(2), unfolded m MSG_frame_def prod.case] len])
       (use that(3) run [OF that(1)] in \<open>auto simp: m MSG_frame_def rpc_on_dispatch rpc_act_def as_res_def\<close>)
  show "rpc_dispatch CMD P meth cli mem (int k) st = Inr (0, st)"
    if "4 \<le> k" "k < length (MSG_frame m)" "k \<le> length mem" "take k mem = take k (MSG_frame m)"
    using that unfolding rpc_dispatch_def
    by (intro mydispatch_partial(1) [OF _ _ _ _ len]) (simp_all add: m MSG_frame_def)
qed

subsection \<open>The client's end\<close>

text \<open>\<^verbatim>\<open>mydispatch<MSG>::client\<close> over \<^verbatim>\<open>msgdispatch<int>::on_dispatch\<close>, which leaves its
  table alone for a command that has no event.\<close>

definition session_dispatch :: "bool \<Rightarrow> 'c callbacks \<Rightarrow> int \<Rightarrow> (i32, 'c) msgdispatch \<Rightarrow> 'c msgsession dispatcher" where
  "session_dispatch nd usr fd t = mydispatch_client (\<lambda>s. s)
     (\<lambda>cmd err xs. as_res (snd (dispatch_msg nd usr fd t cmd (sint err) (int (length xs)) xs)))"

definition session_act :: "i32 \<times> i32 \<times> byte list \<Rightarrow> 'c msgsession \<Rightarrow> 'c msgsession" where
  "session_act = (\<lambda>(cmd, err, xs). session_answer (results_set (sint err) (int (length xs)) xs))"

interpretation link_client: stream_frames "session_dispatch nd usr fd t" 4
    "\<lambda>m. MSG_ok m \<and> quiet_callbacks usr \<and> m_dispatch t (fst m) = None" MSG_frame session_act in_flight
  for nd fd t and usr :: "'c callbacks"
proof
  fix m :: "i32 \<times> i32 \<times> byte list" and mem :: "byte list" and n :: int and k :: nat and st :: "'c msgsession"
  assume ok: "MSG_ok m \<and> quiet_callbacks usr \<and> m_dispatch t (fst m) = None"
  obtain cmd err xs where m: "m = (cmd, err, xs)" by (cases m)
  have len: "sizeof_MSG + length xs < 2 ^ 31" using ok by (simp add: m MSG_ok_def)
  show "MSG_frame m \<noteq> []" by (simp add: m MSG_frame_def MSG_bytes_nonempty)
  show "length (MSG_frame m) + 0x1000 < 2 ^ 31" using ok by (simp add: m MSG_frame_def MSG_ok_def)
  show "in_flight (session_act m st)" if "in_flight st" using session_answer_in_flight [OF that] by (simp add: m session_act_def)
  show "session_dispatch nd usr fd t mem n st = Inr (int (length (MSG_frame m)), session_act m st)"
    if "in_flight st" "take (length (MSG_frame m)) mem = MSG_frame m" "int (length (MSG_frame m)) \<le> n"
    unfolding session_dispatch_def
    by (subst mydispatch_client_full [OF front_frame [OF that(2), unfolded m MSG_frame_def prod.case] len])
       (use that(3) dispatch_run [OF that(1), of usr t cmd nd fd "sint err" "int (length xs)" xs] ok in \<open>auto simp: m MSG_frame_def as_res_def session_act_def\<close>)
  show "session_dispatch nd usr fd t mem (int k) st = Inr (0, st)"
    if "4 \<le> k" "k < length (MSG_frame m)" "k \<le> length mem" "take k mem = take k (MSG_frame m)"
    using that unfolding session_dispatch_def
    by (intro mydispatch_partial(2) [OF _ _ _ _ len]) (simp_all add: m MSG_frame_def)
qed

subsection \<open>Calls\<close>

definition rpc_ask :: "i32 \<Rightarrow> ('q, 'r) proto \<Rightarrow> 'c callbacks \<Rightarrow> int \<Rightarrow> 'q \<times> 'c \<Rightarrow> ('c msgsession, unit) prog" where
  "rpc_ask CMD P = ask (rpc_query CMD P)"

definition link_open :: "bool \<Rightarrow> i32 \<Rightarrow> ('q, 'r) proto \<Rightarrow> ('q, 'r) rpc_method \<Rightarrow> 'c callbacks \<Rightarrow> (i32, 'c) msgdispatch \<Rightarrow>
    int \<Rightarrow> int \<Rightarrow> (nat \<Rightarrow> byte) \<Rightarrow> ('q \<times> 'c) list \<Rightarrow> (('q, 'r) controllor, 'c) link res" where
  "link_open nd CMD P meth usr t fd cli =
     open_link (rpc_query CMD P) usr (session_dispatch nd usr fd t) (rpc_dispatch CMD P meth cli) fd cli"

text \<open>What the callbacks of the queries were given, decoded by \<^verbatim>\<open>__oncallback\<close>.\<close>

definition received :: "('q, 'r) proto \<Rightarrow> 'c event list \<Rightarrow> ('c option \<times> int \<times> 'r option) list" where
  "received P tr = map (\<lambda>(cb, r). (cb, rpc_oncallback P r)) (results_of tr)"

text \<open>Messages that fit the \<^verbatim>\<open>int\<close> sizes of the code and are parsed as they were written; every
  request has some bytes, and the method lets its controller go before it returns.\<close>

definition sound_call :: "('q, 'r) proto \<Rightarrow> ('q, 'r) rpc_method \<Rightarrow> 'q \<Rightarrow> bool" where
  "sound_call P meth q \<longleftrightarrow> p_parse_req P (p_ser_req P q) = q \<and> p_ser_req P q \<noteq> [] \<and> Keep \<notin> set (fst (meth q))"

definition sound_proto :: "('q, 'r) proto \<Rightarrow> bool" where
  "sound_proto P \<longleftrightarrow> (\<forall>q. MSG_ok (0, 0, p_ser_req P q)) \<and> (\<forall>r. MSG_ok (0, 0, p_ser_res P r)) \<and>
     (\<forall>r. p_parse_res P (p_ser_res P r) = r)"

definition request_frame :: "i32 \<Rightarrow> ('q, 'r) proto \<Rightarrow> 'q \<Rightarrow> byte list" where
  "request_frame CMD P q = MSG_bytes CMD 0 (p_ser_req P q)"

definition response_frame :: "i32 \<Rightarrow> ('q, 'r) proto \<Rightarrow> ('q, 'r) rpc_method \<Rightarrow> 'q \<Rightarrow> byte list" where
  "response_frame CMD P meth q = MSG_bytes CMD (fst (reply P meth q)) (p_ser_res P (snd (reply P meth q)))"

text \<open>What the caller should be given.\<close>

definition call_result :: "('q, 'r) proto \<Rightarrow> ('q, 'r) rpc_method \<Rightarrow> 'q \<Rightarrow> int \<times> 'r option" where
  "call_result P meth q = (sint (fst (reply P meth q)),
     if p_ser_res P (snd (reply P meth q)) = [] then None else Some (snd (reply P meth q)))"

lemma sound_small: "sound_proto P \<Longrightarrow> small_messages P"
proof -
  assume P: "sound_proto P"
  have "sizeof_MSG + length (p_ser_req P q) < 2 ^ 31" "sizeof_MSG + length (p_ser_res P r) < 2 ^ 31" for q r
    using P [unfolded sound_proto_def, THEN conjunct1, rule_format, of q]
      P [unfolded sound_proto_def, THEN conjunct2, THEN conjunct1, rule_format, of r] by (simp_all add: MSG_ok_def)
  then show ?thesis by (simp add: small_messages_def)
qed

lemma sound_MSG_ok:
  "sound_proto P \<Longrightarrow> MSG_ok (cmd, err, p_ser_req P q)" "sound_proto P \<Longrightarrow> MSG_ok (cmd, err, p_ser_res P r)"
  by (simp_all add: sound_proto_def MSG_ok_def)

text \<open>What the session's callback is given, before it is decoded.\<close>

definition raw_result :: "('q, 'r) proto \<Rightarrow> ('q, 'r) rpc_method \<Rightarrow> 'q \<Rightarrow> msg_results" where
  "raw_result P meth q = results_set (sint (fst (reply P meth q)))
     (int (length (p_ser_res P (snd (reply P meth q))))) (p_ser_res P (snd (reply P meth q)))"

lemma raw_call_result: "sound_proto P \<Longrightarrow> rpc_oncallback P (raw_result P meth q) = call_result P meth q"
  by (simp add: rpc_oncallback_def raw_result_def results_set_def call_result_def sound_proto_def)

lemma rpc_serves:
  assumes "sound_proto P" "sound_call P meth q" "idle_reader (rpc_dispatch CMD P meth cli) acc"
    "answered (ctl_frame CMD P) st" "readable ns (request_frame CMD P q)"
  shows "\<exists>acc' st' i. client_recv fresh (map recv_of (pieces ns (request_frame CMD P q))) acc st = Inr (acc', st') \<and>
    idle_reader (rpc_dispatch CMD P meth cli) acc' \<and> answered (ctl_frame CMD P) st' \<and>
    k_sent st' = k_sent st @ [(i, cli, response_frame CMD P meth q)]"
proof -
  let ?req = "(CMD, 0, p_ser_req P q) :: i32 \<times> i32 \<times> byte list"
  note small = sound_small [OF assms(1)]
  have frame: "MSG_frame ?req = request_frame CMD P q" by (simp add: MSG_frame_def request_frame_def)
  have ok: "MSG_ok ?req \<and> small_messages P" using sound_MSG_ok [OF assms(1)] small by simp
  obtain st' where st': "try_catch (rpc_handle CMD P meth cli (p_ser_req P q)) st = Done () st'"
      "k_sent st' = k_sent st @ [(length (k_all st), cli, response_frame CMD P meth q)]"
    using handle_replies [OF small, of meth "p_ser_req P q" CMD cli st] assms(2)
    by (auto simp: sound_call_def response_frame_def)
  have "rpc_act CMD P meth cli ?req st = st'" using st'(1) assms(2) by (simp add: rpc_act_def sound_call_def)
  moreover have "answered (ctl_frame CMD P) st'"
    using keepsD [OF answered_handle [OF small] assms(4), of meth cli "p_ser_req P q"] st'(1) by simp
  ultimately show ?thesis
    using link_server.recv_pieces [OF assms(3) ok assms(4), of ns fresh] assms(5) st'(2) by (auto simp: frame)
qed

lemma rpc_answers:
  fixes P :: "('q, 'r) proto" and usr :: "'c callbacks"
  assumes "sound_proto P" "quiet_callbacks usr" "m_dispatch t CMD = None"
    "idle_reader (session_dispatch nd usr fd t) rd" "in_flight ses" "readable ns (response_frame CMD P meth q)"
  shows "\<exists>rd'. client_recv fresh (map recv_of (pieces ns (response_frame CMD P meth q))) rd ses =
      Inr (rd', session_answer (raw_result P meth q) ses) \<and> idle_reader (session_dispatch nd usr fd t) rd'"
proof -
  let ?res = "(CMD, fst (reply P meth q), p_ser_res P (snd (reply P meth q))) :: i32 \<times> i32 \<times> byte list"
  have frame: "MSG_frame ?res = response_frame CMD P meth q" by (simp add: MSG_frame_def response_frame_def)
  have ok: "MSG_ok ?res \<and> quiet_callbacks usr \<and> m_dispatch t (fst ?res) = None"
    using sound_MSG_ok [OF assms(1)] assms(2,3) by simp
  show ?thesis
    using link_client.recv_pieces [OF assms(4) ok assms(5), of ns fresh] assms(6)
    by (auto simp: frame session_act_def raw_result_def)
qed

text \<open>\<open>calls_fine\<close> is what the instance asks of a query.\<close>

definition calls_fine where
  "calls_fine P meth usr t CMD q \<longleftrightarrow> sound_proto P \<and> quiet_callbacks usr \<and> m_dispatch t CMD = None \<and> sound_call P meth q"

interpretation rpc_calls: call_link "rpc_query CMD P" "session_dispatch nd usr fd t" "rpc_dispatch CMD P meth cli"
    "answered (ctl_frame CMD P)" "calls_fine P meth usr t CMD" "request_frame CMD P" "response_frame CMD P meth" "raw_result P meth"
  for CMD meth t nd fd cli and P :: "('q, 'r) proto" and usr :: "'c callbacks"
proof
  fix q :: 'q and acc :: "('q, 'r) rpc_server client" and st :: "('q, 'r) rpc_server" and ns fresh
    and rd :: "'c msgsession client" and ses :: "'c msgsession"
  show "answered (ctl_frame CMD P) controllers_new" by (rule answered_new)
  assume q: "calls_fine P meth usr t CMD q"
  then show "rpc_query CMD P q = Inr (request_frame CMD P q)"
    using rpc_serialize_small(2) [OF sound_small, of P] by (simp add: calls_fine_def rpc_query_def request_frame_def)
  show "\<exists>acc' st' i to. client_recv fresh (map recv_of (pieces ns (request_frame CMD P q))) acc st = Inr (acc', st') \<and>
      idle_reader (rpc_dispatch CMD P meth cli) acc' \<and> answered (ctl_frame CMD P) st' \<and>
      k_sent st' = k_sent st @ [(i, to, response_frame CMD P meth q)]"
    if "idle_reader (rpc_dispatch CMD P meth cli) acc" "answered (ctl_frame CMD P) st" "readable ns (request_frame CMD P q)"
    using rpc_serves [OF _ _ that] q unfolding calls_fine_def by blast
  show "\<exists>rd'. client_recv fresh (map recv_of (pieces ns (response_frame CMD P meth q))) rd ses =
      Inr (rd', session_answer (raw_result P meth q) ses) \<and> idle_reader (session_dispatch nd usr fd t) rd'"
    if "idle_reader (session_dispatch nd usr fd t) rd" "in_flight ses" "readable ns (response_frame CMD P meth q)"
    using rpc_answers [OF _ _ _ that] q unfolding calls_fine_def by blast
qed

subsection \<open>Properties\<close>



end
