(* ===== verification/ConnectPool.thy ===== *)
theory ConnectPool
  imports Prelude
begin

text \<open>
  \<^verbatim>\<open>src/src/service/connectpool.h\<close>: clients kept for reuse, one list per thread and url
  (\<^verbatim>\<open>thread_local\<close>), and one counter for all threads. A client is a number, given out by the
  constructor in order; the handles (\<^verbatim>\<open>wrapper\<close>) alive at a moment are in the state, so that
  who has which client is a fact about it. A map that \<^verbatim>\<open>operator[]\<close> would fill with an empty
  list is a function.
\<close>

subsection \<open>State and operations\<close>

record connectpool =
  m_url :: string
  m_max_total :: int
  m_cnt_total :: int
  manager :: "nat \<Rightarrow> string \<Rightarrow> nat list"
  created :: nat
  handles :: "(nat \<times> nat) list"

definition connectpool_new :: "string \<Rightarrow> int \<Rightarrow> connectpool" where
  "connectpool_new url lim =
     \<lparr>m_url = url, m_max_total = lim, m_cnt_total = 0, manager = (\<lambda>_ _. []), created = 0, handles = []\<rparr>"

definition mgr :: "nat \<Rightarrow> connectpool \<Rightarrow> nat list" where
  "mgr thd p = manager p thd (m_url p)"

definition set_mgr :: "nat \<Rightarrow> nat list \<Rightarrow> connectpool \<Rightarrow> connectpool" where
  "set_mgr thd l p = p\<lparr>manager := (manager p)(thd := (manager p thd)(m_url p := l))\<rparr>"

text \<open>\<^verbatim>\<open>__create\<close>, \<^verbatim>\<open>data\<close> and \<^verbatim>\<open>reset\<close> on the thread \<open>thd\<close>.\<close>

definition create :: "connectpool \<Rightarrow> nat \<times> connectpool" where
  "create p = (created p, p\<lparr>m_cnt_total := m_cnt_total p + 1, created := created p + 1\<rparr>)"

definition pool_data :: "nat \<Rightarrow> connectpool \<Rightarrow> nat \<times> connectpool" where
  "pool_data thd p =
     (case mgr thd p of
        [] \<Rightarrow> create p
      | c # rest \<Rightarrow> (c, set_mgr thd rest p))"

definition pool_reset :: "nat \<Rightarrow> nat \<Rightarrow> connectpool \<Rightarrow> connectpool" where
  "pool_reset thd c p =
     (let old = m_cnt_total p; p = p\<lparr>m_cnt_total := old - 1\<rparr>
      in if old \<le> m_max_total p then set_mgr thd (mgr thd p @ [c]) p else p)"

text \<open>\<^verbatim>\<open>obj()\<close> makes a handle; its destructor, on the thread that runs it, gives the client
  back. \<open>k\<close> is the handle's place among those alive.\<close>

definition pool_obj :: "nat \<Rightarrow> connectpool \<Rightarrow> nat \<times> connectpool" where
  "pool_obj thd p = (let (c, p) = pool_data thd p in (c, p\<lparr>handles := handles p @ [(thd, c)]\<rparr>))"

definition drop_handle :: "nat \<Rightarrow> nat \<Rightarrow> connectpool \<Rightarrow> connectpool" where
  "drop_handle thd k p =
     (if k < length (handles p)
      then pool_reset thd (snd (handles p ! k)) (p\<lparr>handles := take k (handles p) @ drop (Suc k) (handles p)\<rparr>)
      else p)"

text \<open>\<^verbatim>\<open>query\<close> and \<^verbatim>\<open>send\<close> use a temporary handle around the client's operation.\<close>

definition pool_use :: "nat \<Rightarrow> connectpool \<Rightarrow> nat \<times> connectpool" where
  "pool_use thd p = (let (c, p) = pool_obj thd p in (c, drop_handle thd (length (handles p) - 1) p))"

definition pool_clear :: "nat \<Rightarrow> connectpool \<Rightarrow> connectpool" where
  "pool_clear thd p = set_mgr thd [] p"

datatype pool_step = Obj nat | Drop nat nat | Use nat

fun step :: "pool_step \<Rightarrow> connectpool \<Rightarrow> connectpool" where
  "step (Obj thd) p = snd (pool_obj thd p)"
| "step (Drop thd k) p = drop_handle thd k p"
| "step (Use thd) p = snd (pool_use thd p)"

definition run :: "pool_step list \<Rightarrow> connectpool \<Rightarrow> connectpool" where
  "run xs p = fold step xs p"

subsection \<open>No client is handed out twice\<close>

text \<open>The clients of the pool's url are each in one place at most: with one handle, or in one thread's
  list.\<close>

definition apart :: "(nat \<Rightarrow> nat list) \<Rightarrow> nat list \<Rightarrow> nat \<Rightarrow> bool" where
  "apart l h n \<longleftrightarrow>
     distinct h \<and> (\<forall>x \<in> set h. x < n) \<and> (\<forall>t. distinct (l t)) \<and>
     (\<forall>t. \<forall>x \<in> set (l t). x \<notin> set h \<and> x < n \<and> (\<forall>u. u \<noteq> t \<longrightarrow> x \<notin> set (l u)))"

definition exclusive :: "connectpool \<Rightarrow> bool" where
  "exclusive p \<longleftrightarrow> apart (\<lambda>t. mgr t p) (map snd (handles p)) (created p)"

lemma apart_create: "apart l h n \<Longrightarrow> apart l (h @ [n]) (n + 1)"
  unfolding apart_def by (fastforce simp: less_Suc_eq)

lemma apart_take:
  assumes "apart l h n" "l t = c # rest"
  shows "apart (\<lambda>u. if u = t then rest else l u) (h @ [c]) n"
proof -
  have c: "c \<in> set (l t)" and r: "\<And>x. x \<in> set rest \<Longrightarrow> x \<in> set (l t)" and d: "distinct (c # rest)"
    using assms by (auto simp: apart_def) (metis distinct.simps(2))+
  show ?thesis
    using assms(1) c r d unfolding apart_def by (auto split: if_splits) blast+
qed

lemma apart_drop: "apart l (a @ c # b) n \<Longrightarrow> apart l (a @ b) n"
  unfolding apart_def by auto

lemma apart_give:
  assumes "apart l (a @ c # b) n"
  shows "apart (\<lambda>u. if u = t then l t @ [c] else l u) (a @ b) n"
proof -
  have "\<And>u. c \<notin> set (l u)" "c \<notin> set a" "c \<notin> set b" "c < n" using assms unfolding apart_def by auto
  with assms show ?thesis unfolding apart_def by (auto split: if_splits)
qed

lemma mgr_set_mgr [simp]: "mgr u (set_mgr t l p) = (if u = t then l else mgr u p)"
  by (simp add: mgr_def set_mgr_def)

lemma set_mgr_fields [simp]:
  "created (set_mgr t l p) = created p" "handles (set_mgr t l p) = handles p"
  "m_cnt_total (set_mgr t l p) = m_cnt_total p" "m_max_total (set_mgr t l p) = m_max_total p"
  "m_url (set_mgr t l p) = m_url p"
  by (simp_all add: set_mgr_def)

lemma mgr_updates [simp]:
  "mgr u (p\<lparr>m_cnt_total := n\<rparr>) = mgr u p" "mgr u (p\<lparr>created := k\<rparr>) = mgr u p"
  "mgr u (p\<lparr>handles := h\<rparr>) = mgr u p"
  by (simp_all add: mgr_def)

lemma exclusive_new: "exclusive (connectpool_new url lim)"
  by (simp add: exclusive_def apart_def connectpool_new_def mgr_def)

lemma exclusive_obj:
  assumes "exclusive p" shows "exclusive (snd (pool_obj thd p))"
proof (cases "mgr thd p")
  case Nil
  then show ?thesis
    using apart_create assms by (simp add: pool_obj_def pool_data_def create_def exclusive_def)
next
  case (Cons c rest)
  then show ?thesis
    using apart_take [of _ _ _ thd c rest] assms by (simp add: pool_obj_def pool_data_def exclusive_def)
qed

lemma exclusive_drop:
  assumes "exclusive p" shows "exclusive (drop_handle thd k p)"
proof (cases "k < length (handles p)")
  case True
  define a where "a = map snd (take k (handles p))"
  define b where "b = map snd (drop (Suc k) (handles p))"
  define c where "c = snd (handles p ! k)"
  have "map snd (handles p) = a @ c # b"
    using True unfolding a_def b_def c_def by (metis id_take_nth_drop list.simps(9) map_append)
  then have "apart (\<lambda>t. mgr t p) (a @ c # b) (created p)" using assms by (simp add: exclusive_def)
  then have "apart (\<lambda>t. mgr t p) (a @ b) (created p)"
    "apart (\<lambda>u. if u = thd then mgr thd p @ [c] else mgr u p) (a @ b) (created p)"
    by (rule apart_drop, rule apart_give)
  then show ?thesis
    using True by (simp add: drop_handle_def pool_reset_def Let_def exclusive_def a_def b_def c_def cong: if_cong)
qed (use assms in \<open>simp add: drop_handle_def\<close>)

lemma exclusive_step: "exclusive p \<Longrightarrow> exclusive (step x p)"
  by (cases x) (auto simp: exclusive_obj exclusive_drop pool_use_def Let_def split_beta)

lemma exclusive_run: "exclusive p \<Longrightarrow> exclusive (run xs p)"
  unfolding run_def by (induction xs arbitrary: p) (simp_all add: exclusive_step)

text \<open>C36: However threads take, drop and use clients of a pool, no client is ever with two handles, or
  with a handle and in a list, or in two threads' lists or twice in one.\<close>

theorem clients_are_exclusive:
  assumes "p = run xs (connectpool_new url lim)"
  shows "distinct (map snd (handles p)) \<and>
    (\<forall>t. distinct (mgr t p) \<and> set (mgr t p) \<inter> snd ` set (handles p) = {}) \<and>
    (\<forall>t u. t = u \<or> set (mgr t p) \<inter> set (mgr u p) = {})"
proof -
  have e: "apart (\<lambda>t. mgr t p) (map snd (handles p)) (created p)"
    using exclusive_run [OF exclusive_new, of xs url lim] by (simp add: assms exclusive_def)
  have x: "x \<notin> snd ` set (handles p) \<and> (\<forall>u. u \<noteq> t \<longrightarrow> x \<notin> set (mgr u p))" if "x \<in> set (mgr t p)" for x t
    using e that by (simp add: apart_def)
  have "set (mgr t p) \<inter> snd ` set (handles p) = {}" for t using x by blast
  moreover have "t = u \<or> set (mgr t p) \<inter> set (mgr u p) = {}" for t u using x by blast
  moreover have "distinct (map snd (handles p))" "distinct (mgr t p)" for t
    using e by (auto simp: apart_def)
  ultimately show ?thesis by blast
qed

theorem clients_are_exclusive_witness:
  "\<exists>p. p = run [Obj 0, Obj 1, Drop 1 0, Use 1] (connectpool_new ''u'' 40) \<and>
    distinct (map snd (handles p)) \<and> mgr 1 p = [0]"
proof -
  let ?p = "run [Obj 0, Obj 1, Drop 1 0, Use 1] (connectpool_new ''u'' 40)"
  have "mgr 1 ?p = [0]"
    by (simp add: run_def pool_obj_def pool_data_def create_def connectpool_new_def drop_handle_def pool_reset_def
        pool_use_def mgr_def set_mgr_def)
  then show ?thesis
    using clients_are_exclusive [of ?p "[Obj 0, Obj 1, Drop 1 0, Use 1]" "''u''" 40] by blast
qed

subsection \<open>The counter\<close>

lemma use_pooled:
  assumes "mgr t p = [c]" "m_cnt_total p \<le> m_max_total p"
  shows "pool_use t p = (c, p\<lparr>m_cnt_total := m_cnt_total p - 1\<rparr>)"
proof -
  have "set_mgr t [c] (set_mgr t [] p) = p"
    using assms(1) by (cases p) (simp add: set_mgr_def mgr_def fun_eq_iff)
  moreover have "set_mgr t l (p\<lparr>m_cnt_total := n\<rparr>) = (set_mgr t l p)\<lparr>m_cnt_total := n\<rparr>" for l n p
    by (simp add: set_mgr_def)
  ultimately show ?thesis
    using assms
    by (simp add: pool_use_def pool_obj_def pool_data_def drop_handle_def pool_reset_def Let_def)
       (cases p; simp add: set_mgr_def)
qed

lemma uses_pooled:
  "mgr t p = [c] \<Longrightarrow> m_cnt_total p \<le> m_max_total p \<Longrightarrow>
     run (replicate n (Use t)) p = p\<lparr>m_cnt_total := m_cnt_total p - int n\<rparr>"
proof (induction n arbitrary: p)
  case (Suc n)
  then show ?case using use_pooled [of t p c] by (simp add: run_def)
qed (simp add: run_def)

text \<open>The counter is meant to be the number of clients, but every return counts one down and taking
  one from the list counts none up: a client used \<open>n + 1\<close> times in turn leaves \<open>- n\<close>,
  with one client in the pool. The limit on the clients kept is a limit on
  that counter, so it moves up with every use and is never met again.\<close>

theorem counter_runs_away:
  assumes "p = run (Obj t # Drop t 0 # replicate n (Use t)) (connectpool_new url lim)" "1 \<le> lim"
  shows "m_cnt_total p = - int n \<and> mgr t p = [0] \<and> created p = 1"
proof -
  define q where "q = run [Obj t, Drop t 0] (connectpool_new url lim)"
  have q: "mgr t q = [0]" "m_cnt_total q = 0" "m_max_total q = lim" "created q = 1"
    using assms(2)
    by (simp_all add: q_def run_def pool_obj_def pool_data_def create_def connectpool_new_def drop_handle_def
        pool_reset_def mgr_def set_mgr_def Let_def)
  have "p = run (replicate n (Use t)) q" by (simp add: assms(1) q_def run_def)
  then have "p = q\<lparr>m_cnt_total := m_cnt_total q - int n\<rparr>" using uses_pooled [of t q 0 n] q assms(2) by simp
  then show ?thesis using q by simp
qed

theorem counter_runs_away_witness:
  "m_cnt_total (run (Obj 0 # Drop 0 0 # replicate 1000 (Use 0)) (connectpool_new ''u'' 40)) = -1000"
  using counter_runs_away [OF refl, of 40 0 1000 "''u''"] by simp

end
