(* ===== verification/PbRpc.thy ===== *)
theory PbRpc
  imports Calls Msg Registry ConnectPool
begin

text \<open>
  \<^verbatim>\<open>src/src/pbmsg/pbrpc.h\<close>: typed calls over \<^verbatim>\<open>PBMSG\<close> frames. A request and a response are packed
  in a \<^verbatim>\<open>MsgBase\<close> that names the server and the method; on the server the method is found by that name, and
  the controller keeps the session and the index of the request. The header's \<^verbatim>\<open>serialize\<close> calls
  \<^verbatim>\<open>std::forward\<close> without its template argument, which no compiler accepts; it is read as the other uses
  in the file are written, \<^verbatim>\<open>std::forward<_ARGS>(_args)...\<close>. The protobuf library is the parameter
  \<open>pbproto\<close>: how a \<^verbatim>\<open>MsgBase\<close> is written and read, how a message is packed in an \<^verbatim>\<open>Any\<close>, and what
  \<^verbatim>\<open>UnpackTo\<close> leaves in its target. The dispatchers of \<^verbatim>\<open>pbdispatch.h\<close> hand on a pointer to the
  \<^verbatim>\<open>MsgBase\<close> they parsed; it is represented by the bytes it was parsed from, which are never empty.
\<close>

record ('any, 'q, 'r) pbproto =
  pb_ser :: "'any MsgBase \<Rightarrow> byte list"
  pb_parse :: "byte list \<Rightarrow> 'any MsgBase"
  pb_pack_req :: "'q \<Rightarrow> 'any"
  pb_unpack_req :: "'any \<Rightarrow> 'q \<Rightarrow> 'q"
  pb_pack_res :: "'r \<Rightarrow> 'any"
  pb_unpack_res :: "'any \<Rightarrow> 'r \<Rightarrow> 'r"
  pb_new_req :: 'q
  pb_new_res :: 'r

text \<open>\<^verbatim>\<open>_msg->data().UnpackTo(&m)\<close>: of a \<^verbatim>\<open>data\<close> that is not set nothing is unpacked.\<close>

definition unpack_to :: "('any \<Rightarrow> 'm \<Rightarrow> 'm) \<Rightarrow> 'any option \<Rightarrow> 'm \<Rightarrow> 'm" where
  "unpack_to f d m = (case d of None \<Rightarrow> m | Some a \<Rightarrow> f a m)"

subsection \<open>Frames\<close>

text \<open>What can follow the message in a call of \<^verbatim>\<open>serialize\<close>: the overloads of \<^verbatim>\<open>__serialize\<close> for
  a message.\<close>

datatype pb_args = By_error i32 | By_session i32 string | By_index_session i32 u64 string | By_index i32 u64

fun pb_serialize :: "('any MsgBase \<Rightarrow> byte list) \<Rightarrow> string \<Rightarrow> string \<Rightarrow> pb_args \<Rightarrow> 'any \<Rightarrow> byte list res" where
  "pb_serialize ser SRV CMD (By_error e) a = serialize_cls ser SRV CMD e a"
| "pb_serialize ser SRV CMD (By_session e s) a = serialize_sess ser SRV CMD e s a"
| "pb_serialize ser SRV CMD (By_index_session e i s) a = serialize_index_sess ser SRV CMD e i s a"
| "pb_serialize ser SRV CMD (By_index e i) a = serialize_index ser SRV CMD e i a"

text \<open>The message a call of \<^verbatim>\<open>serialize\<close> puts in its frame.\<close>

fun pb_base :: "string \<Rightarrow> string \<Rightarrow> pb_args \<Rightarrow> 'any \<Rightarrow> 'any MsgBase" where
  "pb_base SRV CMD (By_error e) a = (MsgBase_set MsgBase_new SRV CMD e)\<lparr>mb_data := Some a\<rparr>"
| "pb_base SRV CMD (By_session e s) a = (MsgBase_set MsgBase_new SRV CMD e)\<lparr>mb_session := s, mb_data := Some a\<rparr>"
| "pb_base SRV CMD (By_index_session e i s) a =
     (MsgBase_set MsgBase_new SRV CMD e)\<lparr>mb_session := s, mb_index := i, mb_data := Some a\<rparr>"
| "pb_base SRV CMD (By_index e i) a = (MsgBase_set MsgBase_new SRV CMD e)\<lparr>mb_index := i, mb_data := Some a\<rparr>"

text \<open>Messages are below the 2 GB protobuf allows, less the header and one read.\<close>

definition pb_small :: "('any, 'q, 'r) pbproto \<Rightarrow> bool" where
  "pb_small P \<longleftrightarrow> (\<forall>b. PBMSG_ok (pb_ser P b))"

lemma pb_small_len: "pb_small P \<Longrightarrow> sizeof_PBMSG + length (pb_ser P b) < 2 ^ 31"
proof -
  assume "pb_small P"
  then have "PBMSG_ok (pb_ser P b)" by (simp add: pb_small_def)
  then show ?thesis by (simp add: PBMSG_ok_def)
qed

lemma pb_serialize_bytes:
  assumes "pb_small P"
  shows "pb_serialize (pb_ser P) SRV CMD args a = Inr (PBMSG_bytes (pb_ser P (pb_base SRV CMD args a)))"
proof -
  have "length (pb_ser P b) < 2 ^ 32" for b using pb_small_len [OF assms, of b] by simp
  then show ?thesis
    by (cases args) (simp_all add: serialize_cls_def serialize_sess_def serialize_index_sess_def serialize_index_def
        serialize_bytes)
qed

lemma pb_base_fields [simp]:
  "mb_server (pb_base SRV CMD args a) = SRV" "mb_method (pb_base SRV CMD args a) = CMD"
  "mb_data (pb_base SRV CMD args a) = Some a"
  by (cases args; simp add: MsgBase_set_def)+

subsection \<open>Controllers\<close>

record ('q, 'r) pb_controllor = "('q, 'r) controllor" +
  k_session :: string
  k_index :: u64

type_synonym ('q, 'r) pb_server = "('q, 'r) pb_controllor controllers"

definition pb_ctl_new :: "('any, 'q, 'r) pbproto \<Rightarrow> int \<Rightarrow> ('q, 'r) pb_controllor" where
  "pb_ctl_new P cli = \<lparr>k_cli = cli, k_error = 0, k_req = pb_new_req P, k_res = pb_new_res P, k_refs = 1,
     k_session = [], k_index = 0\<rparr>"

definition set_session :: "string \<Rightarrow> nat \<Rightarrow> (('q, 'r) pb_server, unit) prog" where
  "set_session s i = ctl_update i (\<lambda>c. c\<lparr>k_session := s\<rparr>)"

definition set_index :: "u64 \<Rightarrow> nat \<Rightarrow> (('q, 'r) pb_server, unit) prog" where
  "set_index n i = ctl_update i (\<lambda>c. c\<lparr>k_index := n\<rparr>)"

text \<open>What the destructor serializes.\<close>

definition pb_ctl_ser :: "string \<Rightarrow> string \<Rightarrow> ('any, 'q, 'r) pbproto \<Rightarrow> ('q, 'r) pb_controllor \<Rightarrow> byte list res" where
  "pb_ctl_ser SRV CMD P c =
     pb_serialize (pb_ser P) SRV CMD (By_session (k_error c) (k_session c)) (pb_pack_res P (k_res c))"

datatype 'r pb_op = Op "'r rop" | Set_session string | Set_index u64

fun run_pb_op :: "nat \<Rightarrow> 'r pb_op \<Rightarrow> (('q, 'r) pb_server, unit) prog" where
  "run_pb_op i (Op op) = run_rop i op"
| "run_pb_op i (Set_session s) = set_session s i"
| "run_pb_op i (Set_index n) = set_index n i"

text \<open>A method is given the controller, whose request, session and index it can read.\<close>

type_synonym ('q, 'r) pb_method = "'q \<Rightarrow> string \<Rightarrow> u64 \<Rightarrow> 'r pb_op list \<times> bool"

text \<open>The lambda \<^verbatim>\<open>pbrpc::add_method\<close> registers.\<close>

definition pb_handle :: "string \<Rightarrow> string \<Rightarrow> ('any, 'q, 'r) pbproto \<Rightarrow> ('q, 'r) pb_method \<Rightarrow> int \<Rightarrow> byte list \<Rightarrow>
    (('q, 'r) pb_server, unit) prog" where
  "pb_handle SRV CMD P meth cli buf =
     bnd (ctl_add (pb_ctl_new P cli)) (\<lambda>i.
       with_local (ctl_drop (pb_ctl_ser SRV CMD P) i)
         (let m = pb_parse P buf in
          bnd (ctl_update i (\<lambda>c. c\<lparr>k_req := unpack_to (pb_unpack_req P) (mb_data m) (k_req c)\<rparr>)) (\<lambda>_.
            bnd (set_session (mb_session m) i) (\<lambda>_.
              bnd (set_index (mb_index m) i) (\<lambda>_.
                bnd (gets (\<lambda>s. let c = k_all s ! i in meth (k_req c) (k_session c) (k_index c)))
                  (run_method (run_pb_op i)))))))"

definition pb_add_method :: "string \<Rightarrow> ('q, 'r) pb_method \<Rightarrow> (string, ('q, 'r) pb_method) router \<Rightarrow>
    (string, ('q, 'r) pb_method) router" where
  "pb_add_method CMD meth r = add_method CMD meth r"

text \<open>\<^verbatim>\<open>pbdispatch::server\<close> of a server with one method.\<close>

definition pb_server_dispatch :: "string \<Rightarrow> string \<Rightarrow> ('any, 'q, 'r) pbproto \<Rightarrow> ('q, 'r) pb_method \<Rightarrow> int \<Rightarrow>
    ('q, 'r) pb_server dispatcher" where
  "pb_server_dispatch SRV CMD P meth cli =
     pbdispatch (\<lambda>xs. xs) (\<lambda>s. s) (\<lambda>xs.
       as_res (on_dispatch (\<lambda>m cli d n. pb_handle SRV CMD P m cli d) (pb_add_method CMD meth Map.empty) cli
                 (mb_method (pb_parse P xs)) xs 0))"

subsection \<open>The client\<close>

text \<open>\<^verbatim>\<open>__oncallback\<close>: the arguments the user's callback gets; the message is a null pointer when the
  query was not answered, and the response is then a new one.\<close>

definition pb_oncallback :: "('any, 'q, 'r) pbproto \<Rightarrow> msg_results \<Rightarrow> int \<times> 'any MsgBase option \<times> 'r" where
  "pb_oncallback P r =
     (if data r = [] then (last_error r, None, pb_new_res P)
      else let m = pb_parse P (data r)
           in (last_error r, Some m, unpack_to (pb_unpack_res P) (mb_data m) (pb_new_res P)))"

definition pb_query :: "string \<Rightarrow> string \<Rightarrow> ('any, 'q, 'r) pbproto \<Rightarrow> 'q \<Rightarrow> byte list res" where
  "pb_query SRV CMD P q = pb_serialize (pb_ser P) SRV CMD (By_error 0) (pb_pack_req P q)"

text \<open>\<^verbatim>\<open>query\<close> and \<^verbatim>\<open>send\<close> through a pool of clients, on the thread \<open>thd\<close>: the client taken, the frame
  given to it, and the pool after the handle is dropped.\<close>

definition pb_pool_query :: "string \<Rightarrow> string \<Rightarrow> ('any, 'q, 'r) pbproto \<Rightarrow> nat \<Rightarrow> 'q \<Rightarrow> connectpool \<Rightarrow>
    (nat \<times> byte list \<times> connectpool) res" where
  "pb_pool_query SRV CMD P thd q p =
     (let (c, p') = pool_use thd p in bind_res (pb_query SRV CMD P q) (\<lambda>f. Inr (c, f, p')))"

definition pb_pool_send :: "string \<Rightarrow> string \<Rightarrow> ('any, 'q, 'r) pbproto \<Rightarrow> nat \<Rightarrow> pb_args \<Rightarrow> 'q \<Rightarrow> connectpool \<Rightarrow>
    (nat \<times> byte list \<times> connectpool) res" where
  "pb_pool_send SRV CMD P thd args q p =
     (let (c, p') = pool_use thd p
      in bind_res (pb_serialize (pb_ser P) SRV CMD args (pb_pack_req P q)) (\<lambda>f. Inr (c, f, p')))"

definition pb_request :: "string \<Rightarrow> string \<Rightarrow> ('any, 'q, 'r) pbproto \<Rightarrow> bool \<Rightarrow> pb_args \<Rightarrow> 'q \<Rightarrow> byte list option res" where
  "pb_request SRV CMD P cli args q =
     (if cli then bind_res (pb_serialize (pb_ser P) SRV CMD args (pb_pack_req P q)) (\<lambda>f. Inr (Some f)) else Inr None)"

definition pb_response :: "string \<Rightarrow> string \<Rightarrow> ('any, 'q, 'r) pbproto \<Rightarrow> bool \<Rightarrow> pb_args \<Rightarrow> 'r \<Rightarrow> byte list option res" where
  "pb_response SRV CMD P cli args r =
     (if cli then bind_res (pb_serialize (pb_ser P) SRV CMD args (pb_pack_res P r)) (\<lambda>f. Inr (Some f)) else Inr None)"

definition pb_onevent :: "bool \<Rightarrow> string \<Rightarrow> 'c \<Rightarrow> (string, 'c) msgdispatch \<Rightarrow> (string, 'c) msgdispatch res" where
  "pb_onevent nd CMD cb t = MsgSession.onevent nd CMD cb t"

text \<open>\<^verbatim>\<open>pbdispatch::client\<close> and \<^verbatim>\<open>clientex\<close>.\<close>

definition pb_client_dispatch :: "bool \<Rightarrow> ('any, 'q, 'r) pbproto \<Rightarrow> 'c callbacks \<Rightarrow> int \<Rightarrow> (string, 'c) msgdispatch \<Rightarrow>
    'c msgsession dispatcher" where
  "pb_client_dispatch nd P usr fd t =
     pbdispatch (\<lambda>xs. xs) (\<lambda>s. s) (\<lambda>xs. let b = pb_parse P xs in
       as_res (snd (dispatch_msg nd usr fd t (mb_method b) (sint (mb_error b)) 0 xs)))"

definition pb_clientex_dispatch :: "bool \<Rightarrow> ('any, 'q, 'r) pbproto \<Rightarrow> 'c callbacks \<Rightarrow> int \<Rightarrow> (string, 'c) msgdispatch \<Rightarrow>
    'c msgsession dispatcher" where
  "pb_clientex_dispatch nd P usr fd t =
     pbdispatch (\<lambda>xs. xs) (\<lambda>s. s) (\<lambda>xs. let b = pb_parse P xs in
       as_res (snd (dispatch_msgex nd usr fd t (mb_method b) (sint (mb_error b)) 0 xs)))"

subsection \<open>Requests are answered once\<close>

definition pb_response_base :: "string \<Rightarrow> string \<Rightarrow> ('any, 'q, 'r) pbproto \<Rightarrow> ('q, 'r) pb_controllor \<Rightarrow> 'any MsgBase" where
  "pb_response_base SRV CMD P c = pb_base SRV CMD (By_session (k_error c) (k_session c)) (pb_pack_res P (k_res c))"

definition pb_ctl_frame :: "string \<Rightarrow> string \<Rightarrow> ('any, 'q, 'r) pbproto \<Rightarrow> ('q, 'r) pb_controllor \<Rightarrow> byte list" where
  "pb_ctl_frame SRV CMD P c = PBMSG_bytes (pb_ser P (pb_response_base SRV CMD P c))"

lemma answered_pb_op: "keeps (answered_holding frame i) (run_pb_op i op)"
  by (cases op) (auto simp: set_session_def set_index_def intro!: answered_update answered_rop)

interpretation pbrpc: responder "pb_small P" "pb_ctl_ser SRV CMD P" "pb_ctl_frame SRV CMD P" run_pb_op
  for P :: "('any, 'q, 'r) pbproto" and SRV CMD
proof unfold_locales
  fix c :: "('q, 'r) pb_controllor" and frame :: "('q, 'r) pb_controllor \<Rightarrow> byte list" and i op
  show "pb_ctl_ser SRV CMD P c = Inr (pb_ctl_frame SRV CMD P c)" if "pb_small P"
    by (simp add: pb_ctl_ser_def pb_ctl_frame_def pb_response_base_def pb_serialize_bytes [OF that] del: pb_serialize.simps)
  show "keeps (answered_holding (pb_ctl_frame SRV CMD P) i) (run_pb_op i op)" by (rule answered_pb_op)
qed

lemma pb_answered_handle:
  assumes "pb_small P"
  shows "keeps (answered (pb_ctl_frame SRV CMD P)) (try_catch (pb_handle SRV CMD P meth cli buf))"
proof (rule keepsI)
  fix s assume s: "answered (pb_ctl_frame SRV CMD P) s"
  let ?m = "pb_parse P buf"
  have "keeps (answered_holding (pb_ctl_frame SRV CMD P) i) (try_catch
      (bnd (ctl_update i (\<lambda>c. c\<lparr>k_req := unpack_to (pb_unpack_req P) (mb_data ?m) (k_req c)\<rparr>)) (\<lambda>_.
            bnd (set_session (mb_session ?m) i) (\<lambda>_.
              bnd (set_index (mb_index ?m) i) (\<lambda>_.
                bnd (gets (\<lambda>s. let c = k_all s ! i in meth (k_req c) (k_session c) (k_index c)))
                  (run_method (run_pb_op i)))))))" for i
    unfolding set_session_def set_index_def
    by (intro keeps_try_bnd answered_update keeps_basic pbrpc.try_method_keeps) simp_all
  then show "\<exists>a s'. try_catch (pb_handle SRV CMD P meth cli buf) s = Done a s' \<and> answered (pb_ctl_frame SRV CMD P) s'"
    unfolding pb_handle_def Let_def using pbrpc.answered_scope [OF assms s] by (simp add: pb_ctl_new_def)
qed

subsection \<open>Methods that answer at once\<close>

fun pb_effect :: "'r pb_op \<Rightarrow> ('q, 'r) pb_controllor \<Rightarrow> ('q, 'r) pb_controllor" where
  "pb_effect (Op (Set_error e)) c = c\<lparr>k_error := e\<rparr>"
| "pb_effect (Op (Set_response r)) c = c\<lparr>k_res := r\<rparr>"
| "pb_effect (Op Keep) c = c"
| "pb_effect (Set_session s) c = c\<lparr>k_session := s\<rparr>"
| "pb_effect (Set_index n) c = c\<lparr>k_index := n\<rparr>"

text \<open>The controller as a method leaves it, and the message its response goes out in.\<close>

definition pb_final :: "('any, 'q, 'r) pbproto \<Rightarrow> ('q, 'r) pb_method \<Rightarrow> 'q \<Rightarrow> string \<Rightarrow> u64 \<Rightarrow> ('q, 'r) pb_controllor" where
  "pb_final P meth q s n =
     fold pb_effect (fst (meth q s n)) ((pb_ctl_new P 0)\<lparr>k_req := q, k_session := s, k_index := n\<rparr>)"

definition pb_reply :: "string \<Rightarrow> string \<Rightarrow> ('any, 'q, 'r) pbproto \<Rightarrow> ('q, 'r) pb_method \<Rightarrow> 'q \<Rightarrow> string \<Rightarrow> u64 \<Rightarrow>
    'any MsgBase" where
  "pb_reply SRV CMD P meth q s n = pb_response_base SRV CMD P (pb_final P meth q s n)"

text \<open>It does not depend on the connection, nor on the references.\<close>

lemma pb_effects_other:
  "pb_response_base SRV CMD P (fold pb_effect ops (c\<lparr>k_cli := i\<rparr>)) = pb_response_base SRV CMD P (fold pb_effect ops c)"
  "k_cli (fold pb_effect ops c) = k_cli c"
proof -
  have "fold pb_effect ops (c\<lparr>k_cli := i\<rparr>) = (fold pb_effect ops c)\<lparr>k_cli := i\<rparr> \<and> k_cli (fold pb_effect ops c) = k_cli c"
  proof (induction ops arbitrary: c)
    case (Cons op ops)
    have "pb_effect op (c\<lparr>k_cli := i\<rparr>) = (pb_effect op c)\<lparr>k_cli := i\<rparr> \<and> k_cli (pb_effect op c) = k_cli c"
      by (cases "(op, c)" rule: pb_effect.cases) simp_all
    then show ?case using Cons.IH [of "pb_effect op c"] by simp
  qed simp
  then show "pb_response_base SRV CMD P (fold pb_effect ops (c\<lparr>k_cli := i\<rparr>)) = pb_response_base SRV CMD P (fold pb_effect ops c)"
    "k_cli (fold pb_effect ops c) = k_cli c"
    by (simp_all add: pb_response_base_def)
qed

lemma pb_response_base_refs: "pb_response_base SRV CMD P (c\<lparr>k_refs := n\<rparr>) = pb_response_base SRV CMD P c"
  by (simp add: pb_response_base_def)

lemma pb_effect_refs: "k_refs (pb_effect op c) = k_refs c"
  by (cases "(op, c)" rule: pb_effect.cases) simp_all

lemma pb_effects_refs: "k_refs (fold pb_effect ops c) = k_refs c"
  by (induction ops arbitrary: c) (simp_all add: pb_effect_refs)

lemma run_pb_op_effect: "op \<noteq> Op Keep \<Longrightarrow> run_pb_op i op = ctl_update i (pb_effect op)"
proof (cases op)
  case (Op r)
  then show "op \<noteq> Op Keep \<Longrightarrow> run_pb_op i op = ctl_update i (pb_effect op)"
    by (cases r) (simp_all add: set_error_def ctl_update_def cong: if_cong)
qed (simp_all add: set_session_def set_index_def ctl_update_def cong: if_cong)

lemma pb_handle_replies:
  assumes "pb_small P" "pb_parse P buf = b" "mb_data b = Some a" "pb_unpack_req P a (pb_new_req P) = q"
    and "Op Keep \<notin> set (fst (meth q (mb_session b) (mb_index b)))"
  shows "\<exists>s'. try_catch (pb_handle SRV CMD P meth cli buf) s = Done () s' \<and>
    k_sent s' = k_sent s @ [(length (k_all s), cli,
      PBMSG_bytes (pb_ser P (pb_reply SRV CMD P meth q (mb_session b) (mb_index b))))]"
proof -
  obtain ops thrown where m: "meth q (mb_session b) (mb_index b) = (ops, thrown)" by fastforce
  let ?n = "length (k_all s)"
  let ?c0 = "(pb_ctl_new P 0)\<lparr>k_req := q, k_session := mb_session b, k_index := mb_index b\<rparr>"
  let ?c = "?c0\<lparr>k_cli := cli\<rparr>" and ?d = "fold pb_effect ops (?c0\<lparr>k_cli := cli\<rparr>)"
  let ?s = "s\<lparr>k_all := k_all s @ [?c]\<rparr>"
  have run: "each (run_pb_op ?n) ops ?s = Done () (?s\<lparr>k_all := k_all s @ [?d]\<rparr>)"
  proof (rule each_writes)
    show "run_pb_op ?n op = ctl_update ?n (pb_effect op)" if "op \<in> set ops" for op
      using that assms(5) m by (intro run_pb_op_effect) auto
  qed (simp_all add: pb_effect_refs pb_ctl_new_def)
  have d: "k_refs ?d = 1" "k_cli ?d = cli"
    by (simp_all add: pb_effects_refs pb_effects_other pb_ctl_new_def)
  have "pb_response_base SRV CMD P (?d\<lparr>k_refs := 0\<rparr>) = pb_reply SRV CMD P meth q (mb_session b) (mb_index b)"
    unfolding pb_response_base_refs pb_effects_other(1) pb_reply_def pb_final_def m fst_conv ..
  then have ser: "pb_ctl_ser SRV CMD P (?d\<lparr>k_refs := 0\<rparr>) =
      Inr (PBMSG_bytes (pb_ser P (pb_reply SRV CMD P meth q (mb_session b) (mb_index b))))"
    using pbrpc.serialized [OF assms(1)] by (simp add: pb_ctl_frame_def)
  have drop: "ctl_drop (pb_ctl_ser SRV CMD P) ?n (?s\<lparr>k_all := k_all s @ [?d]\<rparr>) =
      Done () (s\<lparr>k_all := k_all s @ [?d\<lparr>k_refs := 0\<rparr>], k_sent := k_sent s @ [(?n, cli,
        PBMSG_bytes (pb_ser P (pb_reply SRV CMD P meth q (mb_session b) (mb_index b))))]\<rparr>)"
    using d ser by (simp add: ctl_drop_def ctl_update_def ctl_destroy_def Let_def)
  have start: "pb_handle SRV CMD P meth cli buf s =
      with_local (ctl_drop (pb_ctl_ser SRV CMD P) ?n) (\<lambda>_. run_method (run_pb_op ?n) (ops, thrown) ?s) ?s"
    using m assms(2-4)
    by (simp add: pb_handle_def ctl_add_def pb_ctl_new_def set_session_def set_index_def ctl_update_def with_local_def
        unpack_to_def Let_def)
  show ?thesis
    unfolding try_catch_def start using run drop by (cases thrown) (simp_all add: with_local_def run_method_def)
qed

subsection \<open>Both ends on a connection\<close>

definition pb_server_act :: "string \<Rightarrow> string \<Rightarrow> ('any, 'q, 'r) pbproto \<Rightarrow> ('q, 'r) pb_method \<Rightarrow> int \<Rightarrow> byte list \<Rightarrow>
    ('q, 'r) pb_server \<Rightarrow> ('q, 'r) pb_server" where
  "pb_server_act SRV CMD P meth cli = (\<lambda>xs s.
     if xs = [] \<or> mb_method (pb_parse P xs) \<noteq> CMD then s
     else case try_catch (pb_handle SRV CMD P meth cli xs) s of Done a s' \<Rightarrow> s' | _ \<Rightarrow> s)"

lemma pb_on_dispatch:
  "on_dispatch (\<lambda>m cli d n. pb_handle SRV CMD P m cli d) (pb_add_method CMD meth Map.empty) cli cmd xs n =
     (if cmd = CMD then try_catch (pb_handle SRV CMD P meth cli xs) else skip)"
  by (simp add: on_dispatch_def pb_add_method_def add_method_def emplace_map_apply)

interpretation pb_link_server: stream_frames "pb_server_dispatch SRV CMD P meth cli" 4
    "\<lambda>xs. PBMSG_ok xs \<and> pb_small P" PBMSG_bytes "pb_server_act SRV CMD P meth cli" "answered (pb_ctl_frame SRV CMD P)"
  for SRV CMD meth cli and P :: "('any, 'q, 'r) pbproto"
proof
  fix xs mem :: "byte list" and n :: int and k :: nat and st :: "('q, 'r) pb_server"
  assume ok: "PBMSG_ok xs \<and> pb_small P"
  have len: "sizeof_PBMSG + length xs < 2 ^ 31" using ok by (simp add: PBMSG_ok_def)
  show "PBMSG_bytes xs \<noteq> []" by (rule PBMSG_bytes_nonempty)
  show "length (PBMSG_bytes xs) + 0x1000 < 2 ^ 31" using ok by (simp add: PBMSG_ok_def)
  have run: "\<exists>s'. try_catch (pb_handle SRV CMD P meth cli xs) st = Done () s' \<and> answered (pb_ctl_frame SRV CMD P) s'"
    if "answered (pb_ctl_frame SRV CMD P) st"
    using keepsD [OF pb_answered_handle that] ok by fastforce
  show "answered (pb_ctl_frame SRV CMD P) (pb_server_act SRV CMD P meth cli xs st)"
    if "answered (pb_ctl_frame SRV CMD P) st"
    using run [OF that] that by (auto simp: pb_server_act_def)
  show "pb_server_dispatch SRV CMD P meth cli mem n st =
      Inr (int (length (PBMSG_bytes xs)), pb_server_act SRV CMD P meth cli xs st)"
    if "answered (pb_ctl_frame SRV CMD P) st" "take (length (PBMSG_bytes xs)) mem = PBMSG_bytes xs"
      "int (length (PBMSG_bytes xs)) \<le> n"
    unfolding pb_server_dispatch_def
    by (subst pbdispatch_full [OF front_frame [OF that(2)] len])
       (use that(3) run [OF that(1)] in \<open>auto simp: pb_on_dispatch pb_server_act_def as_res_def\<close>)
  show "pb_server_dispatch SRV CMD P meth cli mem (int k) st = Inr (0, st)"
    if "4 \<le> k" "k < length (PBMSG_bytes xs)" "k \<le> length mem" "take k mem = take k (PBMSG_bytes xs)"
    using that unfolding pb_server_dispatch_def by (intro pbdispatch_partial [OF _ _ _ _ len]) simp_all
qed

definition pb_results :: "('any, 'q, 'r) pbproto \<Rightarrow> byte list \<Rightarrow> msg_results" where
  "pb_results P xs = results_set (sint (mb_error (pb_parse P xs))) 0 xs"

definition pb_client_act :: "('any, 'q, 'r) pbproto \<Rightarrow> byte list \<Rightarrow> 'c msgsession \<Rightarrow> 'c msgsession" where
  "pb_client_act P xs s = (if xs = [] then s else session_answer (pb_results P xs) s)"

interpretation pb_link_client: stream_frames "pb_client_dispatch nd P usr fd t" 4
    "\<lambda>xs. PBMSG_ok xs \<and> quiet_callbacks usr \<and> m_dispatch t (mb_method (pb_parse P xs)) = None" PBMSG_bytes
    "pb_client_act P" in_flight
  for nd fd t and usr :: "'c callbacks" and P :: "('any, 'q, 'r) pbproto"
proof
  fix xs mem :: "byte list" and n :: int and k :: nat and st :: "'c msgsession"
  assume ok: "PBMSG_ok xs \<and> quiet_callbacks usr \<and> m_dispatch t (mb_method (pb_parse P xs)) = None"
  have len: "sizeof_PBMSG + length xs < 2 ^ 31" using ok by (simp add: PBMSG_ok_def)
  show "PBMSG_bytes xs \<noteq> []" by (rule PBMSG_bytes_nonempty)
  show "length (PBMSG_bytes xs) + 0x1000 < 2 ^ 31" using ok by (simp add: PBMSG_ok_def)
  show "in_flight (pb_client_act P xs st)" if "in_flight st"
    using session_answer_in_flight [OF that] that by (simp add: pb_client_act_def)
  show "pb_client_dispatch nd P usr fd t mem n st = Inr (int (length (PBMSG_bytes xs)), pb_client_act P xs st)"
    if "in_flight st" "take (length (PBMSG_bytes xs)) mem = PBMSG_bytes xs" "int (length (PBMSG_bytes xs)) \<le> n"
    unfolding pb_client_dispatch_def
    by (subst pbdispatch_full [OF front_frame [OF that(2)] len])
       (use that(3) dispatch_run [OF that(1), of usr t "mb_method (pb_parse P xs)" nd fd
          "sint (mb_error (pb_parse P xs))" 0 xs] ok
        in \<open>auto simp: Let_def as_res_def pb_client_act_def pb_results_def\<close>)
  show "pb_client_dispatch nd P usr fd t mem (int k) st = Inr (0, st)"
    if "4 \<le> k" "k < length (PBMSG_bytes xs)" "k \<le> length mem" "take k mem = take k (PBMSG_bytes xs)"
    using that unfolding pb_client_dispatch_def by (intro pbdispatch_partial [OF _ _ _ _ len]) simp_all
qed

text \<open>A library whose empty message is the new one, and a call it carries: both messages are read as they were
  written, and the method lets its controller go before it returns. Of a message that has data something is
  written then, so no request is taken for a heartbeat.\<close>

definition pb_lib :: "('any, 'q, 'r) pbproto \<Rightarrow> bool" where
  "pb_lib P \<longleftrightarrow> pb_small P \<and> pb_parse P [] = MsgBase_new"

definition pb_carries :: "string \<Rightarrow> string \<Rightarrow> ('any, 'q, 'r) pbproto \<Rightarrow> ('q, 'r) pb_method \<Rightarrow> pb_args \<Rightarrow> 'q \<Rightarrow> bool" where
  "pb_carries SRV CMD P meth args q \<longleftrightarrow>
     (let b = pb_base SRV CMD args (pb_pack_req P q);
          c = pb_final P meth q (mb_session b) (mb_index b);
          b' = pb_response_base SRV CMD P c
      in pb_parse P (pb_ser P b) = b \<and> pb_parse P (pb_ser P b') = b' \<and>
         pb_unpack_req P (pb_pack_req P q) (pb_new_req P) = q \<and>
         pb_unpack_res P (pb_pack_res P (k_res c)) (pb_new_res P) = k_res c \<and>
         Op Keep \<notin> set (fst (meth q (mb_session b) (mb_index b))))"

lemma pb_ser_nonempty: "pb_lib P \<Longrightarrow> pb_parse P (pb_ser P b) = b \<Longrightarrow> mb_data b = Some a \<Longrightarrow> pb_ser P b \<noteq> []"
  by (auto simp: pb_lib_def MsgBase_new_def)

lemma pb_lib_ok: "pb_lib P \<Longrightarrow> PBMSG_ok (pb_ser P b)" "pb_lib P \<Longrightarrow> pb_small P"
  by (simp_all add: pb_lib_def pb_small_def)

text \<open>What the caller should be given.\<close>

definition pb_call_result :: "string \<Rightarrow> string \<Rightarrow> ('any, 'q, 'r) pbproto \<Rightarrow> ('q, 'r) pb_method \<Rightarrow> pb_args \<Rightarrow> 'q \<Rightarrow>
    int \<times> 'any MsgBase option \<times> 'r" where
  "pb_call_result SRV CMD P meth args q =
     (let b = pb_base SRV CMD args (pb_pack_req P q); c = pb_final P meth q (mb_session b) (mb_index b)
      in (sint (k_error c), Some (pb_response_base SRV CMD P c), k_res c))"

definition pb_request_frame where
  "pb_request_frame SRV CMD P args q = PBMSG_bytes (pb_ser P (pb_base SRV CMD args (pb_pack_req P q)))"

definition pb_response_body where
  "pb_response_body SRV CMD P meth args q =
     (let b = pb_base SRV CMD args (pb_pack_req P q)
      in pb_ser P (pb_reply SRV CMD P meth q (mb_session b) (mb_index b)))"

lemma pb_result_decoded:
  assumes "pb_lib P" "pb_carries SRV CMD P meth args q"
  shows "pb_oncallback P (pb_results P (pb_response_body SRV CMD P meth args q)) = pb_call_result SRV CMD P meth args q"
    "pb_response_body SRV CMD P meth args q \<noteq> []"
    "mb_method (pb_parse P (pb_response_body SRV CMD P meth args q)) = CMD"
proof -
  let ?b = "pb_base SRV CMD args (pb_pack_req P q)"
  let ?c = "pb_final P meth q (mb_session ?b) (mb_index ?b)"
  have parse: "pb_parse P (pb_ser P (pb_response_base SRV CMD P ?c)) = pb_response_base SRV CMD P ?c"
    and unpack: "pb_unpack_res P (pb_pack_res P (k_res ?c)) (pb_new_res P) = k_res ?c"
    using assms(2) by (simp_all add: pb_carries_def Let_def)
  have fields: "mb_error (pb_response_base SRV CMD P ?c) = k_error ?c"
    "mb_method (pb_response_base SRV CMD P ?c) = CMD"
    "mb_data (pb_response_base SRV CMD P ?c) = Some (pb_pack_res P (k_res ?c))"
    by (simp_all add: pb_response_base_def MsgBase_set_def)
  have body: "pb_response_body SRV CMD P meth args q = pb_ser P (pb_response_base SRV CMD P ?c)"
    by (simp add: pb_response_body_def pb_reply_def Let_def)
  show ne: "pb_response_body SRV CMD P meth args q \<noteq> []"
    unfolding body by (rule pb_ser_nonempty [OF assms(1) parse fields(3)])
  show "mb_method (pb_parse P (pb_response_body SRV CMD P meth args q)) = CMD"
    unfolding body parse by (rule fields(2))
  show "pb_oncallback P (pb_results P (pb_response_body SRV CMD P meth args q)) = pb_call_result SRV CMD P meth args q"
    using ne unfolding body
    by (simp add: pb_oncallback_def pb_results_def results_set_def parse fields unpack unpack_to_def pb_call_result_def Let_def)
qed

lemma pb_request_handled:
  assumes "pb_lib P" "pb_carries SRV CMD P meth args q"
  shows "k_sent (pb_server_act SRV CMD P meth cli (pb_ser P (pb_base SRV CMD args (pb_pack_req P q))) s) =
    k_sent s @ [(length (k_all s), cli, PBMSG_bytes (pb_response_body SRV CMD P meth args q))]"
proof -
  let ?b = "pb_base SRV CMD args (pb_pack_req P q)"
  have parse: "pb_parse P (pb_ser P ?b) = ?b" using assms(2) by (simp add: pb_carries_def Let_def)
  have ne: "pb_ser P ?b \<noteq> []" by (rule pb_ser_nonempty [OF assms(1) parse]) simp
  obtain s' where "try_catch (pb_handle SRV CMD P meth cli (pb_ser P ?b)) s = Done () s'"
    "k_sent s' = k_sent s @ [(length (k_all s), cli, PBMSG_bytes (pb_response_body SRV CMD P meth args q))]"
    using pb_handle_replies [OF pb_lib_ok(2) [OF assms(1)] parse, of "pb_pack_req P q" q meth SRV CMD cli s] assms(2)
    by (auto simp: pb_carries_def pb_response_body_def Let_def)
  then show ?thesis using ne parse by (simp add: pb_server_act_def)
qed

interpretation pb_calls: call_link "pb_query SRV CMD P" "pb_client_dispatch nd P usr fd t"
    "pb_server_dispatch SRV CMD P meth cli" "answered (pb_ctl_frame SRV CMD P)"
    "\<lambda>q. pb_lib P \<and> quiet_callbacks usr \<and> m_dispatch t CMD = None \<and> pb_carries SRV CMD P meth (By_error 0) q"
    "pb_request_frame SRV CMD P (By_error 0)" "\<lambda>q. PBMSG_bytes (pb_response_body SRV CMD P meth (By_error 0) q)"
    "\<lambda>q. pb_results P (pb_response_body SRV CMD P meth (By_error 0) q)"
  for SRV CMD meth t nd fd cli and P :: "('any, 'q, 'r) pbproto" and usr :: "'c callbacks"
proof
  fix q :: 'q and acc :: "('q, 'r) pb_server client" and st :: "('q, 'r) pb_server" and ns fresh
    and rd :: "'c msgsession client" and ses :: "'c msgsession"
  let ?req = "pb_ser P (pb_base SRV CMD (By_error 0) (pb_pack_req P q))"
  let ?res = "pb_response_body SRV CMD P meth (By_error 0) q"
  show "answered (pb_ctl_frame SRV CMD P) controllers_new" by (rule answered_new)
  assume q: "pb_lib P \<and> quiet_callbacks usr \<and> m_dispatch t CMD = None \<and> pb_carries SRV CMD P meth (By_error 0) q"
  then have lib: "pb_lib P" and car: "pb_carries SRV CMD P meth (By_error 0) q" by simp_all
  note ok = pb_lib_ok [OF lib]
  have okq: "PBMSG_ok ?req \<and> pb_small P" using ok by simp
  show "pb_query SRV CMD P q = Inr (pb_request_frame SRV CMD P (By_error 0) q)"
    unfolding pb_query_def pb_request_frame_def by (rule pb_serialize_bytes [OF ok(2)])
  show "\<exists>acc' st' i to. client_recv fresh (map recv_of (pieces ns (pb_request_frame SRV CMD P (By_error 0) q))) acc st = Inr (acc', st') \<and>
      idle_reader (pb_server_dispatch SRV CMD P meth cli) acc' \<and> answered (pb_ctl_frame SRV CMD P) st' \<and>
      k_sent st' = k_sent st @ [(i, to, PBMSG_bytes ?res)]"
    if "idle_reader (pb_server_dispatch SRV CMD P meth cli) acc" "answered (pb_ctl_frame SRV CMD P) st"
      "readable ns (pb_request_frame SRV CMD P (By_error 0) q)"
    using pb_link_server.recv_pieces [OF that(1) okq that(2), of ns fresh]
      pb_link_server.keeps_good [OF okq that(2)]
      pb_request_handled [OF lib car] that(3) unfolding pb_request_frame_def by blast
  show "\<exists>rd'. client_recv fresh (map recv_of (pieces ns (PBMSG_bytes ?res))) rd ses =
      Inr (rd', session_answer (pb_results P ?res) ses) \<and> idle_reader (pb_client_dispatch nd P usr fd t) rd'"
    if "idle_reader (pb_client_dispatch nd P usr fd t) rd" "in_flight ses" "readable ns (PBMSG_bytes ?res)"
  proof -
    have "PBMSG_ok ?res \<and> quiet_callbacks usr \<and> m_dispatch t (mb_method (pb_parse P ?res)) = None"
      using q ok(1) pb_result_decoded(3) [OF lib car] by (simp add: pb_response_body_def Let_def)
    then show ?thesis
      using pb_link_client.recv_pieces [OF that(1) _ that(2), of ?res ns fresh] that(3) pb_result_decoded(2) [OF lib car]
      by (simp add: pb_client_act_def)
  qed
qed

subsection \<open>Properties\<close>

definition pb_received :: "('any, 'q, 'r) pbproto \<Rightarrow> 'c event list \<Rightarrow> ('c option \<times> int \<times> 'any MsgBase option \<times> 'r) list" where
  "pb_received P tr = map (\<lambda>(cb, r). (cb, pb_oncallback P r)) (results_of tr)"

definition pb_link_open :: "bool \<Rightarrow> string \<Rightarrow> string \<Rightarrow> ('any, 'q, 'r) pbproto \<Rightarrow> ('q, 'r) pb_method \<Rightarrow> 'c callbacks \<Rightarrow>
    (string, 'c) msgdispatch \<Rightarrow> int \<Rightarrow> int \<Rightarrow> (nat \<Rightarrow> byte) \<Rightarrow> ('q \<times> 'c) list \<Rightarrow> (('q, 'r) pb_controllor, 'c) link res" where
  "pb_link_open nd SRV CMD P meth usr t fd cli =
     open_link (pb_query SRV CMD P) usr (pb_client_dispatch nd P usr fd t) (pb_server_dispatch SRV CMD P meth cli) fd cli"


text \<open>A library for examples, of six messages.\<close>

definition sample_table :: "(byte list \<times> bool MsgBase) list" where
  "sample_table =
     [([1], pb_base ''s'' ''m'' (By_error 0) True), ([2], pb_base ''s'' ''m'' (By_error 0) False),
      ([3], pb_base ''s'' ''m'' (By_session 5 []) True), ([4], pb_base ''s'' ''m'' (By_session 5 []) False),
      ([5], pb_base ''s'' ''m'' (By_index_session 0 7 ''u'') True), ([6], pb_base ''s'' ''m'' (By_session 5 ''u'') True)]"

definition sample_pb :: "(bool, bool, bool) pbproto" where
  "sample_pb = \<lparr>pb_ser = (\<lambda>b. case find (\<lambda>(xs, m). m = b) sample_table of None \<Rightarrow> [] | Some (xs, m) \<Rightarrow> take 1 xs),
     pb_parse = (\<lambda>xs. case map_of sample_table xs of None \<Rightarrow> MsgBase_new | Some m \<Rightarrow> m),
     pb_pack_req = (\<lambda>q. q), pb_unpack_req = (\<lambda>a _. a), pb_pack_res = (\<lambda>r. r), pb_unpack_res = (\<lambda>a _. a),
     pb_new_req = False, pb_new_res = False\<rparr>"

definition sample_method :: "(bool, bool) pb_method" where
  "sample_method q s n = ([Op (Set_error 5), Op (Set_response q)], \<not> q)"

lemma sample_pb_lib: "pb_lib sample_pb"
proof -
  have "length (take 1 xs) \<le> 1" for xs :: "byte list" by simp
  then have "length (pb_ser sample_pb b) \<le> 1" for b
    by (auto simp: sample_pb_def split: option.splits)
  then have "PBMSG_ok (pb_ser sample_pb b)" for b
    using order_le_less_trans [of "sizeof_PBMSG + length (pb_ser sample_pb b) + 0x1000" 4101 "2 ^ 31"]
    by (simp add: PBMSG_ok_def sizeof_PBMSG_def)
  then show ?thesis by (simp add: pb_lib_def pb_small_def sample_pb_def sample_table_def)
qed

lemmas sample_simps = pb_carries_def pb_final_def pb_response_base_def sample_pb_def sample_method_def sample_table_def
  pb_ctl_new_def MsgBase_set_def MsgBase_new_def Let_def

lemma sample_carries: "pb_carries ''s'' ''m'' sample_pb sample_method (By_error 0) q"
  "pb_carries ''s'' ''m'' sample_pb sample_method (By_index_session 0 7 ''u'') True"
  by (cases q) (simp_all add: sample_simps)

lemma sample_frames: "pb_request_frame ''s'' ''m'' sample_pb (By_error 0) q = PBMSG_bytes [if q then 1 else 2]"
  "pb_response_body ''s'' ''m'' sample_pb sample_method (By_error 0) q = [if q then 3 else 4]"
  by (cases q; simp add: pb_request_frame_def pb_response_body_def pb_reply_def sample_simps)+


text \<open>C30: A request with any of the optional fields comes through to the method, which sees its session and its
  index, and the response comes back to the callback with the error and the response the method left, under
  the server's and the method's name and, unless the method sets another, the session of the request; the
  index of the request is not in it, although the controller keeps it.\<close>

theorem pb_roundtrip:
  assumes "pb_lib P" "pb_carries SRV CMD P meth args q"
    and "c = pb_final P meth q (mb_session (pb_base SRV CMD args ())) (mb_index (pb_base SRV CMD args ()))"
  shows "\<exists>f s' g b. pb_request SRV CMD P True args q = Inr (Some f) \<and>
    pb_server_dispatch SRV CMD P meth cli (f @ rest) (int (length f)) s = Inr (int (length f), s') \<and>
    k_sent s' = k_sent s @ [(length (k_all s), cli, g)] \<and>
    pbdispatch (\<lambda>xs. xs) (\<lambda>x. x) (\<lambda>xs x. Inr (x @ [pb_oncallback P (pb_results P xs)])) (g @ rest') (int (length g)) [] =
      Inr (int (length g), [(sint (k_error c), Some b, k_res c)]) \<and>
    mb_server b = SRV \<and> mb_method b = CMD \<and> mb_session b = k_session c \<and> mb_index b = 0"
proof -
  let ?b = "pb_base SRV CMD args (pb_pack_req P q)"
  let ?f = "PBMSG_bytes (pb_ser P ?b)" and ?g = "PBMSG_bytes (pb_response_body SRV CMD P meth args q)"
  let ?s = "pb_server_act SRV CMD P meth cli (pb_ser P ?b) s"
  have same: "mb_session (pb_base SRV CMD args ()) = mb_session ?b" "mb_index (pb_base SRV CMD args ()) = mb_index ?b"
    by (cases args; simp add: MsgBase_set_def MsgBase_new_def)+
  have result: "pb_call_result SRV CMD P meth args q = (sint (k_error c), Some (pb_response_base SRV CMD P c), k_res c)"
    unfolding assms(3) same by (simp add: pb_call_result_def Let_def)
  have f: "pb_request SRV CMD P True args q = Inr (Some ?f)"
    using pb_serialize_bytes [OF pb_lib_ok(2) [OF assms(1)]] by (simp add: pb_request_def)
  have parse: "pb_parse P (pb_ser P ?b) = ?b" using assms(2) by (simp add: pb_carries_def Let_def)
  have ne: "pb_ser P ?b \<noteq> []" by (rule pb_ser_nonempty [OF assms(1) parse]) simp
  obtain s' where s': "try_catch (pb_handle SRV CMD P meth cli (pb_ser P ?b)) s = Done () s'"
    using pb_handle_replies [OF pb_lib_ok(2) [OF assms(1)] parse, of "pb_pack_req P q" q meth SRV CMD cli s] assms(2)
    by (auto simp: pb_carries_def Let_def)
  have "pb_server_dispatch SRV CMD P meth cli (?f @ rest) (int (length ?f)) s = Inr (int (length ?f), ?s)"
    unfolding pb_server_dispatch_def
    by (subst pbdispatch_full [OF refl pb_small_len [OF pb_lib_ok(2) [OF assms(1)]]])
       (use ne parse s' in \<open>simp_all add: pb_on_dispatch as_res_def pb_server_act_def\<close>)
  moreover have "k_sent ?s = k_sent s @ [(length (k_all s), cli, ?g)]" by (rule pb_request_handled [OF assms(1,2)])
  moreover have "pbdispatch (\<lambda>xs. xs) (\<lambda>x. x) (\<lambda>xs x. Inr (x @ [pb_oncallback P (pb_results P xs)])) (?g @ rest') (int (length ?g)) [] =
      Inr (int (length ?g), [(sint (k_error c), Some (pb_response_base SRV CMD P c), k_res c)])"
    unfolding pb_response_body_def Let_def
    by (subst pbdispatch_full [OF refl pb_small_len [OF pb_lib_ok(2) [OF assms(1)]]])
       (use pb_result_decoded [OF assms(1,2)] result in \<open>simp_all add: pb_response_body_def Let_def\<close>)
  moreover have "mb_server (pb_response_base SRV CMD P c) = SRV \<and> mb_method (pb_response_base SRV CMD P c) = CMD \<and>
      mb_session (pb_response_base SRV CMD P c) = k_session c \<and> mb_index (pb_response_base SRV CMD P c) = 0"
    by (simp add: pb_response_base_def MsgBase_set_def MsgBase_new_def)
  ultimately show ?thesis using f by blast
qed

theorem pb_roundtrip_witness:
  "\<exists>f s' g b. pb_request ''s'' ''m'' sample_pb True (By_index_session 0 7 ''u'') True = Inr (Some f) \<and>
    pb_server_dispatch ''s'' ''m'' sample_pb sample_method 9 (f @ [1]) (int (length f)) controllers_new = Inr (int (length f), s') \<and>
    k_sent s' = k_sent (controllers_new :: (bool, bool) pb_server) @
      [(length (k_all (controllers_new :: (bool, bool) pb_server)), 9, g)] \<and>
    pbdispatch (\<lambda>xs. xs) (\<lambda>x. x) (\<lambda>xs x. Inr (x @ [pb_oncallback sample_pb (pb_results sample_pb xs)])) (g @ [2]) (int (length g)) [] =
      Inr (int (length g), [(sint (5 :: i32), Some b, True)]) \<and>
    mb_server b = ''s'' \<and> mb_method b = ''m'' \<and> mb_session b = ''u'' \<and> mb_index b = 0"
  using pb_roundtrip [OF sample_pb_lib sample_carries(2) refl, of 9 "[1]" controllers_new "[2]"]
  by (simp add: pb_final_def sample_method_def pb_ctl_new_def MsgBase_set_def MsgBase_new_def sample_pb_def)

text \<open>What \<open>rpc_answers_once\<close> says of \<^verbatim>\<open>rpc\<close> holds of \<^verbatim>\<open>pbrpc\<close> too: whatever a method does with its
  controller and whatever is done with the kept ones, each request is answered at most once, and exactly when
  the last reference is gone, with the error, the session and the response the controller held then.\<close>

theorem pb_answers_once:
  assumes "pb_small P"
  shows "\<exists>s. each (ctl_step (pb_ctl_ser SRV CMD P) run_pb_op (pb_handle SRV CMD P meth)) xs controllers_new = Done () s \<and>
    distinct (map fst (k_sent s)) \<and>
    fst ` set (k_sent s) = {i. i < length (k_all s) \<and> k_refs (k_all s ! i) = 0} \<and>
    k_sent s = map (\<lambda>i. (i, k_cli (k_all s ! i), pb_ctl_frame SRV CMD P (k_all s ! i))) (map fst (k_sent s))"
  by (rule pbrpc.answers_once [OF assms pb_answered_handle [OF assms]])

theorem pb_answers_once_witness:
  "\<exists>s. each (ctl_step (pb_ctl_ser ''s'' ''m'' sample_pb) run_pb_op
         (pb_handle ''s'' ''m'' sample_pb (\<lambda>q s n. ([Op Keep, Set_session ''u'', Op (Set_response q)], True))))
       [Request 9 [1], Request 9 [2], Late 0 (Op (Set_error 5)), Release 0] controllers_new = Done () s \<and>
    distinct (map fst (k_sent s)) \<and>
    fst ` set (k_sent s) = {i. i < length (k_all s) \<and> k_refs (k_all s ! i) = 0} \<and>
    k_sent s = map (\<lambda>i. (i, k_cli (k_all s ! i), pb_ctl_frame ''s'' ''m'' sample_pb (k_all s ! i))) (map fst (k_sent s))"
  by (rule pb_answers_once [OF pb_lib_ok(2) [OF sample_pb_lib]])

text \<open>A query that is not answered gives its callback the error, no message and a new response: what
  \<^verbatim>\<open>__onclose\<close> and \<^verbatim>\<open>__retry_timeout\<close> of the session hand it.\<close>

lemma pb_unanswered: "pb_oncallback P (results_error e) = (e, None, pb_new_res P)"
  by (simp add: pb_oncallback_def results_error_def)

text \<open>A method registered for events takes the responses of the queries with its name: the event's callback
  gets them, the query stays in flight, and the queries behind it wait.\<close>

theorem event_takes_response:
  assumes "in_flight ses" "ms_list ses = q # rest" "quiet_callbacks usr" "m_dispatch t CMD = None"
    and "pb_onevent nd CMD cb t = Inr t'" "mb_method (pb_parse P xs) = CMD" "xs \<noteq> []" "PBMSG_ok xs"
  shows "pb_client_dispatch nd P usr fd t' (PBMSG_bytes xs @ more') (int (length (PBMSG_bytes xs))) ses =
    Inr (int (length (PBMSG_bytes xs)), ses)"
proof -
  have len: "sizeof_PBMSG + length xs < 2 ^ 31" using assms(8) by (simp add: PBMSG_ok_def)
  have event: "m_dispatch t' CMD = Some cb"
    using assms(4,5) by (auto simp: pb_onevent_def MsgSession.onevent_def emplace_map_apply split: if_splits)
  have "usr cb (results_set e 0 xs) ses = Done () ses \<or> usr cb (results_set e 0 xs) ses = Threw ses" for e
    using assms(3) by (simp add: quiet_callbacks_def)
  then have "try_catch (usr cb (results_set e 0 xs)) ses = Done () ses" for e
    by (metis exec.simps(10,11) try_catch_def)
  moreover have "ms_send_next usr fd ses = Done () ses"
    using assms(1,2) by (simp add: ms_send_next_def in_flight_def bnd_def)
  ultimately have "snd (dispatch_msg nd usr fd t' CMD e 0 xs) ses = Done () ses" for e
    by (simp add: dispatch_msg_def event)
  then show ?thesis
    unfolding pb_client_dispatch_def
    by (subst pbdispatch_full [OF refl len]) (simp_all add: assms(6,7) as_res_def)
qed

end
