(* ===== verification/Support.thy ===== *)
theory Support
  imports Prelude
begin

text \<open>
  Small parts the services share: joining text and numbers (\<^verbatim>\<open>joint.h\<close>, \<^verbatim>\<open>joint.cpp\<close>), the
  condition of several votes (\<^verbatim>\<open>logic/condition.cpp\<close>), the heartbeat of a connection
  (\<^verbatim>\<open>net/heartbeat.cpp\<close>) and the numbering of threads (\<^verbatim>\<open>thdid.cpp\<close>).
\<close>

subsection \<open>ostring\<close>

text \<open>\<^verbatim>\<open>std::to_string\<close> of an integer.\<close>

definition digit_char :: "nat \<Rightarrow> char" where
  "digit_char n = ''0123456789'' ! n"

fun nat_digits :: "nat \<Rightarrow> string" where
  "nat_digits n = (if n < 10 then [digit_char n] else nat_digits (n div 10) @ [digit_char (n mod 10)])"

declare nat_digits.simps [simp del]

definition to_string :: "int \<Rightarrow> string" where
  "to_string i = (if i < 0 then CHR ''-'' # nat_digits (nat (- i)) else nat_digits (nat i))"

datatype joint_arg = Text string | Number int

text \<open>An \<^verbatim>\<open>ostring\<close> is what its stream holds; \<^verbatim>\<open>joint\<close> adds to it and answers all of it.\<close>

fun joint1 :: "string \<Rightarrow> joint_arg \<Rightarrow> string" where
  "joint1 oss (Text t) = oss @ t"
| "joint1 oss (Number n) = oss @ to_string n"

definition ostring_joint :: "joint_arg list \<Rightarrow> string \<Rightarrow> string \<times> string" where
  "ostring_joint args oss = (let oss = foldl joint1 oss args in (oss, oss))"

definition ostring_joint_with :: "string \<Rightarrow> joint_arg \<Rightarrow> joint_arg list \<Rightarrow> string \<Rightarrow> string \<times> string" where
  "ostring_joint_with sep first args oss =
     (let oss = foldl (\<lambda>oss a. snd (ostring_joint [Text sep, a] oss)) (joint1 oss first) args
      in (oss, oss))"

definition ostring_clear :: "string \<Rightarrow> string" where
  "ostring_clear oss = []"

fun arg_text :: "joint_arg \<Rightarrow> string" where
  "arg_text (Text t) = t"
| "arg_text (Number n) = to_string n"

lemma joint1_text: "joint1 oss a = oss @ arg_text a"
  by (cases a) simp_all

lemma joint_text: "ostring_joint args oss = (oss @ concat (map arg_text args), oss @ concat (map arg_text args))"
proof -
  have "foldl joint1 oss args = oss @ concat (map arg_text args)"
    by (induction args arbitrary: oss) (simp_all add: joint1_text)
  then show ?thesis by (simp add: ostring_joint_def Let_def)
qed

fun intercalate :: "string \<Rightarrow> string list \<Rightarrow> string" where
  "intercalate sep [] = []"
| "intercalate sep [x] = x"
| "intercalate sep (x # y # ys) = x @ sep @ intercalate sep (y # ys)"

lemma intercalate_Cons: "intercalate sep (x # xs) = x @ concat (map (\<lambda>y. sep @ y) xs)"
  by (induction xs arbitrary: x) simp_all

text \<open>\<^verbatim>\<open>joint_with\<close> on a cleared stream puts the separator between the arguments and nowhere
  else; on one that was not cleared the text goes on from what \<^verbatim>\<open>joint\<close> left in it.\<close>

theorem joint_with_intercalates:
  "fst (ostring_joint_with sep a as oss) = oss @ intercalate sep (map arg_text (a # as))"
proof -
  have "foldl (\<lambda>oss a. snd (ostring_joint [Text sep, a] oss)) oss as =
      oss @ concat (map (\<lambda>y. sep @ y) (map arg_text as))" for oss
    by (induction "as" arbitrary: oss) (simp_all add: joint_text)
  then show ?thesis
    by (simp add: ostring_joint_with_def Let_def joint1_text intercalate_Cons)
qed

subsection \<open>condition\<close>

text \<open>Votes: \<open>-1\<close> is open, 0 against, anything else for. The two callbacks are programs over
  a state of the user's, each answering an \<^verbatim>\<open>int\<close>; an empty one throws when called.\<close>

record 'c condition =
  m_votes :: "int list"
  m_success :: "'c option"
  m_failed :: "'c option"

definition condition_new :: "int \<Rightarrow> 'c condition" where
  "condition_new c = \<lparr>m_votes = replicate (nat c) (-1), m_success = None, m_failed = None\<rparr>"

definition condition_callbacks :: "'c option \<Rightarrow> 'c option \<Rightarrow> 'c condition \<Rightarrow> 'c condition" where
  "condition_callbacks success failed c = c\<lparr>m_success := success, m_failed := failed\<rparr>"

text \<open>The loop over the votes: \<open>None\<close> for the early return, else \<open>r\<close>.\<close>

fun tally :: "int list \<Rightarrow> bool \<Rightarrow> bool option" where
  "tally [] r = Some r"
| "tally (v # vs) r = (if v = -1 then None else tally vs (if v = 0 then False else r))"

definition condition_set ::
    "('c \<Rightarrow> ('s, int) prog) \<Rightarrow> int \<Rightarrow> int \<Rightarrow> 'c condition \<Rightarrow> 'c condition \<times> ('s, int) prog" where
  "condition_set usr pos st c =
     (let c = (if 0 \<le> pos \<and> pos < int (length (m_votes c))
               then c\<lparr>m_votes := (m_votes c)[nat pos := st]\<rparr> else c);
          call = (\<lambda>cb. case cb of None \<Rightarrow> throw | Some f \<Rightarrow> usr f)
      in (c, case tally (m_votes c) True of
               None \<Rightarrow> ret 0
             | Some r \<Rightarrow> if r then call (m_success c) else call (m_failed c)))"

lemma tally_spec:
  "tally vs r = (if -1 \<in> set vs then None else Some (r \<and> 0 \<notin> set vs))"
  by (induction vs arbitrary: r) auto

text \<open>A vote decides the condition exactly when it leaves none open: then the success callback runs
  if no vote is against and the failure callback otherwise, once for this vote; until then nothing runs
  and 0 is answered. A position out of range changes no vote.\<close>

theorem condition_decides:
  assumes "condition_set usr pos st c = (c', act)"
    and "m_success c = Some s" "m_failed c = Some f"
    and "vs = (if 0 \<le> pos \<and> pos < int (length (m_votes c)) then (m_votes c)[nat pos := st] else m_votes c)"
  shows "m_votes c' = vs \<and>
    act = (if -1 \<in> set vs then ret 0 else if 0 \<in> set vs then usr f else usr s)"
  using assms by (auto simp: condition_set_def Let_def tally_spec)

theorem condition_decides_witness:
  "m_votes (fst (condition_set (\<lambda>c. ret c :: (unit, int) prog) 1 0
       \<lparr>m_votes = [1, -1], m_success = Some 5, m_failed = Some 7\<rparr>)) = [1, 0] \<and>
   snd (condition_set (\<lambda>c. ret c :: (unit, int) prog) 1 0
       \<lparr>m_votes = [1, -1], m_success = Some 5, m_failed = Some 7\<rparr>) = ret 7"
  using condition_decides
    [of "\<lambda>c. ret c :: (unit, int) prog" 1 0 "\<lparr>m_votes = [1, -1], m_success = Some 5, m_failed = Some 7\<rparr>",
      OF surjective_pairing, of 5 7 "[1, 0]"]
  by simp

subsection \<open>heartbeat\<close>

text \<open>
  The counter of a connection: \<^verbatim>\<open>tick\<close> at every message, \<^verbatim>\<open>ontime\<close> every 15 seconds.
  What \<^verbatim>\<open>ontime\<close> calls is its second result. A counter at the largest \<^verbatim>\<open>int\<close> overflows.
\<close>

definition g_timeout :: int where "g_timeout = 15 * 1000"

datatype hb_call = Onsend | Onend

definition tick :: "int \<Rightarrow> int res" where
  "tick n = (if n = 2 ^ 31 - 1 then Inl Ub else Inr (n + 1))"

definition ontime :: "int \<Rightarrow> int \<times> hb_call" where
  "ontime n = (if 0 < n then (0, Onsend) else if n = 0 then (-1, Onsend) else (n, Onend))"

datatype hb_stim = Tick | Expiry

fun hb_run :: "hb_stim list \<Rightarrow> int \<Rightarrow> (int \<times> hb_call list) res" where
  "hb_run [] n = Inr (n, [])"
| "hb_run (Tick # ss) n = bind_res (tick n) (hb_run ss)"
| "hb_run (Expiry # ss) n =
     bind_res (hb_run ss (fst (ontime n))) (\<lambda>(m, cs). Inr (m, snd (ontime n) # cs))"

definition heartbeat_new :: int where "heartbeat_new = 1"

lemma hb_run_append:
  "hb_run (ss @ ts) n =
     bind_res (hb_run ss n) (\<lambda>(m, cs). bind_res (hb_run ts m) (\<lambda>(k, ds). Inr (k, cs @ ds)))"
proof (induction ss n rule: hb_run.induct)
  case (1 n)
  then show ?case by (cases "hb_run ts n") auto
next
  case (2 ss n)
  then show ?case by (cases "tick n") auto
next
  case (3 ss n)
  show ?case
  proof (cases "hb_run ss (fst (ontime n))")
    case (Inr r)
    then show ?thesis using 3 by (cases r; cases "hb_run ts (fst r)") auto
  qed (use 3 in simp)
qed

lemma hb_run_bounds:
  assumes "hb_run ss n = Inr (m, cs)" "-1 \<le> n"
  shows "-1 \<le> m \<and> m \<le> max n 0 + int (length ss)"
  using assms
proof (induction ss n arbitrary: m cs rule: hb_run.induct)
  case (1 n)
  then show ?case by simp
next
  case (2 ss n)
  have "hb_run ss (n + 1) = Inr (m, cs)" "tick n = Inr (n + 1)"
    using 2(2) by (auto simp: tick_def split: if_splits)
  from 2(1) [OF this(2) this(1)] 2(3) show ?case by auto
next
  case (3 ss n)
  obtain ds where "hb_run ss (fst (ontime n)) = Inr (m, ds)" using 3(2) by auto
  from 3(1) [OF this] 3(3) show ?case by (cases "0 < n"; cases "n = 0") (auto simp: ontime_def)
qed

lemma hb_total:
  "-1 \<le> n \<Longrightarrow> n + int (length ss) < 2 ^ 31 \<Longrightarrow> n \<le> 2 ^ 31 - 2 - int (length ss) \<or> 0 \<le> n \<Longrightarrow>
     int (length ss) < 2 ^ 31 - 1 \<Longrightarrow> \<exists>r. hb_run ss n = Inr r"
proof (induction ss n rule: hb_run.induct)
  case (2 ss n)
  have "tick n = Inr (n + 1)" using 2(3) by (simp add: tick_def)
  moreover have "\<exists>r. hb_run ss (n + 1) = Inr r"
    by (rule 2(1) [OF calculation]) (use 2(2-5) in auto)
  ultimately show ?case by simp
next
  case (3 ss n)
  have "\<exists>r. hb_run ss (fst (ontime n)) = Inr r"
    by (rule 3(1)) (use 3(2-5) in \<open>auto simp: ontime_def split: if_splits\<close>)
  then show ?case by auto
qed simp

text \<open>C38: After any history of messages and expiries (below \<open>2 ^ 31 - 5\<close> of them), a connection that
  has had a message since the last expiry is not ended at the next one, and one that stays silent
  is ended at the third expiry at the latest and at every one after.\<close>

theorem heartbeat_detects_silence:
  assumes "int (length ss) < 2 ^ 31 - 5"
  shows "\<exists>m cs. hb_run ss heartbeat_new = Inr (m, cs) \<and>
    hb_run (ss @ [Tick, Expiry]) heartbeat_new = Inr (if m = -1 then (-1, cs @ [Onsend]) else (0, cs @ [Onsend])) \<and>
    (\<exists>a b. hb_run (ss @ [Expiry, Expiry, Expiry, Expiry]) heartbeat_new = Inr (-1, cs @ [a, b, Onend, Onend]))"
proof -
  obtain m cs where r: "hb_run ss heartbeat_new = Inr (m, cs)"
    using hb_total [of heartbeat_new ss] assms by (auto simp: heartbeat_new_def)
  have b: "-1 \<le> m" "m < 2 ^ 31 - 3"
    using hb_run_bounds [OF r] assms by (auto simp: heartbeat_new_def)
  have "hb_run [Tick, Expiry] m = Inr (if m = -1 then (-1, [Onsend]) else (0, [Onsend]))"
    using b by (auto simp: tick_def ontime_def)
  moreover have "\<exists>a b. hb_run [Expiry, Expiry, Expiry, Expiry] m = Inr (-1, [a, b, Onend, Onend])"
    using b by (auto simp: ontime_def)
  ultimately show ?thesis using r by (auto simp: hb_run_append)
qed

theorem heartbeat_detects_silence_witness:
  "\<exists>m cs. hb_run [Expiry, Tick, Expiry] heartbeat_new = Inr (m, cs) \<and>
    hb_run ([Expiry, Tick, Expiry] @ [Tick, Expiry]) heartbeat_new = Inr (if m = -1 then (-1, cs @ [Onsend]) else (0, cs @ [Onsend])) \<and>
    (\<exists>a b. hb_run ([Expiry, Tick, Expiry] @ [Expiry, Expiry, Expiry, Expiry]) heartbeat_new = Inr (-1, cs @ [a, b, Onend, Onend]))"
  by (rule heartbeat_detects_silence) simp

subsection \<open>thdid\<close>

text \<open>Thread numbers are given out from one atomic counter: the result is the number and the counter
  after it.\<close>

definition thdid_new :: "int \<Rightarrow> int \<times> int" where
  "thdid_new idx = (idx, idx + 1)"

definition thdid_max :: "int \<Rightarrow> int" where
  "thdid_max idx = idx"

end
