(* ===== verification/Http.thy ===== *)
theory Http
  imports Support Registry "HOL-Library.List_Lexorder" "HOL-Library.Char_ord"
begin

text \<open>
  \<^verbatim>\<open>src/src/http\<close>: building responses, and the server's session, which collects a request
  from the callbacks of \<^verbatim>\<open>http_parser\<close> and calls the method registered for it. The parser is a
  parameter: the sequence of callbacks it makes for a read. What a method does, and what
  \<^verbatim>\<open>session::send\<close> does, are programs over a state \<open>'w\<close>.
\<close>

subsection \<open>httpreponse\<close>

definition CRLF :: string where "CRLF = [CHR 0x0D, CHR 0x0A]"
definition dq :: string where "dq = [CHR 0x22]"

definition http_strerror :: "int \<Rightarrow> string" where
  "http_strerror e =
     (if e = 200 then ''200 OK''
      else if e = 400 then ''400 Bad Request''
      else if e = 403 then ''403 Frobidden''
      else if e = 404 then ''404 Not Found''
      else if e = 413 then ''413 Request Entity Too Large''
      else if e = 417 then ''417 Expectation Failed''
      else if e = 500 then ''500 Server Error''
      else ''505 Not Supported'')"

record httpreponse =
  r_error :: int
  r_body :: string
  r_header :: "(string \<times> string) list"

definition httpreponse_new :: httpreponse where
  "httpreponse_new = \<lparr>r_error = 200, r_body = [], r_header = []\<rparr>"

text \<open>\<^verbatim>\<open>httpreponse::error_code\<close>, the names for the statuses.\<close>

datatype error_code = error_ok | error_bad_request | error_frobidden | error_not_found | error_request_entity_too_large
  | error_expectation_failed | error_server_error

fun error_status :: "error_code \<Rightarrow> int" where
  "error_status error_ok = 200"
| "error_status error_bad_request = 400"
| "error_status error_frobidden = 403"
| "error_status error_not_found = 404"
| "error_status error_request_entity_too_large = 413"
| "error_status error_expectation_failed = 417"
| "error_status error_server_error = 500"

text \<open>Each has a line of its own, no two the same, and none that of an unknown status.\<close>

lemma error_lines:
  "http_strerror (error_status a) = http_strerror (error_status b) \<longleftrightarrow> a = b"
  "http_strerror (error_status a) \<noteq> http_strerror 505"
  by (cases a; cases b; simp add: http_strerror_def)+

definition set_error :: "int \<Rightarrow> httpreponse \<Rightarrow> httpreponse" where
  "set_error e r = r\<lparr>r_error := e\<rparr>"

definition set_header :: "string \<Rightarrow> string \<Rightarrow> httpreponse \<Rightarrow> httpreponse" where
  "set_header h v r = r\<lparr>r_header := omap_emplace h v (r_header r)\<rparr>"

definition set_body :: "string \<Rightarrow> httpreponse \<Rightarrow> httpreponse" where
  "set_body b r = r\<lparr>r_body := b\<rparr>"

definition append_body :: "string \<Rightarrow> httpreponse \<Rightarrow> httpreponse" where
  "append_body b r = r\<lparr>r_body := r_body r @ b\<rparr>"

definition meta_line :: "string \<times> string \<Rightarrow> joint_arg list" where
  "meta_line = (\<lambda>(h, v). [Text ''<meta '', Text h, Text (''='' @ dq), Text v, Text (dq @ ''>'' @ CRLF)])"

definition page :: "httpreponse \<Rightarrow> string" where
  "page r =
     (let oss = snd (ostring_joint [Text (''<html>'' @ CRLF), Text (''<head>'' @ CRLF),
            Text (''<meta http-equiv='' @ dq @ ''Content-Type'' @ dq @ '' context='' @ dq @
                  ''text/html;charset=UTF-8'' @ dq @ ''>''), Text CRLF] []);
          oss = foldl (\<lambda>oss kv. snd (ostring_joint (meta_line kv) oss)) oss (r_header r);
          oss = snd (ostring_joint [Text (''</head>'' @ CRLF)] oss);
          oss = (if r_body r \<noteq> []
                 then snd (ostring_joint [Text ''<body>'', Text (r_body r), Text (''</body>'' @ CRLF)] oss)
                 else oss);
          oss = snd (ostring_joint [Text (''</html>'' @ CRLF)] oss)
      in oss)"

text \<open>The list \<^verbatim>\<open>serialize\<close> returns: the head, put before the page. \<^verbatim>\<open>body_size\<close> is an
  \<^verbatim>\<open>int\<close>.\<close>

definition serialize_reponse :: "httpreponse \<Rightarrow> string list" where
  "serialize_reponse r =
     (let body = page r; body_size = int32_of_nat (length body)
      in [fst (ostring_joint
            [Text ''HTTP/1.1 '', Text (http_strerror (r_error r)), Text CRLF,
             Text (''Server: asyncsys/1.0.0'' @ CRLF),
             Text (''Content-Type: text/html'' @ CRLF),
             Text ''Content-Length: '', Number body_size, Text CRLF,
             Text (''Connection: keep-alive'' @ CRLF),
             Text CRLF] []),
          body])"

subsection \<open>httprequest\<close>

record httprequest =
  q_header :: "(string \<times> string) list"
  q_body :: string

definition httprequest_set_header :: "string \<Rightarrow> string \<Rightarrow> httprequest \<Rightarrow> httprequest" where
  "httprequest_set_header h v q = q\<lparr>q_header := omap_emplace h v (q_header q)\<rparr>"

definition httprequest_set_body :: "string \<Rightarrow> httprequest \<Rightarrow> httprequest" where
  "httprequest_set_body b q = q\<lparr>q_body := b\<rparr>"

definition httprequest_append :: "string \<Rightarrow> httprequest \<Rightarrow> httprequest" where
  "httprequest_append b q = q\<lparr>q_body := q_body q @ b\<rparr>"

definition httprequest_serialize :: "httprequest \<Rightarrow> string list" where
  "httprequest_serialize q = []"

subsection \<open>httpserver\<close>

record request =
  rq_url :: string
  rq_method :: string
  rq_body :: string
  rq_header :: "(string \<times> string) list"
  rq_t :: string

definition request_new :: request where
  "request_new = \<lparr>rq_url = [], rq_method = [], rq_body = [], rq_header = [], rq_t = []\<rparr>"

record 'w httpsession =
  hs_request :: request
  hs_world :: 'w

datatype parser_call = Message_begin | Url string | Header_field string | Header_value string
  | Headers_complete | Body string | Message_complete

definition on_url :: "string \<Rightarrow> request \<Rightarrow> request" where
  "on_url s q = q\<lparr>rq_method := rq_method q @ s\<rparr>"

definition on_header_field :: "string \<Rightarrow> request \<Rightarrow> request" where
  "on_header_field s q = q\<lparr>rq_t := s\<rparr>"

text \<open>\<^verbatim>\<open>m_header.emplace(std::move(t), value)\<close> leaves \<^verbatim>\<open>t\<close> empty.\<close>

definition on_header_value :: "string \<Rightarrow> request \<Rightarrow> request" where
  "on_header_value s q = q\<lparr>rq_header := omap_emplace (rq_t q) s (rq_header q), rq_t := []\<rparr>"

definition on_body :: "string \<Rightarrow> request \<Rightarrow> request" where
  "on_body s q = q\<lparr>rq_body := rq_body q @ s\<rparr>"

text \<open>Lifting to the state of a session, and \<^verbatim>\<open>httpserver::__callback\<close>.\<close>

definition on_world :: "('w, 'a) prog \<Rightarrow> ('w httpsession, 'a) prog" where
  "on_world m = (\<lambda>s. case m (hs_world s) of
     Done a w \<Rightarrow> Done a (s\<lparr>hs_world := w\<rparr>) | Threw w \<Rightarrow> Threw (s\<lparr>hs_world := w\<rparr>) | Stuck e \<Rightarrow> Stuck e)"

definition default_callback :: "(string \<Rightarrow> ('w, unit) prog) \<Rightarrow> ('w, unit) prog" where
  "default_callback send = each send (serialize_reponse (set_error 404 httpreponse_new))"

definition http_callback :: "('c \<Rightarrow> request \<Rightarrow> ('w, unit) prog) \<Rightarrow> (string \<Rightarrow> ('w, unit) prog) \<Rightarrow>
    (string \<rightharpoonup> 'c) \<Rightarrow> ('w httpsession, unit) prog" where
  "http_callback usr send m_router =
     bnd (gets hs_request) (\<lambda>q.
       on_world (case m_router (rq_method q) of
           Some c \<Rightarrow> usr c q
         | None \<Rightarrow> default_callback send))"

text \<open>The parser's callbacks, and \<^verbatim>\<open>http_parser_settings_init\<close>: which of them an event goes to.\<close>

definition on_message_begin :: "('w httpsession, unit) prog" where
  "on_message_begin = skip"

definition on_headers_complete :: "('w httpsession, unit) prog" where
  "on_headers_complete = skip"

definition on_message_complete :: "('c \<Rightarrow> request \<Rightarrow> ('w, unit) prog) \<Rightarrow> (string \<Rightarrow> ('w, unit) prog) \<Rightarrow>
    (string \<rightharpoonup> 'c) \<Rightarrow> ('w httpsession, unit) prog" where
  "on_message_complete usr send rt = http_callback usr send rt"

lemmas message_handlers [simp] = on_message_begin_def on_headers_complete_def on_message_complete_def

fun parser_callback :: "('c \<Rightarrow> request \<Rightarrow> ('w, unit) prog) \<Rightarrow> (string \<Rightarrow> ('w, unit) prog) \<Rightarrow>
    (string \<rightharpoonup> 'c) \<Rightarrow> parser_call \<Rightarrow> ('w httpsession, unit) prog" where
  "parser_callback usr send rt Message_begin = on_message_begin"
| "parser_callback usr send rt (Url s) = modify (hs_request_update (on_url s))"
| "parser_callback usr send rt (Header_field s) = modify (hs_request_update (on_header_field s))"
| "parser_callback usr send rt (Header_value s) = modify (hs_request_update (on_header_value s))"
| "parser_callback usr send rt Headers_complete = on_headers_complete"
| "parser_callback usr send rt (Body s) = modify (hs_request_update (on_body s))"
| "parser_callback usr send rt Message_complete = on_message_complete usr send rt"

text \<open>The \<^verbatim>\<open>dispatch\<close> function of a connection: whatever the parser makes of the bytes, all of them
  count as consumed.\<close>

definition http_dispatch :: "('c \<Rightarrow> request \<Rightarrow> ('w, unit) prog) \<Rightarrow> (string \<Rightarrow> ('w, unit) prog) \<Rightarrow>
    (string \<rightharpoonup> 'c) \<Rightarrow> parser_call list \<Rightarrow> int \<Rightarrow> ('w httpsession, int) prog" where
  "http_dispatch usr send rt calls n =
     bnd (each (parser_callback usr send rt) calls) (\<lambda>_. ret n)"

definition http_add_method :: "string \<Rightarrow> 'c \<Rightarrow> (string \<rightharpoonup> 'c) \<Rightarrow> (string \<rightharpoonup> 'c)" where
  "http_add_method m cb rt = emplace_map m cb rt"

interpretation http_router: registry Map.empty http_add_method "\<lambda>r. r" "\<lambda>r. True"
  by unfold_locales (simp_all add: http_add_method_def emplace_map_apply)

subsection \<open>Decimal numbers read back\<close>

definition num_value :: "string \<Rightarrow> nat" where
  "num_value ds = foldl (\<lambda>n c. 10 * n + (of_char c - 48)) 0 ds"

lemma digit_char_value: "n < 10 \<Longrightarrow> (of_char (digit_char n) :: nat) = 48 + n"
  by (cases n rule: nat.exhaust; simp add: digit_char_def)
     (auto simp: numeral_eq_Suc less_Suc_eq nth_Cons')

lemma num_value_digits: "num_value (nat_digits n) = n"
proof (induction n rule: nat_digits.induct)
  case (1 n)
  show ?case
  proof (cases "n < 10")
    case True
    then show ?thesis by (simp add: nat_digits.simps [of n] num_value_def digit_char_value)
  next
    case False
    then show ?thesis using 1 by (simp add: nat_digits.simps [of n] num_value_def digit_char_value)
  qed
qed

lemma nat_digits_set: "set (nat_digits n) \<subseteq> set ''0123456789''"
proof (induction n rule: nat_digits.induct)
  case (1 n)
  have "digit_char k \<in> set ''0123456789''" if "k < 10" for k
    unfolding digit_char_def using that by (intro nth_mem) simp
  then show ?case using 1 by (cases "n < 10") (auto simp: nat_digits.simps [of n])
qed

subsection \<open>Responses are framed\<close>

text \<open>
  What a client does with a connection: read lines up to the empty one, take the value of the
  first line that begins with \<open>Content-Length: \<close>, and that many bytes after the head.
\<close>

fun split_line :: "string \<Rightarrow> (string \<times> string) option" where
  "split_line [] = None"
| "split_line (c # s) =
     (if c = CHR 0x0D \<and> s \<noteq> [] \<and> hd s = CHR 0x0A then Some ([], tl s)
      else map_option (\<lambda>(l, r). (c # l, r)) (split_line s))"

lemma split_line_crlf: "CHR 0x0D \<notin> set l \<Longrightarrow> split_line (l @ CRLF @ r) = Some (l, r)"
  by (induction l) (auto simp: CRLF_def)

function read_head :: "string \<Rightarrow> (string list \<times> string) option" where
  "read_head s = (case split_line s of
     None \<Rightarrow> None
   | Some (l, r) \<Rightarrow> if l = [] then Some ([], r) else map_option (\<lambda>(ls, r). (l # ls, r)) (read_head r))"
  by auto
termination
proof (relation "measure length")
  fix s :: string and p l r
  have "split_line s = Some (l, r) \<Longrightarrow> length r < length s"
    by (induction s arbitrary: l r) (auto split: if_splits)
  then show "split_line s = Some p \<Longrightarrow> (l, r) = p \<Longrightarrow> l \<noteq> [] \<Longrightarrow> (r, s) \<in> measure length" by auto
qed simp

declare read_head.simps [simp del]

definition content_length :: "string list \<Rightarrow> nat option" where
  "content_length ls =
     (case dropWhile (\<lambda>l. take 16 l \<noteq> ''Content-Length: '') ls of
        [] \<Rightarrow> None | l # _ \<Rightarrow> Some (num_value (drop 16 l)))"

definition read_reponse :: "string \<Rightarrow> (string list \<times> string \<times> string) option" where
  "read_reponse s =
     (case read_head s of None \<Rightarrow> None
      | Some (ls, r) \<Rightarrow> (case content_length ls of None \<Rightarrow> None
        | Some n \<Rightarrow> if n \<le> length r then Some (ls, take n r, drop n r) else None))"

lemma read_head_lines:
  "\<forall>l \<in> set ls. l \<noteq> [] \<and> CHR 0x0D \<notin> set l \<Longrightarrow>
     read_head (concat (map (\<lambda>l. l @ CRLF) ls) @ CRLF @ r) = Some (ls, r)"
proof (induction ls)
  case Nil
  then show ?case using split_line_crlf [of "[]" r] by (simp add: read_head.simps [of "CRLF @ r"])
next
  case (Cons l ls)
  then show ?case
    using split_line_crlf [of l "concat (map (\<lambda>l. l @ CRLF) ls) @ CRLF @ r"]
    by (subst read_head.simps) simp
qed

lemma strerror_line: "CHR 0x0D \<notin> set (http_strerror e)"
  by (simp add: http_strerror_def)

lemma reponse_read:
  assumes "length (page r) < 2 ^ 31"
  shows "\<exists>ls. read_reponse (concat (serialize_reponse r) @ rest) = Some (ls, page r, rest) \<and>
    hd ls = ''HTTP/1.1 '' @ http_strerror (r_error r)"
proof -
  let ?n = "nat_digits (length (page r))"
  let ?ls = "[''HTTP/1.1 '' @ http_strerror (r_error r), ''Server: asyncsys/1.0.0'',
    ''Content-Type: text/html'', ''Content-Length: '' @ ?n, ''Connection: keep-alive'']"
  have s: "concat (serialize_reponse r) @ rest = concat (map (\<lambda>l. l @ CRLF) ?ls) @ CRLF @ page r @ rest"
    using assms by (simp add: serialize_reponse_def Let_def joint_text to_string_def)
  have "CHR 0x0D \<notin> set ?n" using nat_digits_set [of "length (page r)"] by auto
  then have "read_head (concat (serialize_reponse r) @ rest) = Some (?ls, page r @ rest)"
    unfolding s by (intro read_head_lines) (simp add: strerror_line)
  then show ?thesis
    by (simp add: read_reponse_def content_length_def num_value_digits)
qed

text \<open>C33: Every response, whatever its status, headers and body (below 2 GB), is framed: a client that reads
  the head line by line and then \<^verbatim>\<open>Content-Length\<close> bytes gets the status line and the page, and
  what it has left is what was sent after the response.\<close>

theorem reponse_is_framed:
  assumes "length (page r) < 2 ^ 31"
  shows "\<exists>ls. read_reponse (concat (serialize_reponse r) @ rest) = Some (ls, page r, rest) \<and>
    hd ls = ''HTTP/1.1 '' @ http_strerror (r_error r)"
  using reponse_read [OF assms] .

theorem reponse_is_framed_witness:
  "\<exists>ls. read_reponse (concat (serialize_reponse (set_error 404 httpreponse_new)) @ ''HTTP/1.1 200'') =
      Some (ls, page (set_error 404 httpreponse_new), ''HTTP/1.1 200'') \<and> hd ls = ''HTTP/1.1 404 Not Found''"
  using reponse_is_framed [of "set_error 404 httpreponse_new" "''HTTP/1.1 200''"]
  by (simp add: page_def set_error_def httpreponse_new_def joint_text CRLF_def dq_def http_strerror_def)

subsection \<open>Requests\<close>

lemma each_updates:
  "(\<And>x. f (g x) = modify (hs_request_update (h x))) \<Longrightarrow>
     each f (map g xs) s = Done () (s\<lparr>hs_request := fold h xs (hs_request s)\<rparr>)"
  by (induction xs arbitrary: s) simp_all

lemma fold_on_url: "fold on_url us q = q\<lparr>rq_method := rq_method q @ concat us\<rparr>"
  by (induction us arbitrary: q) (simp_all add: on_url_def)

lemma fold_on_body: "fold on_body bs q = q\<lparr>rq_body := rq_body q @ concat bs\<rparr>"
  by (induction bs arbitrary: q) (simp_all add: on_body_def)

lemma fold_headers:
  "each (parser_callback usr send rt) (concat (map (\<lambda>(h, v). [Header_field h, Header_value v]) hs)) s =
     Done () (s\<lparr>hs_request := (hs_request s)\<lparr>rq_header := foldl (\<lambda>m (h, v). omap_emplace h v m) (rq_header (hs_request s)) hs,
       rq_t := (if hs = [] then rq_t (hs_request s) else [])\<rparr>\<rparr>)"
  by (induction hs arbitrary: s) (auto simp: on_header_field_def on_header_value_def)

definition request_calls :: "string list \<Rightarrow> (string \<times> string) list \<Rightarrow> string list \<Rightarrow> parser_call list" where
  "request_calls us hs bs =
     Message_begin # map Url us @ concat (map (\<lambda>(h, v). [Header_field h, Header_value v]) hs) @
     Headers_complete # map Body bs @ [Message_complete]"

lemma request_run:
  "each (parser_callback usr send rt) (request_calls us hs bs) s =
     http_callback usr send rt (s\<lparr>hs_request := (hs_request s)
       \<lparr>rq_method := rq_method (hs_request s) @ concat us,
        rq_header := foldl (\<lambda>m (h, v). omap_emplace h v m) (rq_header (hs_request s)) hs,
        rq_body := rq_body (hs_request s) @ concat bs,
        rq_t := (if hs = [] then rq_t (hs_request s) else [])\<rparr>\<rparr>)"
  by (cases s; cases "hs_request s")
     (simp add: request_calls_def each_append each_updates [of _ Url on_url]
      each_updates [of _ Body on_body] fold_headers fold_on_url fold_on_body)

lemma first_request:
  assumes "hs_request s = request_new"
    and "rt = foldl (\<lambda>r (k, v). http_add_method k v r) Map.empty kvs"
  shows "each (parser_callback usr send rt) (request_calls us hs bs) s =
    on_world (case map_of kvs (concat us) of
        Some c \<Rightarrow> usr c \<lparr>rq_url = [], rq_method = concat us, rq_body = concat bs,
          rq_header = foldl (\<lambda>m (h, v). omap_emplace h v m) [] hs, rq_t = []\<rparr>
      | None \<Rightarrow> default_callback send)
    (s\<lparr>hs_request := \<lparr>rq_url = [], rq_method = concat us, rq_body = concat bs,
          rq_header = foldl (\<lambda>m (h, v). omap_emplace h v m) [] hs, rq_t = []\<rparr>\<rparr>)"
proof -
  have "rt = map_of kvs"
    using http_router.first_wins [of kvs] by (auto simp: assms(2) http_router.add_all_def)
  then show ?thesis
    by (simp add: request_run http_callback_def assms(1) request_new_def cong: option.case_cong)
qed

text \<open>The first request of a connection reaches the method registered first for its url with the
  url, the body and the headers put together whole, however the parser was fed: the pieces of
  url and body are joined, of headers with one name the first stays. A request for nothing
  registered is answered with the 404 page.\<close>

theorem request_reaches_method:
  assumes "hs_request s = request_new"
    and "rt = foldl (\<lambda>r (k, v). http_add_method k v r) Map.empty kvs"
  shows "each (parser_callback usr send rt) (request_calls us hs bs) s =
    on_world (case map_of kvs (concat us) of
        Some c \<Rightarrow> usr c \<lparr>rq_url = [], rq_method = concat us, rq_body = concat bs,
          rq_header = foldl (\<lambda>m (h, v). omap_emplace h v m) [] hs, rq_t = []\<rparr>
      | None \<Rightarrow> default_callback send)
    (s\<lparr>hs_request := \<lparr>rq_url = [], rq_method = concat us, rq_body = concat bs,
          rq_header = foldl (\<lambda>m (h, v). omap_emplace h v m) [] hs, rq_t = []\<rparr>\<rparr>)"
  by (rule first_request [OF assms])

theorem request_reaches_method_witness:
  "each (parser_callback (\<lambda>c q. modify (\<lambda>w. w @ [(c, rq_body q)])) (\<lambda>m. skip)
      (foldl (\<lambda>r (k, v). http_add_method k v r) Map.empty [(''/a'', 1::nat)]))
     (request_calls [''/'', ''a''] [(''Host'', ''x'')] [''b1'', ''b2'']) \<lparr>hs_request = request_new, hs_world = []\<rparr> =
   Done () \<lparr>hs_request = \<lparr>rq_url = [], rq_method = ''/a'', rq_body = ''b1b2'',
     rq_header = [(''Host'', ''x'')], rq_t = []\<rparr>, hs_world = [(1, ''b1b2'')]\<rparr>"
  using request_reaches_method [of "\<lparr>hs_request = request_new, hs_world = []\<rparr>" _ "[(''/a'', 1::nat)]"
      "\<lambda>c q. modify (\<lambda>w. w @ [(c, rq_body q)])" "\<lambda>m. skip" "[''/'', ''a'']" "[(''Host'', ''x'')]" "[''b1'', ''b2'']"]
  by (simp add: on_world_def)

text \<open>A connection is kept alive, but what a request left is not cleared: the next one is looked up
  under the two urls put together (and has both bodies), so a second request for a registered
  url gets the 404 page unless that concatenation happens to be registered.\<close>

theorem second_request_is_misrouted:
  assumes "rq_method (hs_request s) = u1" "rt (u1 @ concat us) = None"
  shows "\<exists>q. each (parser_callback usr send rt) (request_calls us hs bs) s =
    on_world (default_callback send) (s\<lparr>hs_request := q\<rparr>) \<and> rq_method q = u1 @ concat us"
  using assms by (auto simp: request_run http_callback_def)

theorem second_request_is_misrouted_witness:
  "\<exists>q. each (parser_callback (\<lambda>c q. skip) (\<lambda>m. modify (\<lambda>w. w @ [m])) [''/a'' \<mapsto> ()]) (request_calls [''/a''] [] [])
     \<lparr>hs_request = request_new\<lparr>rq_method := ''/a''\<rparr>, hs_world = []\<rparr> =
   on_world (default_callback (\<lambda>m. modify (\<lambda>w. w @ [m]))) \<lparr>hs_request = q, hs_world = []\<rparr> \<and> rq_method q = ''/a/a''"
  using second_request_is_misrouted [of "\<lparr>hs_request = request_new\<lparr>rq_method := ''/a''\<rparr>, hs_world = []\<rparr>" "''/a''"
      "[''/a'' \<mapsto> ()]" "[''/a'']" "\<lambda>c q. skip" "\<lambda>m. modify (\<lambda>w. w @ [m])" "[]" "[]"]
  by simp

end
