(* ===== verification/HttpConn.thy ===== *)
theory HttpConn
  imports Client Http
begin

text \<open>
  A connection of the HTTP server from its bytes to its bytes: \<^verbatim>\<open>httpserver::__init\<close> gives the reader of
  \<open>Client\<close> a dispatcher that hands every read to \<^verbatim>\<open>http_parser_execute\<close> and counts all of it as consumed.
  The parser is the parameter \<open>execute\<close>: of its state and some bytes, the callbacks it makes and its new
  state.
\<close>

subsection \<open>The dispatcher\<close>

type_synonym 'p parser = "'p \<Rightarrow> byte list \<Rightarrow> parser_call list \<times> 'p"

definition http_conn :: "'p parser \<Rightarrow> ('c \<Rightarrow> request \<Rightarrow> ('w, unit) prog) \<Rightarrow> (string \<Rightarrow> ('w, unit) prog) \<Rightarrow>
    (string \<rightharpoonup> 'c) \<Rightarrow> ('p \<times> 'w httpsession) dispatcher" where
  "http_conn execute usr send rt mem n = (\<lambda>(p, s).
     if n < 0 \<or> int (length mem) < n then Inl Ub
     else let (calls, p') = execute p (take (nat n) mem)
       in case http_dispatch usr send rt calls n s of
            Done r s' \<Rightarrow> Inr (r, p', s')
          | Threw s' \<Rightarrow> Inl (Throw [])
          | Stuck e \<Rightarrow> Inl e)"

text \<open>The parser over the reads of a connection.\<close>

fun http_feed :: "'p parser \<Rightarrow> byte list list \<Rightarrow> 'p \<Rightarrow> parser_call list \<times> 'p" where
  "http_feed execute [] p = ([], p)"
| "http_feed execute (x # xs) p =
     (let (calls, p') = execute p x; (calls', p'') = http_feed execute xs p' in (calls @ calls', p''))"

text \<open>Every read is taken whole.\<close>

lemma http_conn_loop:
  assumes "ex_inv e" "ex_live e = x" "x \<noteq> []" "length x < 2 ^ 31"
    and "execute p x = (calls, p')" "each (parser_callback usr send rt) calls s = Done () s'"
  shows "\<exists>e'. dispatch_loop (http_conn execute usr send rt) e (p, s) = Inr (e', (p', s')) \<and> ex_inv e' \<and> ex_live e' = [] \<and>
    m_expand_size (base e') = m_expand_size (base e)"
proof -
  have size: "ex_size e = length x" using assms(1,2) length_ex_live by metis
  have mem: "length x \<le> length (ex_data e)" "take (length x) (ex_data e) = x"
    using ex_size_le_data [OF assms(1)] take_ex_data [OF assms(1), of "length x"] size assms(2) by simp_all
  have d: "http_conn execute usr send rt (ex_data e) (int32_of_nat (ex_size e)) (p, s) = Inr (int (length x), p', s')"
    using mem assms(4-6) size by (simp add: http_conn_def http_dispatch_def)
  let ?e = "ex_pop_front (length x) e"
  have e: "ex_inv ?e" "ex_live ?e = []"
    using assms(1,2) size by (simp_all add: ex_pop_front_inv)
  obtain b e' where em: "ex_empty ?e = (b, e')" by fastforce
  then have "b" "ex_inv e'" "ex_live e' = []" "m_expand_size (base e') = m_expand_size (base e)"
    using ex_empty_iff [OF e(1)] ex_empty_snd [OF e(1)] e(2) by auto
  then show ?thesis using d em assms(3) by (subst dispatch_loop.simps) simp
qed

lemma http_conn_recv:
  assumes "idle_reader (http_conn execute usr send rt) c" "\<forall>x\<in>set cs. x \<noteq> [] \<and> length x \<le> 0x1000"
    and "http_feed execute cs p = (calls, p')" "each (parser_callback usr send rt) calls s = Done () s'"
  shows "\<exists>c'. client_recv fresh (map recv_of cs) c (p, s) = Inr (c', (p', s')) \<and>
    idle_reader (http_conn execute usr send rt) c'"
  using assms
proof (induction cs arbitrary: c p s calls)
  case Nil
  have c: "ex_inv (m_iobuf c)" "ex_live (m_iobuf c) = []" "m_expand_size (base (m_iobuf c)) = 0x1000"
    using Nil.prems(1) by (simp_all add: idle_reader_def)
  obtain e where "ex_append fresh (\<lambda>_. (-1, [])) (m_iobuf c) = Inr (-1, e)" "ex_inv e"
      "ex_live e = ex_live (m_iobuf c)" "m_expand_size (base e) = 0x1000"
    using ex_append_ok [OF c(1), of "\<lambda>_. (-1, [])" fresh] c(3) by (auto simp: reads_within_def)
  then show ?case using Nil.prems c(2) by (auto simp: idle_reader_def)
next
  case (Cons x cs)
  have c: "ex_inv (m_iobuf c)" "ex_live (m_iobuf c) = []" "m_expand_size (base (m_iobuf c)) = 0x1000"
    "dispatch c = Some (http_conn execute usr send rt)"
    using Cons.prems(1) by (simp_all add: idle_reader_def)
  have x: "x \<noteq> []" "length x \<le> 0x1000" using Cons.prems(2) by simp_all
  obtain calls1 p1 where ex: "execute p x = (calls1, p1)" by fastforce
  obtain calls2 where fd: "http_feed execute cs p1 = (calls2, p')" "calls = calls1 @ calls2"
    using Cons.prems(3) ex by (auto simp: Let_def split: prod.splits)
  obtain s1 where s1: "each (parser_callback usr send rt) calls1 s = Done () s1"
    "each (parser_callback usr send rt) calls2 s1 = Done () s'"
    using Cons.prems(4) unfolding fd(2) each_append by (auto simp: bnd_eq_Done)
  obtain e where e: "ex_append fresh (recv_of x) (m_iobuf c) = Inr (int (length x), e)" "ex_inv e"
      "ex_live e = x" "m_expand_size (base e) = 0x1000"
    using ex_append_ok [OF c(1), of "recv_of x" fresh] x(2) c(2,3) by (auto simp: recv_of_def)
  have len: "length x < 2 ^ 31" using x(2) by simp
  obtain e' where e': "dispatch_loop (http_conn execute usr send rt) e (p, s) = Inr (e', (p1, s1))" "ex_inv e'"
      "ex_live e' = []" "m_expand_size (base e') = 0x1000"
    using http_conn_loop [of e x execute p calls1 p1 usr send rt s s1] e(2-4) x(1) len ex s1(1) by auto
  then have "idle_reader (http_conn execute usr send rt) (c\<lparr>m_iobuf := e'\<rparr>)" using c(4) by (simp add: idle_reader_def)
  from Cons.IH [OF this _ fd(1) s1(2)] Cons.prems(2)
  obtain c' where "client_recv fresh (map recv_of cs) (c\<lparr>m_iobuf := e'\<rparr>) (p1, s1) = Inr (c', (p', s'))"
      "idle_reader (http_conn execute usr send rt) c'" by auto
  then show ?case using e(1) e'(1) x(1) c(4) by simp
qed

subsection \<open>Properties\<close>

text \<open>A method that sends one response, built from the request.\<close>

definition replying :: "('c \<Rightarrow> request \<Rightarrow> httpreponse) \<Rightarrow> 'c \<Rightarrow> request \<Rightarrow> (string list, unit) prog" where
  "replying resp c q = each (\<lambda>m. modify (\<lambda>w. w @ [m])) (serialize_reponse (resp c q))"

lemma each_sends: "each (\<lambda>m. modify (\<lambda>w. w @ [m])) ms w = Done () (w @ ms)"
  by (induction ms arbitrary: w) simp_all


text \<open>A parser for examples: the url, up to a line feed.\<close>

definition line_parser :: "bool parser" where
  "line_parser started x =
     ((if started then [] else [Message_begin]) @ [Url (map (\<lambda>b. char_of (unat b)) (takeWhile (\<lambda>b. b \<noteq> 10) x))] @
      (if 10 \<in> set x then [Headers_complete, Message_complete] else []), True)"


end
