(* ===== verification/EventThreads.thy ===== *)
theory EventThreads
  imports Prelude
begin

text \<open>
  \<^verbatim>\<open>src/src/rwlock.cpp\<close> and \<^verbatim>\<open>net/asyncevent.cpp\<close> between threads. The lock is what POSIX says of
  \<^verbatim>\<open>pthread_rwlock_t\<close> with default attributes (readers are not kept out by a waiting writer). Threads
  register and emit events at the grain at which they interleave: take the lock, read or write the table, run
  the callback call by call, release. A callback is a name; \<open>body\<close> gives the calls of \<^verbatim>\<open>asyncevent\<close> it
  makes until it returns or throws. \<open>Registry\<close> has the same operations as one thread sees them.
\<close>

subsection \<open>The lock\<close>

record rwlock =
  rw_readers :: "nat list"
  rw_writer :: "nat option"

text \<open>A call returns a code, or waits; releasing what the thread does not hold is undefined.\<close>

datatype 'a lock_result = Returns int 'a | Waits | Undefined

definition EBUSY :: int where "EBUSY = 16"
definition EDEADLK :: int where "EDEADLK = 35"

definition rwlock_new :: rwlock where
  "rwlock_new = \<lparr>rw_readers = [], rw_writer = None\<rparr>"

definition tryrdlock :: "nat \<Rightarrow> rwlock \<Rightarrow> rwlock lock_result" where
  "tryrdlock th l =
     (if rw_writer l = None then Returns 0 (l\<lparr>rw_readers := th # rw_readers l\<rparr>) else Returns EBUSY l)"

definition trywrlock :: "nat \<Rightarrow> rwlock \<Rightarrow> rwlock lock_result" where
  "trywrlock th l =
     (if rw_writer l = None \<and> rw_readers l = [] then Returns 0 (l\<lparr>rw_writer := Some th\<rparr>) else Returns EBUSY l)"

definition rdlock :: "nat \<Rightarrow> rwlock \<Rightarrow> rwlock lock_result" where
  "rdlock th l =
     (if rw_writer l = Some th then Returns EDEADLK l
      else case tryrdlock th l of Returns r l' \<Rightarrow> if r = 0 then Returns 0 l' else Waits | x \<Rightarrow> x)"

definition wrlock :: "nat \<Rightarrow> rwlock \<Rightarrow> rwlock lock_result" where
  "wrlock th l =
     (if rw_writer l = Some th then Returns EDEADLK l
      else case trywrlock th l of Returns r l' \<Rightarrow> if r = 0 then Returns 0 l' else Waits | x \<Rightarrow> x)"

definition unlock :: "nat \<Rightarrow> rwlock \<Rightarrow> rwlock lock_result" where
  "unlock th l =
     (if rw_writer l = Some th then Returns 0 (l\<lparr>rw_writer := None\<rparr>)
      else if th \<in> set (rw_readers l) then Returns 0 (l\<lparr>rw_readers := remove1 th (rw_readers l)\<rparr>)
      else Undefined)"

lemmas lock_defs = tryrdlock_def trywrlock_def rdlock_def wrlock_def unlock_def EBUSY_def

subsection \<open>Threads\<close>

datatype ('c, 'd) call = Emit string 'd | Onevent string 'c

text \<open>What a thread still has to do: calls, and the parts of the calls under way.\<close>

datatype ('c, 'd) instr = Call "('c, 'd) call"
  | Rdlock | Find string 'd | Rd_unlock
  | Wrlock | Emplace string 'c | Wr_unlock

record ('c, 'd) ev =
  ev_lock :: rwlock
  ev_table :: "(string \<times> 'c) list"
  ev_thr :: "nat \<Rightarrow> ('c, 'd) instr list"
  ev_ran :: "(nat \<times> string \<times> 'c) list"

definition ev_goto :: "nat \<Rightarrow> ('c, 'd) instr list \<Rightarrow> ('c, 'd) ev \<Rightarrow> ('c, 'd) ev" where
  "ev_goto th k s = s\<lparr>ev_thr := (ev_thr s)(th := k)\<rparr>"

text \<open>\<^verbatim>\<open>map::emplace\<close>: an entry that is there stays.\<close>

definition ev_emplace :: "string \<Rightarrow> 'c \<Rightarrow> (string \<times> 'c) list \<Rightarrow> (string \<times> 'c) list" where
  "ev_emplace str c t = t @ (if map_of t str = None then [(str, c)] else [])"

inductive ev_step :: "('c \<Rightarrow> 'd \<Rightarrow> ('c, 'd) call list) \<Rightarrow> nat \<Rightarrow> ('c, 'd) ev \<Rightarrow> ('c, 'd) ev \<Rightarrow> bool"
  for body :: "'c \<Rightarrow> 'd \<Rightarrow> ('c, 'd) call list" and th :: nat where
  emit: "ev_thr s th = Call (Emit str d) # k \<Longrightarrow>
    ev_step body th s (ev_goto th (Rdlock # Find str d # Rd_unlock # k) s)"
| onevent: "ev_thr s th = Call (Onevent str c) # k \<Longrightarrow>
    ev_step body th s (ev_goto th (Wrlock # Emplace str c # Wr_unlock # k) s)"
| rdlock: "ev_thr s th = Rdlock # k \<Longrightarrow> rdlock th (ev_lock s) = Returns r l \<Longrightarrow>
    ev_step body th s (ev_goto th k (s\<lparr>ev_lock := l\<rparr>))"
| found: "ev_thr s th = Find str d # k \<Longrightarrow> map_of (ev_table s) str = Some c \<Longrightarrow>
    ev_step body th s (ev_goto th (map Call (body c d) @ k) (s\<lparr>ev_ran := ev_ran s @ [(th, str, c)]\<rparr>))"
| not_found: "ev_thr s th = Find str d # k \<Longrightarrow> map_of (ev_table s) str = None \<Longrightarrow>
    ev_step body th s (ev_goto th k s)"
| rd_unlock: "ev_thr s th = Rd_unlock # k \<Longrightarrow> unlock th (ev_lock s) = Returns r l \<Longrightarrow>
    ev_step body th s (ev_goto th k (s\<lparr>ev_lock := l\<rparr>))"
| wrlock: "ev_thr s th = Wrlock # k \<Longrightarrow> wrlock th (ev_lock s) = Returns r l \<Longrightarrow>
    ev_step body th s (ev_goto th k (s\<lparr>ev_lock := l\<rparr>))"
| emplace: "ev_thr s th = Emplace str c # k \<Longrightarrow>
    ev_step body th s (ev_goto th k (s\<lparr>ev_table := ev_emplace str c (ev_table s)\<rparr>))"
| wr_unlock: "ev_thr s th = Wr_unlock # k \<Longrightarrow> unlock th (ev_lock s) = Returns r l \<Longrightarrow>
    ev_step body th s (ev_goto th k (s\<lparr>ev_lock := l\<rparr>))"

definition ev_start :: "(nat \<Rightarrow> ('c, 'd) call list) \<Rightarrow> ('c, 'd) ev" where
  "ev_start prog_of = \<lparr>ev_lock = rwlock_new, ev_table = [], ev_thr = (\<lambda>th. map Call (prog_of th)), ev_ran = []\<rparr>"

inductive ev_reach :: "('c \<Rightarrow> 'd \<Rightarrow> ('c, 'd) call list) \<Rightarrow> (nat \<Rightarrow> ('c, 'd) call list) \<Rightarrow> ('c, 'd) ev \<Rightarrow> bool"
  for body :: "'c \<Rightarrow> 'd \<Rightarrow> ('c, 'd) call list" and prog_of :: "nat \<Rightarrow> ('c, 'd) call list" where
  start: "ev_reach body prog_of (ev_start prog_of)"
| go: "ev_reach body prog_of s \<Longrightarrow> ev_step body th s s' \<Longrightarrow> ev_reach body prog_of s'"

text \<open>The step of a thread, computed, and runs that follow a schedule.\<close>

definition after_lock :: "nat \<Rightarrow> ('c, 'd) instr list \<Rightarrow> ('c, 'd) ev \<Rightarrow> rwlock lock_result \<Rightarrow> ('c, 'd) ev option" where
  "after_lock th k s r = (case r of Returns n l \<Rightarrow> Some (ev_goto th k (s\<lparr>ev_lock := l\<rparr>)) | _ \<Rightarrow> None)"

definition ev_exec :: "('c \<Rightarrow> 'd \<Rightarrow> ('c, 'd) call list) \<Rightarrow> nat \<Rightarrow> ('c, 'd) ev \<Rightarrow> ('c, 'd) ev option" where
  "ev_exec body th s = (case ev_thr s th of
     [] \<Rightarrow> None
   | i # k \<Rightarrow> (case i of
       Call (Emit str d) \<Rightarrow> Some (ev_goto th (Rdlock # Find str d # Rd_unlock # k) s)
     | Call (Onevent str c) \<Rightarrow> Some (ev_goto th (Wrlock # Emplace str c # Wr_unlock # k) s)
     | Rdlock \<Rightarrow> after_lock th k s (rdlock th (ev_lock s))
     | Find str d \<Rightarrow> (case map_of (ev_table s) str of
         None \<Rightarrow> Some (ev_goto th k s)
       | Some c \<Rightarrow> Some (ev_goto th (map Call (body c d) @ k) (s\<lparr>ev_ran := ev_ran s @ [(th, str, c)]\<rparr>)))
     | Rd_unlock \<Rightarrow> after_lock th k s (unlock th (ev_lock s))
     | Wrlock \<Rightarrow> after_lock th k s (wrlock th (ev_lock s))
     | Emplace str c \<Rightarrow> Some (ev_goto th k (s\<lparr>ev_table := ev_emplace str c (ev_table s)\<rparr>))
     | Wr_unlock \<Rightarrow> after_lock th k s (unlock th (ev_lock s))))"

fun ev_sched :: "('c \<Rightarrow> 'd \<Rightarrow> ('c, 'd) call list) \<Rightarrow> nat list \<Rightarrow> ('c, 'd) ev \<Rightarrow> ('c, 'd) ev option" where
  "ev_sched body [] s = Some s"
| "ev_sched body (th # ths) s = Option.bind (ev_exec body th s) (ev_sched body ths)"

lemma ev_exec_step: "ev_step body th s s' \<longleftrightarrow> ev_exec body th s = Some s'"
proof
  show "ev_step body th s s' \<Longrightarrow> ev_exec body th s = Some s'"
    by (erule ev_step.cases) (simp_all add: ev_exec_def after_lock_def)
  assume e: "ev_exec body th s = Some s'"
  then obtain i k where k: "ev_thr s th = i # k" by (auto simp: ev_exec_def split: list.splits)
  show "ev_step body th s s'"
  proof (cases i)
    case (Call a)
    then show ?thesis using e k by (cases a) (auto simp: ev_exec_def intro: ev_step.emit ev_step.onevent)
  next
    case (Find str d)
    then show ?thesis using e k
      by (auto simp: ev_exec_def intro: ev_step.found ev_step.not_found split: option.splits)
  qed (use e k in \<open>auto simp: ev_exec_def after_lock_def intro: ev_step.intros split: lock_result.splits\<close>)
qed

lemma ev_sched_reach: "ev_reach body prog_of s \<Longrightarrow> ev_sched body ths s = Some s' \<Longrightarrow> ev_reach body prog_of s'"
proof (induction ths arbitrary: s)
  case (Cons th ths)
  then show ?case by (auto simp: bind_eq_Some_conv ev_exec_step [symmetric] intro: ev_reach.go)
qed simp

subsection \<open>Who holds the lock\<close>

text \<open>The read locks a thread holds are the releases it has before it, less the one it has still to earn.\<close>

fun held :: "('c, 'd) instr list \<Rightarrow> nat" where
  "held [] = 0"
| "held (Rdlock # k) = held k - 1"
| "held (Rd_unlock # k) = held k + 1"
| "held (_ # k) = held k"

lemma held_calls [simp]: "held (map Call cs @ k) = held k" "held (map Call cs) = 0"
  by (induction cs) simp_all

fun later :: "('c, 'd) instr list \<Rightarrow> bool" where
  "later [] \<longleftrightarrow> True"
| "later (Call a # k) \<longleftrightarrow> later k"
| "later (Rd_unlock # k) \<longleftrightarrow> later k"
| "later _ \<longleftrightarrow> False"

lemma later_calls [simp]: "later (map Call cs @ k) \<longleftrightarrow> later k" "later (map Call cs)"
  by (induction cs) simp_all

text \<open>Where a thread can be: between calls, or in one of the two functions.\<close>

fun before_unlock :: "('c, 'd) instr list \<Rightarrow> bool" where
  "before_unlock (Rd_unlock # k) \<longleftrightarrow> later k"
| "before_unlock _ \<longleftrightarrow> False"

fun before_find :: "('c, 'd) instr list \<Rightarrow> bool" where
  "before_find (Find str d # k) \<longleftrightarrow> before_unlock k"
| "before_find _ \<longleftrightarrow> False"

fun before_wr_unlock :: "('c, 'd) instr list \<Rightarrow> bool" where
  "before_wr_unlock (Wr_unlock # k) \<longleftrightarrow> later k"
| "before_wr_unlock _ \<longleftrightarrow> False"

fun before_emplace :: "('c, 'd) instr list \<Rightarrow> bool" where
  "before_emplace (Emplace str c # k) \<longleftrightarrow> before_wr_unlock k"
| "before_emplace _ \<longleftrightarrow> False"

fun placed :: "('c, 'd) instr list \<Rightarrow> bool" where
  "placed [] \<longleftrightarrow> True"
| "placed (Call a # k) \<longleftrightarrow> later k"
| "placed (Rdlock # k) \<longleftrightarrow> before_find k"
| "placed (Find str d # k) \<longleftrightarrow> before_unlock k"
| "placed (Rd_unlock # k) \<longleftrightarrow> later k"
| "placed (Wrlock # k) \<longleftrightarrow> before_emplace k"
| "placed (Emplace str c # k) \<longleftrightarrow> before_wr_unlock k"
| "placed (Wr_unlock # k) \<longleftrightarrow> later k"

fun writing :: "('c, 'd) instr list \<Rightarrow> bool" where
  "writing (Emplace str c # k) \<longleftrightarrow> True"
| "writing (Wr_unlock # k) \<longleftrightarrow> True"
| "writing _ \<longleftrightarrow> False"

fun reading :: "('c, 'd) instr list \<Rightarrow> bool" where
  "reading (Find str d # k) \<longleftrightarrow> True"
| "reading _ \<longleftrightarrow> False"

lemma later_placed: "later k \<Longrightarrow> placed k"
  by (cases k rule: placed.cases) simp_all

lemma before_forms:
  "before_unlock k \<Longrightarrow> \<exists>k'. k = Rd_unlock # k' \<and> later k'"
  "before_find k \<Longrightarrow> \<exists>str d k'. k = Find str d # Rd_unlock # k' \<and> later k'"
  "before_wr_unlock k \<Longrightarrow> \<exists>k'. k = Wr_unlock # k' \<and> later k'"
  "before_emplace k \<Longrightarrow> \<exists>str c k'. k = Emplace str c # Wr_unlock # k' \<and> later k'"
proof -
  show u: "before_unlock k \<Longrightarrow> \<exists>k'. k = Rd_unlock # k' \<and> later k'" for k :: "('a, 'b) instr list"
    by (cases k rule: before_unlock.cases) simp_all
  show "before_find k \<Longrightarrow> \<exists>str d k'. k = Find str d # Rd_unlock # k' \<and> later k'"
    using u by (cases k rule: before_find.cases) auto
  show w: "before_wr_unlock k \<Longrightarrow> \<exists>k'. k = Wr_unlock # k' \<and> later k'" for k :: "('a, 'b) instr list"
    by (cases k rule: before_wr_unlock.cases) simp_all
  show "before_emplace k \<Longrightarrow> \<exists>str c k'. k = Emplace str c # Wr_unlock # k' \<and> later k'"
    using w by (cases k rule: before_emplace.cases) auto
qed

lemma later_not_writing: "later k \<Longrightarrow> \<not> writing k"
  by (cases k rule: writing.cases) simp_all

definition lock_inv :: "('c, 'd) ev \<Rightarrow> bool" where
  "lock_inv s \<longleftrightarrow>
     (\<forall>t. placed (ev_thr s t) \<and> count_list (rw_readers (ev_lock s)) t = held (ev_thr s t) \<and>
       (rw_writer (ev_lock s) = Some t \<longleftrightarrow> writing (ev_thr s t))) \<and>
     (rw_writer (ev_lock s) \<noteq> None \<longrightarrow> rw_readers (ev_lock s) = []) \<and>
     (\<forall>(t, str, c) \<in> set (ev_ran s). map_of (ev_table s) str = Some c)"

lemma lock_inv_start: "lock_inv (ev_start prog_of)"
  by (simp add: lock_inv_def ev_start_def rwlock_new_def later_placed later_not_writing)

lemma lock_results:
  "rdlock th l = Returns r l' \<Longrightarrow> rw_writer l \<noteq> Some th \<Longrightarrow>
     r = 0 \<and> rw_writer l = None \<and> l' = l\<lparr>rw_readers := th # rw_readers l\<rparr>"
  "wrlock th l = Returns r l' \<Longrightarrow> rw_writer l \<noteq> Some th \<Longrightarrow>
     r = 0 \<and> rw_writer l = None \<and> rw_readers l = [] \<and> l' = l\<lparr>rw_writer := Some th\<rparr>"
  by (auto simp: lock_defs split: if_splits)

lemma count_remove1: "t \<in> set xs \<Longrightarrow> count_list (remove1 t xs) u = count_list xs u - (if t = u then 1 else 0)"
  by (induction xs) auto

text \<open>What the invariant says of one thread.\<close>

definition thread_ok :: "rwlock \<Rightarrow> nat \<Rightarrow> ('c, 'd) instr list \<Rightarrow> bool" where
  "thread_ok l t k \<longleftrightarrow> placed k \<and> count_list (rw_readers l) t = held k \<and> (rw_writer l = Some t \<longleftrightarrow> writing k)"

lemma lock_inv_threads:
  "lock_inv s \<longleftrightarrow> (\<forall>t. thread_ok (ev_lock s) t (ev_thr s t)) \<and>
     (rw_writer (ev_lock s) \<noteq> None \<longrightarrow> rw_readers (ev_lock s) = []) \<and>
     (\<forall>(t, str, c) \<in> set (ev_ran s). map_of (ev_table s) str = Some c)"
  by (simp add: lock_inv_def thread_ok_def)

lemma lock_inv_goto:
  assumes "lock_inv s" "thread_ok l th k" "\<And>t. t \<noteq> th \<Longrightarrow> thread_ok l t (ev_thr s t)"
    and "rw_writer l \<noteq> None \<Longrightarrow> rw_readers l = []"
  shows "lock_inv (ev_goto th k (s\<lparr>ev_lock := l\<rparr>))"
  using assms by (auto simp: lock_inv_threads ev_goto_def)

lemma lock_inv_stay:
  assumes "lock_inv s" "thread_ok (ev_lock s) th k"
  shows "lock_inv (ev_goto th k s)"
proof -
  have "lock_inv (ev_goto th k (s\<lparr>ev_lock := ev_lock s\<rparr>))"
    using assms by (intro lock_inv_goto) (auto simp: lock_inv_threads)
  then show ?thesis by simp
qed

lemma emplace_keeps: "map_of t str = Some c \<Longrightarrow> map_of (ev_emplace str' c' t) str = Some c"
  by (simp add: ev_emplace_def map_add_def split: option.splits)

lemma lock_inv_unlocked:
  assumes "lock_inv s" "ev_thr s th = i # k" "unlock th (ev_lock s) = Returns r l"
    and "i = Rd_unlock \<or> i = Wr_unlock" "later k"
  shows "lock_inv (ev_goto th k (s\<lparr>ev_lock := l\<rparr>))"
proof -
  have t: "thread_ok (ev_lock s) t (ev_thr s t)" for t using assms(1) by (simp add: lock_inv_threads)
  have w: "rw_writer (ev_lock s) \<noteq> None \<longrightarrow> rw_readers (ev_lock s) = []" using assms(1) by (simp add: lock_inv_threads)
  show ?thesis
  proof (cases "i = Wr_unlock")
    case True
    then have me: "rw_writer (ev_lock s) = Some th" "count_list (rw_readers (ev_lock s)) th = held k"
      using t [of th] assms(2) by (simp_all add: thread_ok_def)
    then have l: "l = (ev_lock s)\<lparr>rw_writer := None\<rparr>" using assms(3) by (simp add: unlock_def)
    have "thread_ok l u (ev_thr s u)" if "u \<noteq> th" for u
      using t [of u] me(1) that by (simp add: thread_ok_def l)
    moreover have "thread_ok l th k"
      using me(2) assms(5) by (simp add: thread_ok_def l later_placed later_not_writing)
    ultimately show ?thesis using assms(1) by (intro lock_inv_goto) (simp_all add: l)
  next
    case False
    then have i: "i = Rd_unlock" using assms(4) by simp
    then have me: "rw_writer (ev_lock s) \<noteq> Some th" "count_list (rw_readers (ev_lock s)) th = Suc (held k)"
      using t [of th] assms(2) by (simp_all add: thread_ok_def)
    then have in_readers: "th \<in> set (rw_readers (ev_lock s))" by (metis count_list_0_iff nat.simps(3))
    then have l: "l = (ev_lock s)\<lparr>rw_readers := remove1 th (rw_readers (ev_lock s))\<rparr>"
      using assms(3) me(1) by (simp add: unlock_def)
    have none: "rw_writer (ev_lock s) = None" using w in_readers by auto
    have "thread_ok l u (ev_thr s u)" if "u \<noteq> th" for u
      using t [of u] that by (simp add: thread_ok_def l count_remove1 [OF in_readers])
    moreover have "thread_ok l th k"
      using me assms(5) none by (simp add: thread_ok_def l later_placed later_not_writing count_remove1 [OF in_readers])
    ultimately show ?thesis using assms(1) none by (intro lock_inv_goto) (simp_all add: l)
  qed
qed

lemma lock_inv_step:
  assumes "lock_inv s" "ev_step body th s s'"
  shows "lock_inv s'"
proof -
  have t: "thread_ok (ev_lock s) t (ev_thr s t)" for t using assms(1) by (simp add: lock_inv_threads)
  have w: "rw_writer (ev_lock s) \<noteq> None \<longrightarrow> rw_readers (ev_lock s) = []" using assms(1) by (simp add: lock_inv_threads)
  note me = t [of th, unfolded thread_ok_def]
  show ?thesis using assms(2)
  proof (cases rule: ev_step.cases)
    case (emit str d k)
    then show ?thesis using me assms(1) by (auto intro!: lock_inv_stay simp: thread_ok_def later_not_writing)
  next
    case (onevent str c k)
    then show ?thesis using me assms(1) by (auto intro!: lock_inv_stay simp: thread_ok_def later_not_writing)
  next
    case (rdlock k r l)
    then obtain str d k' where k: "k = Find str d # Rd_unlock # k'" "later k'" using me before_forms(2) [of k] by auto
    have l: "l = (ev_lock s)\<lparr>rw_readers := th # rw_readers (ev_lock s)\<rparr>" "rw_writer (ev_lock s) = None"
      using lock_results(1) [OF rdlock(3)] me rdlock(2) by auto
    have "thread_ok l u (ev_thr s u)" if "u \<noteq> th" for u using t [of u] that by (simp add: thread_ok_def l(1))
    then show ?thesis unfolding rdlock(1)
      using me rdlock(2) k l assms(1) by (intro lock_inv_goto) (simp_all add: thread_ok_def)
  next
    case (found str d k c)
    then obtain k' where k: "k = Rd_unlock # k'" "later k'" using me before_forms(1) [of k] by auto
    have "thread_ok (ev_lock s) th (map Call (body c d) @ k)"
      using me found(2) k by (simp add: thread_ok_def later_placed later_not_writing)
    then have "lock_inv (ev_goto th (map Call (body c d) @ k) s)" by (rule lock_inv_stay [OF assms(1)])
    then show ?thesis unfolding found(1) using found(3) by (simp add: lock_inv_threads ev_goto_def)
  next
    case (not_found str d k)
    then obtain k' where k: "k = Rd_unlock # k'" "later k'" using me before_forms(1) [of k] by auto
    then show ?thesis unfolding not_found(1)
      using me not_found(2) assms(1) by (intro lock_inv_stay) (auto simp: thread_ok_def)
  next
    case (rd_unlock k r l)
    then show ?thesis using lock_inv_unlocked [OF assms(1) rd_unlock(2,3)] me by simp
  next
    case (wrlock k r l)
    then obtain str c k' where k: "k = Emplace str c # Wr_unlock # k'" "later k'" using me before_forms(4) [of k] by auto
    have l: "l = (ev_lock s)\<lparr>rw_writer := Some th\<rparr>" "rw_writer (ev_lock s) = None" "rw_readers (ev_lock s) = []"
      using lock_results(2) [OF wrlock(3)] me wrlock(2) by auto
    have "thread_ok l u (ev_thr s u)" if "u \<noteq> th" for u using t [of u] that l(2) by (auto simp: thread_ok_def l(1))
    then show ?thesis unfolding wrlock(1)
      using me wrlock(2) k l assms(1) by (intro lock_inv_goto) (simp_all add: thread_ok_def)
  next
    case (emplace str c k)
    then obtain k' where k: "k = Wr_unlock # k'" "later k'" using me before_forms(3) [of k] by auto
    have "thread_ok (ev_lock s) th k" using me emplace(2) k by (simp add: thread_ok_def)
    then have "lock_inv (ev_goto th k s)" by (rule lock_inv_stay [OF assms(1)])
    then show ?thesis unfolding emplace(1) by (fastforce simp: lock_inv_threads ev_goto_def emplace_keeps)
  next
    case (wr_unlock k r l)
    then show ?thesis using lock_inv_unlocked [OF assms(1) wr_unlock(2,3)] me by simp
  qed
qed

lemma lock_inv_reach: "ev_reach body prog_of s \<Longrightarrow> lock_inv s"
  by (induction rule: ev_reach.induct) (blast intro: lock_inv_start lock_inv_step)+

subsection \<open>Nobody waits for himself\<close>

text \<open>A thread registers only where it holds no lock.\<close>

fun registers_free :: "('c, 'd) instr list \<Rightarrow> bool" where
  "registers_free [] \<longleftrightarrow> True"
| "registers_free (Call (Onevent str c) # k) \<longleftrightarrow> held k = 0 \<and> registers_free k"
| "registers_free (Wrlock # k) \<longleftrightarrow> held k = 0 \<and> registers_free k"
| "registers_free (_ # k) \<longleftrightarrow> registers_free k"

definition registers_nothing :: "('c \<Rightarrow> 'd \<Rightarrow> ('c, 'd) call list) \<Rightarrow> bool" where
  "registers_nothing body \<longleftrightarrow> (\<forall>c d str c'. Onevent str c' \<notin> set (body c d))"

lemma registers_free_emits:
  "\<forall>str c. Onevent str c \<notin> set cs \<Longrightarrow> registers_free (map Call cs @ k) \<longleftrightarrow> registers_free k"
proof (induction cs)
  case (Cons a cs)
  then show ?case by (cases a) auto
qed simp

lemma registers_free_start: "registers_free (map Call cs)"
proof (induction cs)
  case (Cons a cs)
  then show ?case by (cases a) simp_all
qed simp

lemma registers_free_step:
  assumes "registers_nothing body" "ev_step body th s s'" "registers_free (ev_thr s t)"
  shows "registers_free (ev_thr s' t)"
  using assms(2,3)
  by (cases rule: ev_step.cases)
     (use assms(1) in \<open>auto simp: ev_goto_def registers_free_emits registers_nothing_def\<close>)

lemma registers_free_reach:
  assumes "registers_nothing body"
  shows "ev_reach body prog_of s \<Longrightarrow> registers_free (ev_thr s t)"
proof (induction rule: ev_reach.induct)
  case start
  show ?case by (simp add: ev_start_def registers_free_start)
next
  case (go s th s')
  then show ?case using registers_free_step [OF assms] by blast
qed

text \<open>Who can go on: everybody but a reader while there is a writer and a writer while there is anybody.\<close>

definition can_step where
  "can_step body th s \<longleftrightarrow> (\<exists>s'. ev_step body th s s')"

lemma calls_step: "ev_thr s th = Call a # k \<Longrightarrow> can_step body th s"
  unfolding can_step_def by (cases a) (blast intro: ev_step.intros)+

lemma finds_step: "ev_thr s th = Find str d # k \<Longrightarrow> can_step body th s"
  unfolding can_step_def by (cases "map_of (ev_table s) str") (blast intro: ev_step.intros)+

lemma emplaces_step: "ev_thr s th = Emplace str c # k \<Longrightarrow> can_step body th s"
  unfolding can_step_def by (blast intro: ev_step.intros)

lemma locks_step:
  "ev_thr s th = Rdlock # k \<Longrightarrow> rw_writer (ev_lock s) = None \<Longrightarrow> can_step body th s"
  "ev_thr s th = Wrlock # k \<Longrightarrow> rw_writer (ev_lock s) = None \<Longrightarrow> rw_readers (ev_lock s) = [] \<Longrightarrow> can_step body th s"
  unfolding can_step_def
  by (rule exI, erule ev_step.rdlock, simp add: lock_defs) (rule exI, erule ev_step.wrlock, simp add: lock_defs)

lemma unlock_defined:
  assumes "thread_ok l th (i # k)" "i = Rd_unlock \<or> i = Wr_unlock"
  shows "\<exists>l'. unlock th l = Returns 0 l'"
proof -
  have "rw_writer l = Some th \<or> count_list (rw_readers l) th \<noteq> 0"
    using assms by (auto simp: thread_ok_def)
  then show ?thesis by (auto simp: unlock_def count_list_0_iff)
qed

lemma unlocks_step:
  assumes "lock_inv s" "ev_thr s th = i # k" "i = Rd_unlock \<or> i = Wr_unlock"
  shows "can_step body th s"
proof -
  have "thread_ok (ev_lock s) th (i # k)" using assms(1,2) by (metis lock_inv_threads)
  then obtain l where "unlock th (ev_lock s) = Returns 0 l" using unlock_defined [OF _ assms(3)] by blast
  then show ?thesis using assms(2,3) unfolding can_step_def by (blast intro: ev_step.intros)
qed

lemma unfinished_steps:
  assumes "lock_inv s" "ev_thr s th \<noteq> []" "rw_writer (ev_lock s) = None"
    and "rw_readers (ev_lock s) = [] \<or> (\<forall>k. ev_thr s th \<noteq> Wrlock # k)"
  shows "can_step body th s"
proof -
  obtain i k where k: "ev_thr s th = i # k" using assms(2) by (cases "ev_thr s th") auto
  show ?thesis
  proof (cases i)
    case Wrlock
    then show ?thesis using k assms(3,4) locks_step(2) by simp
  next
    case Rdlock
    then show ?thesis using k assms(3) locks_step(1) by simp
  qed (use k calls_step finds_step emplaces_step unlocks_step [OF assms(1) k] in simp_all)
qed

subsection \<open>Properties\<close>

text \<open>C37: However threads register and emit events, and whatever events the callbacks emit and register in turn:
  while a thread writes the table no other writes it and none is inside an emission, so the table stands still
  under every callback; a name always runs the callback that was registered first under it, which the table
  still holds; no assertion on the lock fails, and no lock is released that is not held.\<close>

theorem events_are_exclusive:
  assumes "ev_reach body prog_of s"
  shows "(\<forall>t u. writing (ev_thr s t) \<longrightarrow> held (ev_thr s u) = 0 \<and> (writing (ev_thr s u) \<longrightarrow> u = t)) \<and>
    (\<forall>(t, str, c) \<in> set (ev_ran s). map_of (ev_table s) str = Some c) \<and>
    (\<forall>t k r l. ev_thr s t = Rdlock # k \<and> rdlock t (ev_lock s) = Returns r l \<or>
       ev_thr s t = Wrlock # k \<and> wrlock t (ev_lock s) = Returns r l \<longrightarrow> r = 0) \<and>
    (\<forall>t k. ev_thr s t = Rd_unlock # k \<or> ev_thr s t = Wr_unlock # k \<longrightarrow> unlock t (ev_lock s) \<noteq> Undefined)"
proof -
  have inv: "lock_inv s" using assms by (rule lock_inv_reach)
  then have t: "thread_ok (ev_lock s) t (ev_thr s t)" for t by (simp add: lock_inv_threads)
  have w: "rw_writer (ev_lock s) \<noteq> None \<longrightarrow> rw_readers (ev_lock s) = []" using inv by (simp add: lock_inv_threads)
  have 1: "held (ev_thr s u) = 0 \<and> (writing (ev_thr s u) \<longrightarrow> u = t)" if "writing (ev_thr s t)" for t u
  proof -
    have "rw_writer (ev_lock s) = Some t" using t [of t] that by (simp add: thread_ok_def)
    then show ?thesis using t [of u] w by (auto simp: thread_ok_def)
  qed
  have 2: "r = 0" if "ev_thr s t = Rdlock # k \<and> rdlock t (ev_lock s) = Returns r l \<or>
       ev_thr s t = Wrlock # k \<and> wrlock t (ev_lock s) = Returns r l" for t k r l
    using that t [of t] lock_results [of t "ev_lock s" r l] by (auto simp: thread_ok_def)
  have 3: "unlock u (ev_lock s) \<noteq> Undefined" if "ev_thr s u = Rd_unlock # k \<or> ev_thr s u = Wr_unlock # k" for u k
    using that t [of u] unlock_defined [of "ev_lock s" u _ k] by fastforce
  show ?thesis using 1 2 3 inv unfolding lock_inv_threads by blast
qed

text \<open>C14: If no callback registers an event, threads never deadlock: as long as any has something left to do, some
  thread can go on. (A callback that registers waits for its own lock: \<open>registering_callback_hangs\<close>.)\<close>

theorem events_never_deadlock:
  assumes "registers_nothing body" "ev_reach body prog_of s" "ev_thr s t \<noteq> []"
  shows "\<exists>th s'. ev_step body th s s'"
proof -
  have inv: "lock_inv s" using assms(2) by (rule lock_inv_reach)
  then have ok: "thread_ok (ev_lock s) u (ev_thr s u)" for u by (simp add: lock_inv_threads)
  consider (writer) w where "rw_writer (ev_lock s) = Some w"
    | (reader) u where "rw_writer (ev_lock s) = None" "u \<in> set (rw_readers (ev_lock s))"
    | (free) "rw_writer (ev_lock s) = None" "rw_readers (ev_lock s) = []"
    by (metis list.set_sel(1) option.exhaust)
  then have "\<exists>th. can_step body th s"
  proof cases
    case writer
    then have "writing (ev_thr s w)" using ok [of w] by (simp add: thread_ok_def)
    then show ?thesis
      by (cases "ev_thr s w" rule: writing.cases) (auto intro: emplaces_step unlocks_step [OF inv])
  next
    case reader
    then have held: "held (ev_thr s u) \<noteq> 0" using ok [of u] by (metis thread_ok_def count_list_0_iff)
    then have "ev_thr s u \<noteq> []" by auto
    moreover have "ev_thr s u \<noteq> Wrlock # k" for k
      using held registers_free_reach [OF assms(1,2), of u] by auto
    ultimately show ?thesis using unfinished_steps [OF inv, of u body] reader(1) by blast
  next
    case free
    then show ?thesis using unfinished_steps [OF inv assms(3)] by blast
  qed
  then show ?thesis by (simp add: can_step_def)
qed

text \<open>A callback that registers an event never gets the lock, whatever the other threads do.\<close>

theorem registering_callback_hangs:
  assumes "(\<lambda>s s'. \<exists>u. ev_step body u s s')\<^sup>*\<^sup>* s s'" "lock_inv s" "ev_thr s th = Wrlock # k" "0 < held k"
  shows "ev_thr s' th = Wrlock # k \<and> lock_inv s'"
  using assms(1)
proof (induction rule: rtranclp_induct)
  case base
  then show ?case using assms(2,3) by simp
next
  case (step s1 s2)
  then obtain u where u: "ev_step body u s1 s2" by blast
  have "count_list (rw_readers (ev_lock s1)) th = held k" "\<not> writing (ev_thr s1 th)"
    "rw_writer (ev_lock s1) = Some th \<longleftrightarrow> writing (ev_thr s1 th)"
    using step.IH by (auto simp: lock_inv_threads thread_ok_def dest: spec [of _ th])
  then have "wrlock th (ev_lock s1) = Waits" using assms(4) by (auto simp: lock_defs)
  then have "u \<noteq> th" using u step.IH by (auto elim: ev_step.cases)
  with u have "ev_thr s2 th = ev_thr s1 th" by (cases rule: ev_step.cases) (simp_all add: ev_goto_def)
  then show ?case using step.IH lock_inv_step [OF _ u] by simp
qed

text \<open>Two threads; the callback of the first event emits the second.\<close>

definition sample_body :: "nat \<Rightarrow> unit \<Rightarrow> (nat, unit) call list" where
  "sample_body c d = (if c = 7 then [Emit ''b'' ()] else [])"

definition sample_prog :: "nat \<Rightarrow> (nat, unit) call list" where
  "sample_prog th = (if th = 0 then [Onevent ''a'' 7, Emit ''a'' ()] else if th = 1 then [Onevent ''a'' 8] else [])"

lemma sample_reach:
  "\<exists>s. ev_sched sample_body [0, 0, 1, 0, 0, 0, 0, 0, 0] (ev_start sample_prog) = Some s \<and>
     ev_thr s 0 = [Rdlock, Find ''b'' (), Rd_unlock, Rd_unlock] \<and> ev_ran s = [(0, ''a'', 7)]"
  by (simp add: ev_start_def sample_prog_def sample_body_def ev_exec_def after_lock_def lock_defs rwlock_new_def
      ev_goto_def ev_emplace_def)

theorem events_are_exclusive_witness:
  "\<exists>s. ev_sched sample_body [0, 0, 1, 0, 0, 0, 0, 0, 0] (ev_start sample_prog) = Some s \<and>
    (\<forall>t u. writing (ev_thr s t) \<longrightarrow> held (ev_thr s u) = 0 \<and> (writing (ev_thr s u) \<longrightarrow> u = t)) \<and>
    (\<forall>(t, str, c) \<in> set (ev_ran s). map_of (ev_table s) str = Some c) \<and>
    (\<forall>t k r l. ev_thr s t = Rdlock # k \<and> rdlock t (ev_lock s) = Returns r l \<or>
       ev_thr s t = Wrlock # k \<and> wrlock t (ev_lock s) = Returns r l \<longrightarrow> r = 0) \<and>
    (\<forall>t k. ev_thr s t = Rd_unlock # k \<or> ev_thr s t = Wr_unlock # k \<longrightarrow> unlock t (ev_lock s) \<noteq> Undefined)"
proof -
  obtain s where s: "ev_sched sample_body [0, 0, 1, 0, 0, 0, 0, 0, 0] (ev_start sample_prog) = Some s"
    using sample_reach by blast
  show ?thesis using s events_are_exclusive [OF ev_sched_reach [OF ev_reach.start s]] by blast
qed

theorem events_never_deadlock_witness:
  "\<exists>s. ev_sched sample_body [0, 0, 1, 0, 0, 0, 0, 0, 0] (ev_start sample_prog) = Some s \<and>
    (\<exists>th s'. ev_step sample_body th s s')"
proof -
  obtain s where s: "ev_sched sample_body [0, 0, 1, 0, 0, 0, 0, 0, 0] (ev_start sample_prog) = Some s" "ev_thr s 0 \<noteq> []"
    using sample_reach by fastforce
  have "registers_nothing sample_body" by (simp add: registers_nothing_def sample_body_def)
  then show ?thesis using s events_never_deadlock [OF _ ev_sched_reach [OF ev_reach.start s(1)] s(2)] by blast
qed

end
