(* ===== verification/Heartbeats.thy ===== *)
theory Heartbeats
  imports EndToEnd Support
begin

text \<open>
  Heartbeats on the wire: \<^verbatim>\<open>heartbeat_init\<close> (\<^verbatim>\<open>net/heardbeat.h\<close>), which gives all objects of
  a class what \<^verbatim>\<open>ontime\<close> is to send and how to end, the constructors that call it
  (\<^verbatim>\<open>msg/rpccli.h\<close>, \<^verbatim>\<open>pbmsg/pbclient.h\<close>, \<^verbatim>\<open>pbmsg/pbserver.cpp\<close>), and what the
  dispatchers make of the frames. The counter itself is in \<open>Support\<close>.
\<close>

subsection \<open>What a class sends\<close>

text \<open>The second template argument of \<^verbatim>\<open>heartbeat_init\<close>; a hook that was never set is the empty
  lambda, which leaves \<^verbatim>\<open>onsend\<close> and \<^verbatim>\<open>onend\<close> empty.\<close>

datatype msg_class = Class_MSG | Class_PBMSG

record hooks =
  h_session :: "msg_class option"
  h_msgsession :: "msg_class option"
  h_rpccli_done :: bool
  h_pbclient_done :: bool
  h_pbclientex_done :: bool

definition hooks_none :: hooks where
  "hooks_none = \<lparr>h_session = None, h_msgsession = None, h_rpccli_done = False, h_pbclient_done = False,
     h_pbclientex_done = False\<rparr>"

text \<open>The hook is a static member of the class: one for all its objects, the last call stays.\<close>

definition heartbeat_init_session :: "msg_class \<Rightarrow> hooks \<Rightarrow> hooks" where
  "heartbeat_init_session k h = h\<lparr>h_session := Some k\<rparr>"

definition heartbeat_init_msgsession :: "msg_class \<Rightarrow> hooks \<Rightarrow> hooks" where
  "heartbeat_init_msgsession k h = h\<lparr>h_msgsession := Some k\<rparr>"

text \<open>The constructors, each with a \<^verbatim>\<open>static\<close> that is initialised the first time.\<close>

definition rpccli_construct :: "hooks \<Rightarrow> hooks" where
  "rpccli_construct h =
     (if h_rpccli_done h then h else (heartbeat_init_msgsession Class_MSG h)\<lparr>h_rpccli_done := True\<rparr>)"

definition pbclient_construct :: "hooks \<Rightarrow> hooks" where
  "pbclient_construct h =
     (if h_pbclient_done h then h else (heartbeat_init_msgsession Class_PBMSG h)\<lparr>h_pbclient_done := True\<rparr>)"

definition pbclientex_construct :: "hooks \<Rightarrow> hooks" where
  "pbclientex_construct h =
     (if h_pbclientex_done h then h else (heartbeat_init_msgsession Class_PBMSG h)\<lparr>h_pbclientex_done := True\<rparr>)"

definition pbserver_static_init :: "hooks \<Rightarrow> hooks" where
  "pbserver_static_init h = heartbeat_init_session Class_PBMSG h"

text \<open>The frame \<^verbatim>\<open>onsend\<close> sends: only \<^verbatim>\<open>len\<close> is set, the other fields are what the stack
  held, \<open>g1\<close> and \<open>g2\<close>.\<close>

fun heartbeat_frame :: "i32 \<Rightarrow> i32 \<Rightarrow> msg_class \<Rightarrow> byte list" where
  "heartbeat_frame g1 g2 Class_MSG = MSG_bytes g1 g2 []"
| "heartbeat_frame g1 g2 Class_PBMSG = PBMSG_bytes []"

text \<open>An expiry of a client session's timer: \<^verbatim>\<open>ontime\<close> with what \<^verbatim>\<open>oninit\<close> put in.\<close>

definition ms_ontime :: "i32 \<Rightarrow> i32 \<Rightarrow> hooks \<Rightarrow> 'c callbacks \<Rightarrow> int \<Rightarrow> int \<Rightarrow> ('c msgsession, int) prog" where
  "ms_ontime g1 g2 h usr fd n =
     (case (h_msgsession h, snd (ontime n)) of
        (None, _) \<Rightarrow> throw
      | (Some k, Onsend) \<Rightarrow> bnd (ms_send usr fd (heartbeat_frame g1 g2 k)) (\<lambda>_. ret (fst (ontime n)))
      | (Some k, Onend) \<Rightarrow> bnd ms_stop (\<lambda>_. ret (fst (ontime n))))"

subsection \<open>What the other end makes of them\<close>

text \<open>The frames that are heartbeats of an \<^verbatim>\<open>rpccli\<close>.\<close>

definition is_beat :: "i32 \<times> i32 \<times> byte list \<Rightarrow> bool" where
  "is_beat m \<longleftrightarrow> MSG_frame m = heartbeat_frame (fst m) (fst (snd m)) Class_MSG"

lemma is_beat_empty: "is_beat (cmd, err, xs) \<longleftrightarrow> xs = []"
proof
  assume "is_beat (cmd, err, xs)"
  then have "length (MSG_bytes cmd err xs) = length (MSG_bytes cmd err [])" by (simp add: is_beat_def MSG_frame_def)
  then show "xs = []" by simp
qed (simp add: is_beat_def MSG_frame_def)

lemma fold_beats:
  "(\<And>m st. is_beat m \<Longrightarrow> act m st = st) \<Longrightarrow> fold act ms st = fold act (filter (\<lambda>m. \<not> is_beat m) ms) st"
  by (induction ms arbitrary: st) auto


definition beat_stream :: "byte list" where
  "beat_stream = heartbeat_frame 3 4 Class_MSG @ MSG_frame (1, 0, [7]) @ heartbeat_frame 5 6 Class_MSG"


text \<open>In the other direction they are not: \<^verbatim>\<open>mydispatch<MSG>::client\<close> does not look at the size
  before it hands a frame on, so a heartbeat of a server would answer the query in flight, with the error
  and under the command its sender's stack happened to hold.\<close>

lemma heartbeat_answers_query:
  assumes "in_flight s" "quiet_callbacks usr" "m_dispatch t g1 = None" "ms_list s = q # rest" "12 \<le> n"
  shows "\<exists>s'. session_dispatch nd usr fd t (heartbeat_frame g1 g2 Class_MSG @ rest') n s = Inr (12, s') \<and>
    ms_list s' = rest \<and>
    ms_trace s' = ms_trace s @ Answered (q_callback q) (results_set (sint g2) 0 []) # next_sent rest"
proof -
  have "session_dispatch nd usr fd t (heartbeat_frame g1 g2 Class_MSG @ rest') n s =
      Inr (12, session_act (g1, g2, []) s)"
    using link_client.full [of "(g1, g2, [])" usr t s "heartbeat_frame g1 g2 Class_MSG @ rest'" n nd fd] assms
    by (simp add: MSG_frame_def MSG_ok_def sizeof_MSG_def)
  then show ?thesis using assms(4) by (simp add: session_act_def session_answer_def)
qed

text \<open>Sessions of servers have one hook for all protocols, that of \<^verbatim>\<open>pbserver.cpp\<close>. On a
  \<^verbatim>\<open>MSG\<close> connection its four zero bytes become the length of a frame whose command is the length of the
  next message and whose error is its command: the client takes twelve bytes for an empty message and
  starts the next frame at the error field, in the middle of the response.\<close>

lemma pb_heartbeat_shifts_frames:
  assumes "12 \<le> n"
  shows "h_session (pbserver_static_init h) = Some Class_PBMSG \<and>
    mydispatch_client on_tick hnd (heartbeat_frame g1 g2 Class_PBMSG @ MSG_bytes cmd err xs) n st =
      bind_res (hnd (word_of_nat (length xs)) cmd [] (on_tick st)) (\<lambda>st. Inr (12, st)) \<and>
    drop 12 (heartbeat_frame g1 g2 Class_PBMSG @ MSG_bytes cmd err xs) = le_bytes 4 err @ xs"
proof -
  have mem: "heartbeat_frame g1 g2 Class_PBMSG @ MSG_bytes cmd err xs =
      MSG_bytes (word_of_nat (length xs)) cmd [] @ le_bytes 4 err @ xs"
    by (simp add: PBMSG_bytes_def MSG_bytes_def)
  show ?thesis
    using mydispatch_client_full [OF mem, of n on_tick hnd st] assms
    by (simp add: pbserver_static_init_def heartbeat_init_session_def sizeof_MSG_def sizeof_PBMSG_def)
       (simp add: PBMSG_bytes_def MSG_bytes_def)
qed

text \<open>Clients share a hook as well: once a \<^verbatim>\<open>pbclient\<close> has been made, every \<^verbatim>\<open>rpccli\<close>, made before or
  after, sends heartbeats of four bytes into a stream of frames with headers of twelve.\<close>

lemma clients_share_heartbeat:
  "h_msgsession (rpccli_construct (pbclient_construct (rpccli_construct hooks_none))) = Some Class_PBMSG"
  by (simp add: rpccli_construct_def pbclient_construct_def heartbeat_init_msgsession_def hooks_none_def)

text \<open>Without a hook an expiry calls an empty \<^verbatim>\<open>std::function\<close>, silent or not.\<close>

lemma unset_heartbeat_throws: "h_msgsession h = None \<Longrightarrow> ms_ontime g1 g2 h usr fd n s = Threw s"
  by (simp add: ms_ontime_def)

text \<open>A client session that hears nothing for the time between three expiries is stopped, whatever the state of
  its connection; until then each expiry sends one heartbeat over it.\<close>

lemma silent_session_stops:
  assumes "h_msgsession h = Some k" "0 < n" "ms_valid s" "ms_sends s = []"
  shows "\<exists>s'. bnd (ms_ontime g1 g2 h usr fd n) (\<lambda>n. bnd (ms_ontime g1 g2 h usr fd n) (ms_ontime g1 g2 h usr fd)) s =
      Done (-1) s' \<and> ms_client s' = None \<and>
    ms_trace s' = ms_trace s @ [Sent (heartbeat_frame g1 g2 k), Sent (heartbeat_frame g1 g2 k)]"
  using assms
  by (simp add: ms_ontime_def ontime_def ms_send_def ms_client_send_def MsgSession.emit_def ms_stop_def ms_valid_def
      bnd_def)

end
