(* ===== verification/Addr.thy ===== *)
theory Addr
  imports AsyncNet
begin

text \<open>
  \<^verbatim>\<open>src/src/net/asyncsys.cpp\<close>: splitting addresses and urls, and starting servers and
  connections from them. The regular expressions of the file are sequences of literals, groups and
  greedy repetitions of a character class; \<open>rmatch\<close> lists the ways such an expression matches at the
  head of a string, in the order a backtracking matcher (ECMAScript, the default of \<^verbatim>\<open>std::regex\<close>)
  tries them, with the texts of the groups, and \<open>regex_search\<close> takes the first way at the first
  position that has one. The resolver behind \<^verbatim>\<open>getaddrinfo\<close> is a parameter.
\<close>

subsection \<open>Regular expressions\<close>

datatype rx =
    Lit char
  | Rep "char \<Rightarrow> bool" nat "nat option"
  | Seq rx rx
  | Grp rx

fun rmatch :: "rx \<Rightarrow> string \<Rightarrow> (nat \<times> string list) list" where
  "rmatch (Lit c) s = (case s of x # _ \<Rightarrow> if x = c then [(1, [])] else [] | [] \<Rightarrow> [])"
| "rmatch (Rep p lo hi) s =
     (let n = length (takeWhile p s); n = (case hi of None \<Rightarrow> n | Some h \<Rightarrow> min h n)
      in map (\<lambda>k. (k, [])) (rev [lo..<Suc n]))"
| "rmatch (Seq a b) s =
     concat (map (\<lambda>(n, cs). map (\<lambda>(m, ds). (n + m, cs @ ds)) (rmatch b (drop n s))) (rmatch a s))"
| "rmatch (Grp a) s = map (\<lambda>(n, cs). (n, take n s # cs)) (rmatch a s)"

fun regex_search :: "rx \<Rightarrow> string \<Rightarrow> string list option" where
  "regex_search r [] = (case rmatch r [] of m # _ \<Rightarrow> Some (snd m) | [] \<Rightarrow> None)"
| "regex_search r (x # s) =
     (case rmatch r (x # s) of m # _ \<Rightarrow> Some (snd m) | [] \<Rightarrow> regex_search r s)"

definition digit :: "char \<Rightarrow> bool" where
  "digit c \<longleftrightarrow> c \<in> set ''0123456789''"

definition word_char :: "char \<Rightarrow> bool" where
  "word_char c \<longleftrightarrow> digit c \<or>
     c \<in> set ''abcdefghijklmnopqrstuvwxyzABCDEFGHIJKLMNOPQRSTUVWXYZ_''"

definition non_space :: "char \<Rightarrow> bool" where
  "non_space c \<longleftrightarrow> c \<notin> set [CHR '' '', CHR 0x09, CHR 0x0A, CHR 0x0B, CHR 0x0C, CHR 0x0D]"

definition plus :: "(char \<Rightarrow> bool) \<Rightarrow> rx" where
  "plus p = Rep p 1 None"

definition octet :: rx where
  "octet = Rep digit 1 (Some 3)"

definition e_port :: rx where
  "e_port = Seq (Lit CHR '':'') (Grp (plus digit))"

definition e_ip_port :: rx where
  "e_ip_port =
     Seq (Grp (Seq octet (Seq (Lit CHR ''.'') (Seq octet (Seq (Lit CHR ''.'')
       (Seq octet (Seq (Lit CHR ''.'') octet)))))))
     (Seq (Lit CHR '':'') (Grp (plus digit)))"

definition e_url :: rx where
  "e_url = Grp (plus word_char)"

definition e_url_port :: rx where
  "e_url_port = Seq (Grp (plus word_char)) (Seq (Lit CHR '':'') (Grp (plus digit)))"

definition e_login_url :: rx where
  "e_login_url = Seq (Grp (plus non_space)) (Seq (Lit CHR '':'')
     (Seq (Grp (plus non_space)) (Seq (Lit CHR ''@'') (Grp (plus non_space)))))"

definition e_login_url2 :: rx where
  "e_login_url2 = Seq (Grp (plus non_space)) (Seq (Lit CHR ''@'') (Grp (plus non_space)))"

subsection \<open>Addresses\<close>

text \<open>\<^verbatim>\<open>std::stoi\<close> of a string of digits.\<close>

definition digit_value :: "char \<Rightarrow> int" where
  "digit_value c = int (of_char c) - 48"

definition digits_value :: "string \<Rightarrow> int" where
  "digits_value ds = foldl (\<lambda>n c. 10 * n + digit_value c) 0 ds"

definition stoi :: "string \<Rightarrow> int res" where
  "stoi ds = (if digits_value ds < 2 ^ 31 then Inr (digits_value ds) else Inl (Throw ''stoi''))"

text \<open>
  \<^verbatim>\<open>parsedns\<close>: the answer of \<^verbatim>\<open>getaddrinfo\<close> is a code and a list of addresses (a null
  \<^verbatim>\<open>ai_addr\<close> is \<open>None\<close>). The first address is printed into a string of 100 characters and
  all 100 are returned.
\<close>

primrec first_addr :: "string option list \<Rightarrow> string" where
  "first_addr [] = []"
| "first_addr (a # as) =
     (case a of Some t \<Rightarrow> t @ replicate (100 - length t) (CHR 0x00) | None \<Rightarrow> first_addr as)"

definition parsedns :: "(string \<Rightarrow> int \<times> string option list) \<Rightarrow> string \<Rightarrow> string" where
  "parsedns resolver url =
     (case resolver url of (code, as) \<Rightarrow> if code = 0 then first_addr as else [])"

text \<open>Results: what the reference parameters are set to, \<open>None\<close> for \<^verbatim>\<open>false\<close>. \<open>dns\<close> is
  \<^verbatim>\<open>parsedns\<close> with its resolver.\<close>

definition splitaddr :: "(string \<Rightarrow> string) \<Rightarrow> string \<Rightarrow> (string \<times> int) option res" where
  "splitaddr dns addr =
     (case regex_search e_ip_port addr of
        Some sm \<Rightarrow> bind_res (stoi (sm ! 1)) (\<lambda>p. Inr (Some (sm ! 0, p)))
      | None \<Rightarrow> (case regex_search e_port addr of
        Some sm \<Rightarrow> bind_res (stoi (sm ! 0)) (\<lambda>p. Inr (Some (''127.0.0.1'', p)))
      | None \<Rightarrow> (case regex_search e_url addr of
        Some sm \<Rightarrow> Inr (Some (dns (sm ! 0), 80))
      | None \<Rightarrow> (case regex_search e_url_port addr of
        Some sm \<Rightarrow> bind_res (stoi (sm ! 1)) (\<lambda>p. Inr (Some (dns (sm ! 0), p)))
      | None \<Rightarrow> Inr None))))"

text \<open>Name, password (\<open>None\<close>: left as it was), address.\<close>

definition spliturl :: "string \<Rightarrow> (string \<times> string option \<times> string) option" where
  "spliturl url =
     (case regex_search e_login_url url of
        Some sm \<Rightarrow> Some (sm ! 0, Some (sm ! 1), sm ! 2)
      | None \<Rightarrow> (case regex_search e_login_url2 url of
        Some sm \<Rightarrow> Some (sm ! 0, None, sm ! 1)
      | None \<Rightarrow> None))"

subsection \<open>Servers and connections\<close>

text \<open>
  \<^verbatim>\<open>start\<close> binds on the calling thread and hands the socket to the threads it creates; the second
  component lists what each is to run, \<^verbatim>\<open>__start\<close> on its own loop. That ends the process when
  the bind has failed (\<open>None\<close>); else it registers the socket and waits.
\<close>

definition MAX_SERVER_THREAD :: nat where "MAX_SERVER_THREAD = 10"

definition asyncsys_start ::
    "'u env \<Rightarrow> (string \<Rightarrow> string) \<Rightarrow> string \<Rightarrow> ('u net, int \<times> int list) prog" where
  "asyncsys_start E dns addr =
     (case splitaddr dns addr of
        Inl e \<Rightarrow> throw
      | Inr None \<Rightarrow> ret (INVALID, [])
      | Inr (Some (ip, port)) \<Rightarrow>
          bnd (i_bind E ip port) (\<lambda>fd. ret (INVALID, replicate MAX_SERVER_THREAD fd)))"

definition asyncsys_thread ::
    "'u env \<Rightarrow> int \<Rightarrow> 'u option \<Rightarrow> 'u option \<Rightarrow> (u64 \<times> u32) list list \<Rightarrow> ('u net, bool option) prog" where
  "asyncsys_thread E fd cli cl batches =
     (if fd = INVALID then ret None
      else bnd (i_start E fd cli cl) (\<lambda>_. bnd (wait E batches) (\<lambda>b. ret (Some b))))"

definition asyncsys_connect ::
    "'u env \<Rightarrow> (string \<Rightarrow> string) \<Rightarrow> string \<Rightarrow> 'u option \<Rightarrow> 'u option \<Rightarrow> ('u net, int) prog" where
  "asyncsys_connect E dns addr cli cl =
     (case splitaddr dns addr of
        Inl e \<Rightarrow> throw
      | Inr None \<Rightarrow> ret INVALID
      | Inr (Some (ip, port)) \<Rightarrow> net_connect E ip port cli cl)"

subsection \<open>The first match\<close>

definition rfirst :: "rx \<Rightarrow> string \<Rightarrow> (nat \<times> string list) option" where
  "rfirst r s = (case rmatch r s of [] \<Rightarrow> None | m # _ \<Rightarrow> Some m)"

lemma rfirst_None: "rfirst r s = None \<longleftrightarrow> rmatch r s = []"
  by (simp add: rfirst_def split: list.splits)

lemma rfirst_SomeD: "rfirst r s = Some m \<Longrightarrow> \<exists>ms. rmatch r s = m # ms"
  by (simp add: rfirst_def split: list.splits)

lemma rfirst_Seq:
  "rfirst a s = Some (n, cs) \<Longrightarrow> rfirst b (drop n s) = Some (m, ds) \<Longrightarrow>
     rfirst (Seq a b) s = Some (n + m, cs @ ds)"
  by (auto simp: rfirst_def split: list.splits)

lemma rfirst_Grp: "rfirst a s = Some (n, cs) \<Longrightarrow> rfirst (Grp a) s = Some (n, take n s # cs)"
  by (auto simp: rfirst_def split: list.splits)

lemma rfirst_Lit: "rfirst (Lit c) (c # s) = Some (1, [])"
  by (simp add: rfirst_def)

lemma takeWhile_run: "\<forall>c \<in> set a. p c \<Longrightarrow> t = [] \<or> \<not> p (hd t) \<Longrightarrow> takeWhile p (a @ t) = a"
  by (cases t) (auto simp: takeWhile_append)

lemma rev_upt_hd: "lo \<le> n \<Longrightarrow> rev [lo..<Suc n] = n # rev [lo..<n]"
  by simp

lemma rfirst_Rep:
  assumes "\<forall>c \<in> set a. p c" "t = [] \<or> \<not> p (hd t)" "lo \<le> length a"
    and "case hi of None \<Rightarrow> True | Some h \<Rightarrow> length a \<le> h"
  shows "rfirst (Rep p lo hi) (a @ t) = Some (length a, [])"
  using assms takeWhile_run [of a p t]
  by (auto simp: rfirst_def min_def rev_upt_hd Let_def split: option.splits)

lemma regex_search_here: "rfirst r s = Some (n, cs) \<Longrightarrow> regex_search r s = Some cs"
  by (cases s) (auto simp: rfirst_def split: list.splits)

lemma regex_search_None: "regex_search r s = None \<longleftrightarrow> (\<forall>n. rmatch r (drop n s) = [])"
proof (induction s)
  case Nil
  then show ?case by (simp split: list.splits)
next
  case (Cons x s)
  have "(\<forall>n. rmatch r (drop n (x # s)) = []) \<longleftrightarrow>
      rmatch r (x # s) = [] \<and> (\<forall>n. rmatch r (drop n s) = [])"
    by (metis drop0 drop_Suc_Cons not0_implies_Suc)
  then show ?case using Cons by (simp split: list.splits)
qed

text \<open>A greedy group takes the longest text after which the rest matches.\<close>

lemma rfirst_longest:
  assumes k: "1 \<le> k" "k \<le> length (takeWhile p s)"
    and far: "\<And>j. k < j \<Longrightarrow> rmatch r (drop j s) = []"
    and here: "rfirst r (drop k s) = Some (m, ds)"
  shows "rfirst (Seq (Grp (plus p)) r) s = Some (k + m, take k s # ds)"
proof -
  define n where "n = length (takeWhile p s)"
  have split: "rev [1..<Suc n] = rev [Suc k..<Suc n] @ k # rev [1..<k]"
  proof -
    have "[1..<Suc n] = [1..<k] @ [k..<Suc n]"
      using k upt_add_eq_append [of 1 k "Suc n - k"] by (simp add: n_def del: upt_Suc)
    moreover have "[k..<Suc n] = k # [Suc k..<Suc n]"
      using k by (simp add: upt_conv_Cons n_def del: upt_Suc)
    ultimately have "[1..<Suc n] = [1..<k] @ k # [Suc k..<Suc n]" by simp
    then show ?thesis by simp
  qed
  define f where "f = (\<lambda>j. map (\<lambda>(m, ds). (j + m, take j s # ds)) (rmatch r (drop j s)))"
  have r: "rmatch (Seq (Grp (plus p)) r) s = concat (map f (rev [1..<Suc n]))"
    by (simp add: plus_def Let_def n_def f_def comp_def del: upt_Suc)
  have "concat (map f (rev [Suc k..<Suc n])) = []"
    using far by (auto simp: f_def)
  then have "rmatch (Seq (Grp (plus p)) r) s = f k @ concat (map f (rev [1..<k]))"
    unfolding r split by simp
  moreover obtain ms where "rmatch r (drop k s) = (m, ds) # ms"
    using rfirst_SomeD [OF here] by blast
  ultimately show ?thesis by (simp add: rfirst_def f_def)
qed

text \<open>A character an expression must contain.\<close>

fun needs :: "char \<Rightarrow> rx \<Rightarrow> bool" where
  "needs c (Lit d) = (c = d)"
| "needs c (Rep p lo hi) = False"
| "needs c (Seq a b) = (needs c a \<or> needs c b)"
| "needs c (Grp a) = needs c a"

lemma needs_in: "needs c r \<Longrightarrow> c \<notin> set s \<Longrightarrow> rmatch r s = []"
proof (induction r arbitrary: s)
  case (Lit d)
  then show ?case by (auto split: list.splits)
next
  case (Seq a b)
  have "c \<notin> set (drop n s)" for n using Seq.prems(2) by (meson in_set_dropD)
  then show ?case using Seq by auto
qed auto

lemma rmatch_Lit_Seq: "rmatch (Seq (Lit c) r) s \<noteq> [] \<longleftrightarrow> (\<exists>t. s = c # t \<and> rmatch r t \<noteq> [])"
  by (cases s) auto

subsection \<open>What the addresses mean\<close>

text \<open>C24: A dotted quad with a port is split exactly, whatever follows the digits: the four parts
  joined by dots and the value of the port, or \<^verbatim>\<open>std::out_of_range\<close> when that is no \<^verbatim>\<open>int\<close>.\<close>

theorem splitaddr_ip_port:
  assumes q: "\<forall>x \<in> {a, b, c, d}. 1 \<le> length x \<and> length x \<le> 3 \<and> (\<forall>y \<in> set x. digit y)"
    and ds: "ds \<noteq> []" "\<forall>y \<in> set ds. digit y" "rest = [] \<or> \<not> digit (hd rest)"
    and ip: "ip = a @ ''.'' @ b @ ''.'' @ c @ ''.'' @ d"
  shows "splitaddr dns (ip @ '':'' @ ds @ rest) =
    bind_res (stoi ds) (\<lambda>port. Inr (Some (ip, port)))"
proof -
  have nd: "\<not> digit CHR ''.''" "\<not> digit CHR '':''" by (simp_all add: digit_def)
  have oct: "rfirst octet (x @ y # t) = Some (length x, [])" if "x \<in> {a, b, c, d}" "\<not> digit y" for x y t
    unfolding octet_def using q that by (intro rfirst_Rep) auto
  have port: "rfirst (Seq (Lit CHR '':'') (Grp (plus digit))) (CHR '':'' # ds @ rest) = Some (1 + length ds, [ds])"
    using rfirst_Seq [OF rfirst_Lit [of "CHR '':''" "ds @ rest"]]
      rfirst_Grp [OF rfirst_Rep [of ds digit rest 1 None]] ds
    by (simp add: plus_def Suc_le_eq)
  have dot: "rfirst (Seq octet (Seq (Lit CHR ''.'') r)) (x @ CHR ''.'' # t) =
      Some (length x + (1 + m), es)" if "x \<in> {a, b, c, d}" "rfirst r t = Some (m, es)" for x r t m es
    using rfirst_Seq [OF oct [OF that(1) nd(1), of t]] rfirst_Seq [OF rfirst_Lit [of "CHR ''.''" t]] that(2)
    by simp
  have quad: "rfirst (Seq octet (Seq (Lit CHR ''.'') (Seq octet (Seq (Lit CHR ''.'')
      (Seq octet (Seq (Lit CHR ''.'') octet)))))) (ip @ CHR '':'' # ds @ rest) = Some (length ip, [])"
    using dot [of a, OF _ dot [of b, OF _ dot [of c, OF _ oct [of d, OF _ nd(2), of "ds @ rest"]]]]
    by (simp add: ip)
  have "rfirst e_ip_port (ip @ CHR '':'' # ds @ rest) = Some (length ip + (1 + length ds), [ip, ds])"
    unfolding e_ip_port_def using rfirst_Seq [OF rfirst_Grp [OF quad]] port by simp
  then show ?thesis
    using regex_search_here by (fastforce simp: splitaddr_def)
qed

theorem splitaddr_ip_port_witness:
  "splitaddr (\<lambda>_. []) (''192.168.0.1'' @ '':'' @ ''8080'' @ ''/x'') = Inr (Some (''192.168.0.1'', 8080))"
  using splitaddr_ip_port [of "''192''" "''168''" "''0''" "''1''" "''8080''" "''/x''" "''192.168.0.1''" "\<lambda>_. []"]
  by (simp add: digit_def stoi_def digits_value_def digit_value_def)

lemma rmatch_Seq_Nil: "(\<And>n. rmatch b (drop n s) = []) \<Longrightarrow> rmatch (Seq a b) s = []"
  by simp

lemma url_port_has_port:
  assumes "regex_search e_port s = None"
  shows "regex_search e_url_port s = None"
proof -
  have "rmatch e_port (drop k (drop n s)) = []" for k n
    using assms unfolding regex_search_None by (simp only: drop_drop)
  then show ?thesis
    unfolding regex_search_None e_url_port_def e_port_def by (blast intro: rmatch_Seq_Nil)
qed

text \<open>Only a dotted quad is a host when a port is given: any other address with a colon
  and a digit after it goes to \<open>127.0.0.1\<close>, whatever host it names. The pattern for a named host with a
  port stands behind the one for the port alone and never matches; names are resolved (up to the first
  character that is not of a word) only without a port, and then get port 80.\<close>

theorem named_host_goes_to_localhost:
  assumes "regex_search e_ip_port s = None"
  shows "splitaddr dns s = (case regex_search e_port s of
      Some sm \<Rightarrow> bind_res (stoi (sm ! 0)) (\<lambda>port. Inr (Some (''127.0.0.1'', port)))
    | None \<Rightarrow> Inr (map_option (\<lambda>sm. (dns (sm ! 0), 80)) (regex_search e_url s)))"
  using assms url_port_has_port [of s] by (simp add: splitaddr_def split: option.splits)

theorem named_host_goes_to_localhost_witness:
  "splitaddr (\<lambda>_. ''93.184.216.34'') ''example.org:8080'' = Inr (Some (''127.0.0.1'', 8080))"
proof -
  have "regex_search e_ip_port ''example.org:8080'' = None" by code_simp
  moreover have "regex_search e_port ''example.org:8080'' = Some [''8080'']" by code_simp
  moreover have "stoi ''8080'' = Inr 8080" by code_simp
  ultimately show ?thesis
    using named_host_goes_to_localhost [of "''example.org:8080''" "\<lambda>_. ''93.184.216.34''"] by simp
qed

subsection \<open>Login urls\<close>

lemma rfirst_plus_all: "a \<noteq> [] \<Longrightarrow> \<forall>c \<in> set a. p c \<Longrightarrow> rfirst (Grp (plus p)) a = Some (length a, [a])"
  using rfirst_Grp [OF rfirst_Rep [of a p "[]" 1 None]] by (simp add: plus_def Suc_le_eq)

lemma takeWhile_prefix: "\<forall>c \<in> set a. p c \<Longrightarrow> length a \<le> length (takeWhile p (a @ t))"
  by (simp add: takeWhile_append2)

text \<open>What follows the password.\<close>

lemma match_at_addr:
  assumes "\<forall>c \<in> set u \<union> set addr. p c" "u \<noteq> []" "addr \<noteq> []" "d \<notin> set addr"
  shows "rfirst (Seq (Grp (plus p)) (Seq (Lit d) (Grp (plus p)))) (u @ d # addr) =
    Some (length u + (1 + length addr), [u, addr])"
proof -
  have "rmatch (Seq (Lit d) (Grp (plus p))) (drop j (u @ d # addr)) = []" if "length u < j" for j
  proof (rule needs_in [of d])
    have "drop j (u @ d # addr) = drop (j - length u - 1) addr"
      using that by (simp add: drop_Cons')
    then show "d \<notin> set (drop j (u @ d # addr))"
      using assms(4) by (metis in_set_dropD)
  qed simp
  moreover have "rfirst (Seq (Lit d) (Grp (plus p))) (d # addr) = Some (1 + length addr, [addr])"
    using rfirst_Seq [OF rfirst_Lit [of d addr]] rfirst_plus_all [of addr p] assms by simp
  ultimately show ?thesis
    using rfirst_longest [of "length u" p "u @ d # addr" "Seq (Lit d) (Grp (plus p))"]
      takeWhile_prefix [of u p "d # addr"] assms
    by (simp add: Suc_le_eq)
qed

lemma login_url_match:
  assumes "\<forall>c \<in> set name \<union> set pw \<union> set addr. non_space c" "name \<noteq> []" "pw \<noteq> []" "addr \<noteq> []"
    and "CHR ''@'' \<notin> set addr" "CHR '':'' \<notin> set pw"
  shows "regex_search e_login_url (name @ CHR '':'' # pw @ CHR ''@'' # addr) = Some [name, pw, addr]"
proof -
  let ?s = "name @ CHR '':'' # pw @ CHR ''@'' # addr"
  let ?t = "Seq (Grp (plus non_space)) (Seq (Lit CHR ''@'') (Grp (plus non_space)))"
  let ?r = "Seq (Lit CHR '':'') ?t"
  have far: "rmatch ?r (drop j ?s) = []" if "length name < j" for j
  proof (rule ccontr)
    assume "rmatch ?r (drop j ?s) \<noteq> []"
    then obtain t where t: "drop j ?s = CHR '':'' # t" and m: "rmatch ?t t \<noteq> []"
      unfolding rmatch_Lit_Seq by blast
    have "CHR ''@'' \<in> set t" using needs_in [of "CHR ''@''" ?t t] m by (auto simp del: rmatch.simps)
    moreover have d: "drop j ?s = drop (j - length name - 1) (pw @ CHR ''@'' # addr)"
      using that by (simp add: drop_Cons')
    moreover define i where "i = j - length name - 1"
    ultimately have i: "drop i (pw @ CHR ''@'' # addr) = CHR '':'' # t" "CHR ''@'' \<in> set t"
      using t by simp_all
    show False
    proof (cases "i < length pw")
      case True
      then have "drop i (pw @ CHR ''@'' # addr) = (pw ! i) # (drop (Suc i) pw @ CHR ''@'' # addr)"
        by (simp add: Cons_nth_drop_Suc [symmetric])
      then have "pw ! i = CHR '':''" using i(1) by simp
      then show False using assms(6) True nth_mem by metis
    next
      case False
      then have "drop i (pw @ CHR ''@'' # addr) = drop (i - length pw) (CHR ''@'' # addr)" by simp
      then have "CHR '':'' # t = drop (i - length pw) (CHR ''@'' # addr)" using i(1) by simp
      then have "set t \<subseteq> set addr"
        by (cases "i - length pw") (auto dest!: arg_cong [of _ _ set] dest: in_set_dropD)
      then show False using i(2) assms(5) by blast
    qed
  qed
  have here: "rfirst ?r (drop (length name) ?s) = Some (1 + (length pw + (1 + length addr)), [pw, addr])"
    using rfirst_Seq [OF rfirst_Lit [of "CHR '':''" "pw @ CHR ''@'' # addr"]]
      match_at_addr [of pw addr non_space "CHR ''@''"] assms
    by simp
  have "rfirst e_login_url ?s = Some (length name + (1 + (length pw + (1 + length addr))), [name, pw, addr])"
    unfolding e_login_url_def
    using rfirst_longest [of "length name" non_space ?s ?r] far here
      takeWhile_prefix [of name non_space "CHR '':'' # pw @ CHR ''@'' # addr"] assms
    by (simp add: Suc_le_eq)
  then show ?thesis by (rule regex_search_here)
qed

lemma no_password_match:
  assumes "CHR '':'' \<notin> set name" "CHR ''@'' \<notin> set addr"
  shows "regex_search e_login_url (name @ CHR ''@'' # addr) = None"
  unfolding regex_search_None e_login_url_def
proof (rule allI, rule rmatch_Seq_Nil)
  fix n k
  let ?t = "Seq (Grp (plus non_space)) (Seq (Lit CHR ''@'') (Grp (plus non_space)))"
  show "rmatch (Seq (Lit CHR '':'') ?t) (drop k (drop n (name @ CHR ''@'' # addr))) = []"
  proof (rule ccontr)
    assume "rmatch (Seq (Lit CHR '':'') ?t) (drop k (drop n (name @ CHR ''@'' # addr))) \<noteq> []"
    then obtain t where t: "drop (k + n) (name @ CHR ''@'' # addr) = CHR '':'' # t" and m: "rmatch ?t t \<noteq> []"
      unfolding rmatch_Lit_Seq drop_drop by blast
    have at: "CHR ''@'' \<in> set t" using needs_in [of "CHR ''@''" ?t t] m by (auto simp del: rmatch.simps)
    show False
    proof (cases "k + n < length name")
      case True
      then have "name ! (k + n) = CHR '':''"
        using t by (simp add: Cons_nth_drop_Suc [symmetric])
      then show False using assms(1) True nth_mem by metis
    next
      case False
      then have "CHR '':'' # t = drop (k + n - length name) (CHR ''@'' # addr)" using t by simp
      then have "set t \<subseteq> set addr"
        by (cases "k + n - length name") (auto dest!: arg_cong [of _ _ set] dest: in_set_dropD)
      then show False using at assms(2) by blast
    qed
  qed
qed

text \<open>A login url \<open>name:password@address\<close> or \<open>name@address\<close>, as the database client is given,
  splits into its parts whenever the parts are not empty, hold no white space, the address holds no
  \<open>@\<close>, and the password (or, without one, the name) no colon. The name may hold
  colons and the password \<open>@\<close>: the last of each that can separate does.\<close>

theorem spliturl_roundtrip:
  assumes ns: "\<forall>y \<in> set name \<union> set addr. non_space y" "name \<noteq> []" "addr \<noteq> []" "CHR ''@'' \<notin> set addr"
    and pw: "case pw of Some p \<Rightarrow> p \<noteq> [] \<and> (\<forall>y \<in> set p. non_space y) \<and> CHR '':'' \<notin> set p
       | None \<Rightarrow> CHR '':'' \<notin> set name"
  shows "spliturl (name @ (case pw of Some p \<Rightarrow> '':'' @ p | None \<Rightarrow> []) @ ''@'' @ addr) =
    Some (name, pw, addr)"
proof (cases pw)
  case None
  then have "regex_search e_login_url2 (name @ CHR ''@'' # addr) = Some [name, addr]"
    unfolding e_login_url2_def using match_at_addr [of name addr non_space] ns by (blast intro: regex_search_here)
  then show ?thesis using None pw no_password_match [of name addr] ns by (simp add: spliturl_def)
next
  case (Some p)
  have "regex_search e_login_url (name @ CHR '':'' # p @ CHR ''@'' # addr) = Some [name, p, addr]"
    using pw ns Some by (intro login_url_match) auto
  then show ?thesis using Some by (simp add: spliturl_def)
qed

theorem spliturl_roundtrip_witness:
  "spliturl (''root'' @ (case Some ''p@ss'' of Some p \<Rightarrow> '':'' @ p | None \<Rightarrow> []) @ ''@'' @ ''10.0.0.1:3306'') =
    Some (''root'', Some ''p@ss'', ''10.0.0.1:3306'')"
  using spliturl_roundtrip [of "''root''" "''10.0.0.1:3306''" "Some ''p@ss''"] by (simp add: non_space_def)

end
