(* ===== verification/System.thy ===== *)
theory System
  imports Addr AsyncLoop Support
begin

text \<open>
  \<^verbatim>\<open>src/src/mysys.cpp\<close> and \<^verbatim>\<open>log.cpp\<close>: splitting text at a pattern, the threads of a program and
  how they are stopped, the level of the log. Patterns are the expressions of \<open>Addr\<close>; the walk of a
  \<^verbatim>\<open>std::sregex_token_iterator\<close> over the text between the matches is written out, as its empty matches
  and its last token need care.
\<close>

subsection \<open>splite\<close>

text \<open>The first match in \<open>s\<close>: how many characters before it, and its length.\<close>

fun rsearch :: "rx \<Rightarrow> string \<Rightarrow> (nat \<times> nat) option" where
  "rsearch r s =
     (case rmatch r s of
        m # _ \<Rightarrow> Some (0, fst m)
      | [] \<Rightarrow> (case s of [] \<Rightarrow> None | x # t \<Rightarrow> map_option (\<lambda>(k, n). (k + 1, n)) (rsearch r t)))"

declare rsearch.simps [simp del]

text \<open>\<^verbatim>\<open>std::sregex_iterator\<close> from the end of the match before: after an empty match a match here
  that is not empty, else one further on.\<close>

definition next_match :: "rx \<Rightarrow> bool \<Rightarrow> string \<Rightarrow> (nat \<times> nat) option" where
  "next_match r was_empty s =
     (if was_empty then
        (case s of
           [] \<Rightarrow> None
         | x # t \<Rightarrow> (case filter (\<lambda>m. 0 < fst m) (rmatch r s) of
             m # _ \<Rightarrow> Some (0, fst m)
           | [] \<Rightarrow> map_option (\<lambda>(k, n). (k + 1, n)) (rsearch r t)))
      else rsearch r s)"

lemma rmatch_length: "(n, cs) \<in> set (rmatch r s) \<Longrightarrow> n \<le> length s"
proof (induction r arbitrary: n cs s)
  case (Rep p lo hi)
  have "length (takeWhile p s) \<le> length s" by (rule length_takeWhile_le)
  then show ?case using Rep by (auto simp: Let_def split: option.splits)
next
  case (Seq a b)
  then obtain i ds j es where "(i, ds) \<in> set (rmatch a s)" "(j, es) \<in> set (rmatch b (drop i s))" "n = i + j" by auto
  then show ?case using Seq.IH(1) [of i ds s] Seq.IH(2) [of j es "drop i s"] by simp
qed (auto split: list.splits)

lemma rsearch_bounds: "rsearch r s = Some (k, n) \<Longrightarrow> k + n \<le> length s \<and> (\<exists>cs. (n, cs) \<in> set (rmatch r (drop k s)))"
proof (induction s arbitrary: k)
  case Nil
  then obtain m ms where m: "rmatch r [] = m # ms" "k = 0" "n = fst m"
    by (subst (asm) rsearch.simps) (auto split: list.splits)
  then have "(n, snd m) \<in> set (rmatch r [])" by simp
  then show ?case using m(2) rmatch_length by fastforce
next
  case (Cons x t)
  show ?case
  proof (cases "rmatch r (x # t)")
    case Nil
    then obtain i where "rsearch r t = Some (i, n)" "k = i + 1"
      using Cons.prems by (subst (asm) rsearch.simps) auto
    then show ?thesis using Cons.IH [of i] by simp
  next
    case (Cons m ms)
    then have "k = 0" "n = fst m" using Cons.prems by (subst (asm) rsearch.simps; simp)+
    moreover have "(fst m, snd m) \<in> set (rmatch r (x # t))" using Cons by simp
    ultimately show ?thesis using rmatch_length [of "fst m" "snd m" r "x # t"] by (metis add_0 drop0)
  qed
qed

lemma next_match_bounds:
  assumes "next_match r b s = Some (k, n)"
  shows "k + n \<le> length s" "b \<Longrightarrow> 0 < k + n"
    and "\<exists>cs. (n, cs) \<in> set (rmatch r (drop k s))"
proof -
  have "k + n \<le> length s \<and> (b \<longrightarrow> 0 < k + n) \<and> (\<exists>cs. (n, cs) \<in> set (rmatch r (drop k s)))"
  proof (cases b)
    case False
    then show ?thesis using assms rsearch_bounds by (simp add: next_match_def)
  next
    case True
    then obtain x t where s: "s = x # t" using assms by (cases s) (simp_all add: next_match_def)
    show ?thesis
    proof (cases "filter (\<lambda>m. 0 < fst m) (rmatch r s)")
      case Nil
      then show ?thesis using assms True s rsearch_bounds [of r t] by (auto simp: next_match_def)
    next
      case (Cons m ms)
      then have "m \<in> set (filter (\<lambda>m. 0 < fst m) (rmatch r s))" by simp
      then have "(fst m, snd m) \<in> set (rmatch r s)" "0 < fst m" by auto
      moreover have "k = 0" "n = fst m" using assms True s Cons by (simp_all add: next_match_def)
      ultimately show ?thesis using True rmatch_length [of "fst m" "snd m" r s]
        by (metis add_0 drop0)
    qed
  qed
  then show "k + n \<le> length s" "b \<Longrightarrow> 0 < k + n" "\<exists>cs. (n, cs) \<in> set (rmatch r (drop k s))" by blast+
qed

text \<open>The token iterator with submatch \<open>-1\<close>: what lies before each match, and at the end the rest, unless
  it is empty and there was a match.\<close>

function tokens :: "rx \<Rightarrow> bool \<Rightarrow> bool \<Rightarrow> string \<Rightarrow> string list" where
  "tokens r first was_empty s =
     (case next_match r was_empty s of
        Some (k, n) \<Rightarrow> take k s # tokens r False (n = 0) (drop (k + n) s)
      | None \<Rightarrow> if first \<or> s \<noteq> [] then [s] else [])"
  by pat_completeness auto
termination
proof (relation "measure (\<lambda>(r, first, b, s). 2 * length s + (if b then 0 else 1))")
  fix r first b s x k n
  assume "next_match r b s = Some x" "(k, n) = x"
  then have "next_match r b s = Some (k, n)" by simp
  from next_match_bounds [OF this]
  show "((r, False, n = 0, drop (k + n) s), r, first, b, s) \<in>
      measure (\<lambda>(r, first, b, s). 2 * length s + (if b then 0 else 1))"
    by auto
qed simp

declare tokens.simps [simp del]

definition splite :: "string \<Rightarrow> rx \<Rightarrow> (string \<Rightarrow> ('s, unit) prog) \<Rightarrow> ('s, unit) prog" where
  "splite m re f = each f (tokens re True False m)"

text \<open>\<^verbatim>\<open>mysys::regex_search\<close>: the variables passed are given the groups, in order; one for which the
  pattern has no group is given the empty text. Without a match they are left alone.\<close>

definition sys_regex_search :: "rx \<Rightarrow> string \<Rightarrow> string list \<Rightarrow> bool \<times> string list" where
  "sys_regex_search re s outs =
     (case regex_search re s of
        None \<Rightarrow> (False, outs)
      | Some sm \<Rightarrow> (True, map (\<lambda>i. if i < length sm then sm ! i else []) [0..<length outs]))"

subsection \<open>What the tokens are\<close>

text \<open>Tokens and the matches between them, put together again.\<close>

fun weave :: "string list \<Rightarrow> string list \<Rightarrow> string" where
  "weave (t # ts) (m # ms) = t @ m @ weave ts ms"
| "weave ts [] = concat ts"
| "weave [] ms = concat ms"

text \<open>Splitting loses nothing: for every pattern and text, empty matches included, the tokens
  \<^verbatim>\<open>splite\<close> hands over and the texts the pattern matched between them are, in order, the text; there is a
  match for each token, or one less.\<close>

theorem splite_partitions:
  "\<exists>ms. weave (tokens re True False m) ms = m \<and> (\<forall>x\<in>set ms. \<exists>s cs. (length x, cs) \<in> set (rmatch re s) \<and> x = take (length x) s) \<and>
    length ms \<le> length (tokens re True False m) \<and> length (tokens re True False m) \<le> length ms + 1"
proof -
  have "\<exists>ms. weave (tokens r b e s) ms = s \<and> (\<forall>x\<in>set ms. \<exists>s cs. (length x, cs) \<in> set (rmatch r s) \<and> x = take (length x) s) \<and>
      length ms \<le> length (tokens r b e s) \<and> length (tokens r b e s) \<le> length ms + 1" for r b e s
  proof (induction r b e s rule: tokens.induct)
    case (1 r b e s)
    show ?case
    proof (cases "next_match r e s")
      case None
      then show ?thesis by (intro exI [of _ "[]"]) (subst (1 2 3) tokens.simps, simp)
    next
      case (Some kn)
      obtain k n where kn: "kn = (k, n)" by (cases kn)
      let ?m = "take n (drop k s)"
      obtain ms where ms: "weave (tokens r False (n = 0) (drop (k + n) s)) ms = drop (k + n) s"
          "\<forall>x\<in>set ms. \<exists>s cs. (length x, cs) \<in> set (rmatch r s) \<and> x = take (length x) s"
          "length ms \<le> length (tokens r False (n = 0) (drop (k + n) s))"
          "length (tokens r False (n = 0) (drop (k + n) s)) \<le> length ms + 1"
        using 1 [OF Some kn [symmetric]] by blast
      note nb = next_match_bounds [OF Some [unfolded kn]]
      have "tokens r b e s = take k s # tokens r False (n = 0) (drop (k + n) s)"
        using Some kn by (subst tokens.simps) simp
      moreover have "take k s @ ?m @ drop (k + n) s = s"
        by (metis append_take_drop_id drop_drop add.commute)
      moreover have "length ?m = n" using nb(1) by simp
      ultimately show ?thesis using ms nb(3) by (intro exI [of _ "?m # ms"]) auto
    qed
  qed
  then show ?thesis by blast
qed

text \<open>One separator character.\<close>

lemma rsearch_char: "c \<notin> set t \<Longrightarrow> rsearch (Lit c) (t @ c # s) = Some (length t, 1)"
  by (induction t) (subst rsearch.simps; auto)+

lemma rsearch_no_char: "c \<notin> set t \<Longrightarrow> rsearch (Lit c) t = None"
  by (induction t) (subst rsearch.simps; auto)+

lemma tokens_fields:
  "\<forall>t\<in>set (x # xs). c \<notin> set t \<Longrightarrow> b \<and> xs = [] \<or> last (x # xs) \<noteq> [] \<Longrightarrow>
     tokens (Lit c) b False (intercalate [c] (x # xs)) = x # xs"
proof (induction xs arbitrary: x b)
  case Nil
  then show ?case by (subst tokens.simps) (auto simp: next_match_def rsearch_no_char)
next
  case (Cons y ys)
  have "next_match (Lit c) False (x @ c # intercalate [c] (y # ys)) = Some (length x, 1)"
    using Cons.prems(1) by (simp add: next_match_def rsearch_char)
  moreover have "tokens (Lit c) False False (intercalate [c] (y # ys)) = y # ys"
    using Cons.prems by (intro Cons.IH) auto
  ultimately show ?case by (subst tokens.simps) simp
qed

text \<open>C39: \<^verbatim>\<open>splite\<close> undoes \<^verbatim>\<open>joint_with\<close>: texts and numbers joined with a separator
  character that occurs in none of them, the last not empty, are handed to the callback again, one by one and in
  order.\<close>

theorem splite_inverts_joint_with:
  assumes "\<forall>x\<in>set (a # as). c \<notin> set (arg_text x)" "arg_text (last (a # as)) \<noteq> []"
  shows "splite (snd (ostring_joint_with [c] a as [])) (Lit c) f = each f (map arg_text (a # as))"
proof -
  have "snd (ostring_joint_with [c] a as []) = fst (ostring_joint_with [c] a as [])"
    by (simp add: ostring_joint_with_def Let_def)
  then have "snd (ostring_joint_with [c] a as []) = intercalate [c] (map arg_text (a # as))"
    by (simp only: joint_with_intercalates append_Nil)
  then show ?thesis
    using tokens_fields [of "arg_text a" "map arg_text as" c True] assms
    by (simp add: splite_def last_map split: if_splits)
qed

theorem splite_inverts_joint_with_witness:
  "splite (snd (ostring_joint_with [CHR '';''] (Text ''a'') [Text [], Number 7] [])) (Lit CHR '';'') (\<lambda>t. modify (\<lambda>l. l @ [t])) =
    each (\<lambda>t. modify (\<lambda>l. l @ [t])) (map arg_text [Text ''a'', Text [], Number 7])"
  by (rule splite_inverts_joint_with) (simp_all add: to_string_def nat_digits.simps digit_char_def)

text \<open>A trailing separator makes no token.\<close>

lemma trailing_separator_is_dropped:
  "tokens (Lit CHR '';'') True False ''a;b;'' = [''a'', ''b'']" "tokens (Lit CHR '';'') True False [] = [[]]"
  by (simp_all add: tokens.simps next_match_def rsearch.simps)

text \<open>The two together as \<^verbatim>\<open>test/main.cpp\<close> uses them, a list of servers split and each taken apart: a
  name with address and port, an address with port, or a port.\<close>

definition e_name_ip_port :: rx where
  "e_name_ip_port = Seq (Grp (plus word_char)) (Seq (Lit CHR ''@'') e_ip_port)"

definition parse_server :: "string \<Rightarrow> string \<times> string \<times> string" where
  "parse_server s =
     (let d = [''gateway'', ''0.0.0.0'', ''0'']
      in case sys_regex_search e_name_ip_port s d of
           (True, v) \<Rightarrow> (v ! 0, v ! 1, v ! 2)
         | (False, _) \<Rightarrow> (case sys_regex_search e_ip_port s [d ! 1, d ! 2] of
             (True, v) \<Rightarrow> (d ! 0, v ! 0, v ! 1)
           | (False, _) \<Rightarrow> (case sys_regex_search e_port s [d ! 2] of (_, v) \<Rightarrow> (d ! 0, d ! 1, v ! 0))))"

lemma test_regex_servers:
  "splite ''lobby@0.0.0.0:9090;:9099'' (Lit CHR '';'') (\<lambda>s. modify (\<lambda>l. l @ [parse_server s])) [] =
    Done () [(''lobby'', ''0.0.0.0'', ''9090''), (''gateway'', ''0.0.0.0'', ''9099'')]"
proof -
  have "tokens (Lit CHR '';'') True False ''lobby@0.0.0.0:9090;:9099'' = [''lobby@0.0.0.0:9090'', '':9099'']"
    by (simp add: tokens.simps next_match_def rsearch.simps)
  moreover have "parse_server ''lobby@0.0.0.0:9090'' = (''lobby'', ''0.0.0.0'', ''9090'')"
    "parse_server '':9099'' = (''gateway'', ''0.0.0.0'', ''9099'')"
    by code_simp+
  ultimately show ?thesis by (simp add: splite_def)
qed

subsection \<open>Threads\<close>

text \<open>What a thread of \<^verbatim>\<open>createthread\<close> runs, and \<^verbatim>\<open>stop\<close> over the loops of all
  threads; \<open>stopper\<close> names its lambda.\<close>

definition createthread :: "'u env \<Rightarrow> ('u net, unit) prog \<Rightarrow> (u64 \<times> u32) list list \<Rightarrow> ('u net, bool) prog" where
  "createthread E callback batches = bnd callback (\<lambda>_. wait E batches)"

definition sys_stop :: "'u env \<Rightarrow> 'u \<Rightarrow> 'u net option list \<Rightarrow> 'u net option list res" where
  "sys_stop E stopper nets = notify_all E stopper nets"

text \<open>The event the eventfd of a loop raises.\<close>

definition eventfd_event :: "'u net \<Rightarrow> u64 \<times> u32" where
  "eventfd_event s = (i_merge (m_eventfd s) (state_code e_state_event), EPOLLIN)"

lemma stop_event:
  assumes "\<not> m_locked s" "m_trigger s = [u]" "usr E u = (\<lambda>fd. stop)" "0 \<le> m_eventfd s" "m_eventfd s < 2 ^ 31"
  shows "\<exists>s'. handle_event E (eventfd_event s) s = Done () s' \<and> m_running s' = 0"
proof -
  have r: "event_fd (i_merge (m_eventfd s) (state_code e_state_event)) = m_eventfd s"
    "event_state (i_merge (m_eventfd s) (state_code e_state_event)) = state_code e_state_event"
    using merge_roundtrip [OF assms(4,5)] state_code_range [of e_state_event] by blast+
  have "handle E (eventfd_event s) s = i_onevent E (m_eventfd s) s"
    unfolding handle_def eventfd_event_def Let_def prod.case r by simp
  moreover obtain s1 where "i_onevent E (m_eventfd s) s = each (\<lambda>u. usr E u (m_eventfd s)) [u] s1"
    using onevent_run [OF assms(1), of E "m_eventfd s"] assms(2) by auto
  ultimately have "handle E (eventfd_event s) s = Done () (s1\<lparr>m_running := 0\<rparr>)"
    using assms(3) by (simp add: stop_def)
  then show ?thesis by (simp add: handle_event_def try_catch_def)
qed

text \<open>C40: \<^verbatim>\<open>mysys::stop\<close> reaches every thread: it returns with its notification queued in each
  loop, and a loop that had nothing else queued leaves \<^verbatim>\<open>wait\<close> at the first event of its eventfd, whatever
  batches would follow.\<close>

theorem stop_ends_every_loop:
  assumes "\<And>s. Some s \<in> set nets \<Longrightarrow> \<not> m_locked s \<and> m_trigger s = [] \<and> 0 \<le> m_eventfd s \<and> m_eventfd s < 2 ^ 31"
    and "usr E stopper = (\<lambda>fd. stop)"
  shows "\<exists>nets'. sys_stop E stopper nets = Inr nets' \<and> length nets' = length nets \<and>
    (\<forall>i < length nets. nets' ! i = None \<longleftrightarrow> nets ! i = None) \<and>
    (\<forall>s. Some s \<in> set nets' \<longrightarrow> (\<exists>s'. wait E ([eventfd_event s] # batches) s = Done True s'))"
  using assms(1)
proof (induction nets)
  case Nil
  then show ?case by (simp add: sys_stop_def)
next
  case (Cons n nets)
  obtain nets' where IH: "notify_all E stopper nets = Inr nets'" "length nets' = length nets"
      "\<forall>i < length nets. nets' ! i = None \<longleftrightarrow> nets ! i = None"
      "\<forall>s. Some s \<in> set nets' \<longrightarrow> (\<exists>s'. wait E ([eventfd_event s] # batches) s = Done True s')"
    using Cons.IH Cons.prems by (auto simp: sys_stop_def)
  show ?case
  proof (cases n)
    case None
    then show ?thesis using IH by (auto simp: sys_stop_def nth_Cons split: nat.splits)
  next
    case (Some s)
    then have s: "\<not> m_locked s" "m_trigger s = []" "0 \<le> m_eventfd s" "m_eventfd s < 2 ^ 31"
      using Cons.prems by auto
    let ?t = "logged E (Eventfd_write (m_eventfd s)) (s\<lparr>m_trigger := [stopper], m_locked := False\<rparr>)"
    have n: "notify E stopper s = Done () ?t"
      using s(1,2) by (simp add: notify_def with_lock_def sys_logged bnd_def)
    obtain t' where "handle_event E (eventfd_event ?t) ?t = Done () t'" "m_running t' = 0"
      using stop_event [of ?t stopper E] s(3,4) assms(2) by auto
    then have "wait E ([eventfd_event ?t] # batches) ?t = Done True t'"
      by (simp add: i_wait_def)
    then show ?thesis using Some n IH by (auto simp: sys_stop_def nth_Cons split: nat.splits)
  qed
qed

theorem stop_ends_every_loop_witness:
  "\<exists>nets'. sys_stop ((test_env True (\<lambda>_. False) (\<lambda>n. n))\<lparr>usr := (\<lambda>u fd. stop)\<rparr>) () [None, Some (net_initial [])] = Inr nets' \<and>
    length nets' = length [None, Some (net_initial [] :: unit net)] \<and>
    (\<forall>i < length [None, Some (net_initial [] :: unit net)].
      nets' ! i = None \<longleftrightarrow> [None, Some (net_initial [] :: unit net)] ! i = None) \<and>
    (\<forall>s. Some s \<in> set nets' \<longrightarrow> (\<exists>s'. wait ((test_env True (\<lambda>_. False) (\<lambda>n. n))\<lparr>usr := (\<lambda>u fd. stop)\<rparr>)
       ([eventfd_event s] # []) s = Done True s'))"
  by (rule stop_ends_every_loop) (auto simp: net_initial_def)

subsection \<open>Log levels\<close>

datatype e_log_level = e_log_level_core | e_log_level_debug | e_log_level_error | e_log_level_info | e_log_level_fatal

fun level_code :: "e_log_level \<Rightarrow> int" where
  "level_code e_log_level_core = 0"
| "level_code e_log_level_debug = 1"
| "level_code e_log_level_error = 2"
| "level_code e_log_level_info = 3"
| "level_code e_log_level_fatal = 4"

definition log_level :: "int \<Rightarrow> e_log_level \<Rightarrow> bool" where
  "log_level g_log_level l \<longleftrightarrow> g_log_level \<le> level_code l"

text \<open>The order the enumeration gives the levels; a message is printed when it is at least the level set.\<close>

lemma level_code_inject: "level_code a = level_code b \<longleftrightarrow> a = b"
  by (cases a; cases b) simp_all

instantiation e_log_level :: linorder
begin

definition less_eq_e_log_level :: "e_log_level \<Rightarrow> e_log_level \<Rightarrow> bool" where
  "less_eq_e_log_level a b \<longleftrightarrow> level_code a \<le> level_code b"

definition less_e_log_level :: "e_log_level \<Rightarrow> e_log_level \<Rightarrow> bool" where
  "less_e_log_level a b \<longleftrightarrow> level_code a < level_code b"

instance
  by standard (auto simp: less_eq_e_log_level_def less_e_log_level_def level_code_inject)

end

lemma log_level_order: "log_level (level_code a) b \<longleftrightarrow> a \<le> b"
  by (simp add: log_level_def less_eq_e_log_level_def)

text \<open>Errors stand below infos: a program that asks for the level of infos sees no errors.\<close>

lemma info_level_hides_errors:
  "log_level (level_code e_log_level_info) e_log_level_info \<and> \<not> log_level (level_code e_log_level_info) e_log_level_error"
  unfolding log_level_order by (simp add: less_eq_e_log_level_def)

subsection \<open>The process\<close>

text \<open>\<^verbatim>\<open>LOG_\<close> prints a line when its level is at least the one set; \<open>pr_exit\<close> is the status the process has
  ended with. The answers of the system are arguments.\<close>

record 'w process =
  g_log_level :: int
  pr_lines :: "(e_log_level \<times> string) list"
  pr_ignored :: "int list"
  pr_exit :: "int option"
  pr_world :: 'w

record sys_answers =
  c_sigemptyset :: int
  c_sigaction :: "int \<Rightarrow> int"
  c_fork :: int

definition process_new :: "'w \<Rightarrow> 'w process" where
  "process_new w = \<lparr>g_log_level = level_code e_log_level_debug, pr_lines = [], pr_ignored = [], pr_exit = None, pr_world = w\<rparr>"

definition log_line :: "e_log_level \<Rightarrow> string \<Rightarrow> ('w process, unit) prog" where
  "log_line l text = modify (\<lambda>p. if log_level (g_log_level p) l then p\<lparr>pr_lines := pr_lines p @ [(l, text)]\<rparr> else p)"

definition set_log_level :: "int \<Rightarrow> ('w process, unit) prog" where
  "set_log_level n = modify (\<lambda>p. p\<lparr>g_log_level := n\<rparr>)"

definition ignore_signal :: "sys_answers \<Rightarrow> int \<Rightarrow> ('w process, unit) prog" where
  "ignore_signal K sig = modify (\<lambda>p.
     if c_sigemptyset K = -1 \<or> c_sigaction K sig = -1 then p\<lparr>pr_exit := Some 1\<rparr>
     else p\<lparr>pr_ignored := sig # pr_ignored p\<rparr>)"

definition SIGPIPE :: int where "SIGPIPE = 13"

definition ignore_sigpipe :: "sys_answers \<Rightarrow> ('w process, unit) prog" where
  "ignore_sigpipe K = ignore_signal K SIGPIPE"

definition sys_fork :: "sys_answers \<Rightarrow> ('w process, unit) prog \<Rightarrow> ('w process, unit) prog \<Rightarrow> ('w process, unit) prog" where
  "sys_fork K main_cb child_cb =
     (if c_fork K < 0 then log_line e_log_level_error ''fork error''
      else if c_fork K = 0 then bnd (log_line e_log_level_debug ''start child process'') (\<lambda>_. child_cb)
      else bnd (log_line e_log_level_debug ''start main process'') (\<lambda>_. main_cb))"

text \<open>Each of the two processes runs its own callback and not the other's, and a fork that fails runs none, which
  shows in the log alone, if the level lets errors through.\<close>

lemma fork_runs_one_side:
  "c_fork K = 0 \<Longrightarrow> sys_fork K m c (process_new w) =
     c ((process_new w)\<lparr>pr_lines := [(e_log_level_debug, ''start child process'')]\<rparr>)"
  "0 < c_fork K \<Longrightarrow> sys_fork K m c (process_new w) =
     m ((process_new w)\<lparr>pr_lines := [(e_log_level_debug, ''start main process'')]\<rparr>)"
  "c_fork K < 0 \<Longrightarrow> bnd (set_log_level n) (\<lambda>_. sys_fork K m c) (process_new w) = Done () ((process_new w)\<lparr>g_log_level := n,
     pr_lines := (if n \<le> 2 then [(e_log_level_error, ''fork error'')] else [])\<rparr>)"
  by (simp_all add: sys_fork_def log_line_def process_new_def log_level_def set_log_level_def bnd_def)

end
