(* ===== verification/Kafka.thy ===== *)
theory Kafka
  imports Addr Registry "HOL-Library.List_Lexorder" "HOL-Library.Char_ord"
begin

text \<open>
  \<^verbatim>\<open>src/src/kafka\<close>: the base of the two clients, the producer and the consumer. librdkafka is
  a parameter: what a call answers is a function of the calls made so far. A pointer is \<open>None\<close> when
  null; handing a null pointer to a call that works on it is \<open>Ub\<close>.
\<close>

subsection \<open>The library and the state\<close>

datatype rd_call =
    Conf_new
  | Conf_set nat string string
  | Conf_set_log_cb nat
  | Conf_destroy nat
  | Rd_new nat
  | Rd_destroy nat
  | Topic_new nat string
  | Topic_destroy nat
  | Rd_poll nat
  | Rd_consume nat int int
  | Message_destroy
  | Consume_stop nat int
  | Rd_produce nat int "string option" string

text \<open>A message: \<^verbatim>\<open>err\<close>, and its fields.\<close>

record message =
  m_err :: int
  m_offset :: int
  m_key :: string
  m_payload :: string
  m_errstr :: string

record rd_answer =
  pointer :: "nat option"
  code :: int
  msg :: "message option"

type_synonym rd_lib = "rd_call list \<Rightarrow> rd_call \<Rightarrow> rd_answer"

record kafka =
  m_brokers :: string
  m_ip :: string
  m_port :: int
  m_timeout :: int
  m_conf :: "nat option"
  m_kafka :: "nat option"
  topics :: "(string \<times> nat option) list"
  m_state :: int
  m_topic :: "nat option"
  calls :: "rd_call list"

definition kafka_initial :: kafka where
  "kafka_initial = \<lparr>m_brokers = [], m_ip = [], m_port = 0, m_timeout = 100, m_conf = None, m_kafka = None,
     topics = [], m_state = 1, m_topic = None, calls = []\<rparr>"

definition rd :: "rd_lib \<Rightarrow> rd_call \<Rightarrow> (kafka, rd_answer) prog" where
  "rd L c = (\<lambda>s. Done (L (calls s) c) (s\<lparr>calls := calls s @ [c]\<rparr>))"

definition with_ptr :: "nat option \<Rightarrow> (nat \<Rightarrow> (kafka, 'a) prog) \<Rightarrow> (kafka, 'a) prog" where
  "with_ptr p f = (case p of None \<Rightarrow> stuck Ub | Some x \<Rightarrow> f x)"

subsection \<open>kafkabase\<close>

definition kafka_init :: "bool \<Rightarrow> rd_lib \<Rightarrow> (kafka, unit) prog" where
  "kafka_init nd L =
     bnd (gets m_conf) (\<lambda>c.
       bnd (assertion nd (c = None)) (\<lambda>_.
         bnd (rd L Conf_new) (\<lambda>a.
           bnd (modify (\<lambda>s. s\<lparr>m_conf := pointer a\<rparr>)) (\<lambda>_.
             if pointer a \<noteq> None then skip
             else with_ptr (pointer a) (\<lambda>conf.
               bnd (gets m_brokers) (\<lambda>b.
                 bnd (rd L (Conf_set conf ''bootstrap.servers'' b)) (\<lambda>r.
                   if code r \<noteq> 0 then skip
                   else bnd (rd L (Conf_set_log_cb conf)) (\<lambda>_.
                     bnd (rd L (Rd_new conf)) (\<lambda>k.
                       modify (\<lambda>s. s\<lparr>m_kafka := pointer k\<rparr>))))))))))"

definition kafka_clear :: "rd_lib \<Rightarrow> (kafka, unit) prog" where
  "kafka_clear L =
     bnd (gets m_conf) (\<lambda>c.
       bnd (case c of None \<Rightarrow> skip
            | Some x \<Rightarrow> bnd (rd L (Conf_destroy x)) (\<lambda>_. modify (\<lambda>s. s\<lparr>m_conf := None\<rparr>))) (\<lambda>_.
         bnd (gets m_kafka) (\<lambda>k.
           case k of None \<Rightarrow> skip
           | Some x \<Rightarrow> bnd (rd L (Rd_destroy x)) (\<lambda>_. modify (\<lambda>s. s\<lparr>m_kafka := None\<rparr>)))))"

definition destroy_topic :: "rd_lib \<Rightarrow> nat option \<Rightarrow> (kafka, unit) prog" where
  "destroy_topic L t = (case t of None \<Rightarrow> skip | Some x \<Rightarrow> bnd (rd L (Topic_destroy x)) (\<lambda>_. skip))"

definition init_topic :: "rd_lib \<Rightarrow> string \<Rightarrow> (kafka, nat option) prog" where
  "init_topic L topic =
     bnd (gets m_kafka) (\<lambda>k. with_ptr k (\<lambda>k. bnd (rd L (Topic_new k topic)) (\<lambda>a. ret (pointer a))))"

text \<open>The constructors of both clients: an address that splits is kept and the library set up, any other
  is only kept as the brokers.\<close>

definition kafka_construct :: "bool \<Rightarrow> rd_lib \<Rightarrow> (string \<Rightarrow> string) \<Rightarrow> string \<Rightarrow> (kafka, unit) prog" where
  "kafka_construct nd L dns addr =
     (case splitaddr dns addr of
        Inl e \<Rightarrow> throw
      | Inr (Some (ip, port)) \<Rightarrow>
          bnd (modify (\<lambda>s. s\<lparr>m_ip := ip, m_port := port\<rparr>)) (\<lambda>_. kafka_init nd L)
      | Inr None \<Rightarrow> modify (\<lambda>s. s\<lparr>m_brokers := addr\<rparr>))"

subsection \<open>kafkaproduce\<close>

definition produce_topic :: "rd_lib \<Rightarrow> string \<Rightarrow> (kafka, nat option) prog" where
  "produce_topic L topic =
     bnd (gets (\<lambda>s. map_of (topics s) topic)) (\<lambda>f.
       case f of
         Some t \<Rightarrow> ret t
       | None \<Rightarrow> bnd (init_topic L topic) (\<lambda>t.
           bnd (modify (\<lambda>s. s\<lparr>topics := omap_emplace topic t (topics s)\<rparr>)) (\<lambda>_. ret t)))"

definition push_with :: "rd_lib \<Rightarrow> string \<Rightarrow> int \<Rightarrow> string option \<Rightarrow> string \<Rightarrow> (kafka, int) prog" where
  "push_with L topic prt key m =
     bnd (produce_topic L topic) (\<lambda>t.
       case t of
         Some x \<Rightarrow> bnd (rd L (Rd_produce x prt key m)) (\<lambda>a. ret (code a))
       | None \<Rightarrow> ret INVALID)"

definition push :: "rd_lib \<Rightarrow> string \<Rightarrow> string \<Rightarrow> (kafka, int) prog" where
  "push L topic m = push_with L topic 0 None m"

definition push_key :: "rd_lib \<Rightarrow> string \<Rightarrow> string \<Rightarrow> string \<Rightarrow> (kafka, int) prog" where
  "push_key L topic key m = push_with L topic 0 (Some key) m"

definition push_partition_key :: "rd_lib \<Rightarrow> string \<Rightarrow> int \<Rightarrow> string \<Rightarrow> string \<Rightarrow> (kafka, int) prog" where
  "push_partition_key L topic prt key m = push_with L topic prt (Some key) m"

definition push_partition :: "rd_lib \<Rightarrow> string \<Rightarrow> int \<Rightarrow> string \<Rightarrow> (kafka, int) prog" where
  "push_partition L topic prt m = push_with L topic prt None m"

definition produce_destroy :: "rd_lib \<Rightarrow> (kafka, unit) prog" where
  "produce_destroy L =
     bnd (kafka_clear L) (\<lambda>_. bnd (gets topics) (each (\<lambda>(k, t). destroy_topic L t)))"

subsection \<open>kafkaconsume\<close>

text \<open>\<^verbatim>\<open>kfk_results\<close>, and the callback as a program over the same state (it may call
  \<^verbatim>\<open>stop\<close>). \<^verbatim>\<open>last_error\<close> is \<^verbatim>\<open>rd_kafka_last_error\<close>, which is the number \<open>lerr\<close>.\<close>

record kfk_results =
  k_error :: int
  k_msg :: "string option"
  k_offset :: int
  k_key :: "string option"
  k_payload :: "string option"

definition consume_one :: "rd_lib \<Rightarrow> int \<Rightarrow> (kfk_results \<Rightarrow> (kafka, unit) prog) \<Rightarrow> message \<Rightarrow> (kafka, unit) prog" where
  "consume_one L lerr cb m =
     bnd (if m_err m \<noteq> 0
          then cb \<lparr>k_error = lerr, k_msg = Some (m_errstr m), k_offset = m_offset m, k_key = None, k_payload = None\<rparr>
          else cb \<lparr>k_error = 0, k_msg = None, k_offset = m_offset m, k_key = Some (m_key m),
                   k_payload = Some (m_payload m)\<rparr>)
       (\<lambda>_. bnd (rd L Message_destroy) (\<lambda>_. skip))"

text \<open>The loop of \<^verbatim>\<open>pull\<close> for \<open>n\<close> rounds at most: the answer says whether it has come to an
  end.\<close>

fun pull_loop :: "rd_lib \<Rightarrow> int \<Rightarrow> (kfk_results \<Rightarrow> (kafka, unit) prog) \<Rightarrow> nat \<Rightarrow> int \<Rightarrow> nat \<Rightarrow> (kafka, bool) prog" where
  "pull_loop L lerr cb topic prt 0 = bnd (gets m_state) (\<lambda>st. ret (st \<noteq> 1))"
| "pull_loop L lerr cb topic prt (Suc n) =
     bnd (gets m_state) (\<lambda>st.
       if st \<noteq> 1 then ret True
       else bnd (gets m_kafka) (\<lambda>k. with_ptr k (\<lambda>k.
         bnd (rd L (Rd_poll k)) (\<lambda>_.
           bnd (gets m_timeout) (\<lambda>t.
             bnd (rd L (Rd_consume topic prt t)) (\<lambda>a.
               case msg a of
                 None \<Rightarrow> stuck Ub
               | Some m \<Rightarrow> bnd (consume_one L lerr cb m) (\<lambda>_. pull_loop L lerr cb topic prt n)))))))"

definition pull :: "rd_lib \<Rightarrow> int \<Rightarrow> (kfk_results \<Rightarrow> (kafka, unit) prog) \<Rightarrow> string \<Rightarrow> int \<Rightarrow> nat \<Rightarrow> (kafka, bool) prog" where
  "pull L lerr cb topic prt n =
     bnd (init_topic L topic) (\<lambda>t.
       bnd (modify (\<lambda>s. s\<lparr>m_topic := t\<rparr>)) (\<lambda>_.
         case t of
           None \<Rightarrow> ret True
         | Some x \<Rightarrow> bnd (pull_loop L lerr cb x prt n) (\<lambda>ended.
             if ended
             then bnd (rd L (Consume_stop x prt)) (\<lambda>_.
                    bnd (modify (\<lambda>s. s\<lparr>m_topic := None\<rparr>)) (\<lambda>_. ret True))
             else ret False)))"

definition consume_stop :: "(kafka, unit) prog" where
  "consume_stop = modify (\<lambda>s. s\<lparr>m_state := 0\<rparr>)"

definition consume_destroy :: "rd_lib \<Rightarrow> (kafka, unit) prog" where
  "consume_destroy L = bnd (kafka_clear L) (\<lambda>_. bnd (gets m_topic) (destroy_topic L))"

subsection \<open>No client gets a handle\<close>

lemma init_no_handle:
  assumes "kafka_init nd L s = Done () s'" "m_kafka s = None"
  shows "m_kafka s' = None \<and> topics s' = topics s"
  using assms
  by (auto simp: kafka_init_def bnd_def assertion_def rd_def with_ptr_def split: if_splits option.splits exec.splits)

text \<open>The check of the configuration object is inverted: whatever the address and whatever the library
  answers, a constructed client has no Kafka handle, so its first push, or its first pull, hands
  the library a null pointer.\<close>

theorem kafka_never_connects:
  assumes "kafka_construct nd L dns addr kafka_initial = Done () s"
  shows "m_kafka s = None \<and> push_with L topic prt key m s = Stuck Ub \<and>
    pull L lerr cb topic prt n s = Stuck Ub"
proof -
  have "m_kafka s = None \<and> topics s = []"
    using assms init_no_handle [of nd L]
    by (fastforce simp: kafka_construct_def kafka_initial_def bnd_def split: sum.splits option.splits prod.splits)
  then show ?thesis
    by (simp add: push_with_def produce_topic_def pull_def init_topic_def with_ptr_def bnd_def)
qed

theorem kafka_never_connects_witness:
  "\<exists>s. kafka_construct True (\<lambda>cs c. \<lparr>pointer = Some (length cs), code = 0, msg = None\<rparr>) (\<lambda>_. []) ''127.0.0.1:9092''
       kafka_initial = Done () s \<and>
     push_with (\<lambda>cs c. \<lparr>pointer = Some (length cs), code = 0, msg = None\<rparr>) ''t'' 0 None ''m'' s = Stuck Ub"
proof -
  let ?L = "\<lambda>cs (c :: rd_call). \<lparr>pointer = Some (length cs), code = 0, msg = None :: message option\<rparr>"
  have "splitaddr (\<lambda>_. []) ''127.0.0.1:9092'' = Inr (Some (''127.0.0.1'', 9092))" by code_simp
  then have "\<exists>s. kafka_construct True ?L (\<lambda>_. []) ''127.0.0.1:9092'' kafka_initial = Done () s"
    by (simp add: kafka_construct_def kafka_init_def rd_def bnd_def)
  then show ?thesis using kafka_never_connects [of True ?L "\<lambda>_. []" "''127.0.0.1:9092''" _ "''t''" 0 None "''m''"] by blast
qed

text \<open>\<^verbatim>\<open>rd_kafka_consume\<close> answers a null pointer when nothing arrives within the timeout (100 ms);
  \<^verbatim>\<open>pull\<close> reads \<^verbatim>\<open>_msg->err\<close> of it.\<close>

theorem idle_pull_is_ub:
  assumes "m_state s = 1" "m_kafka s = Some k"
    and "\<And>cs. msg (L cs (Rd_consume topic prt (m_timeout s))) = None"
  shows "pull_loop L lerr cb topic prt (Suc n) s = Stuck Ub"
  using assms by (simp add: bnd_def with_ptr_def rd_def)

theorem idle_pull_is_ub_witness:
  "pull_loop (\<lambda>cs c. \<lparr>pointer = Some 1, code = 0, msg = None\<rparr>) 0 (\<lambda>r. skip) 3 0 (Suc 9)
     (kafka_initial\<lparr>m_kafka := Some 2\<rparr>) = Stuck Ub"
  by (rule idle_pull_is_ub [where k = 2]) (simp_all add: kafka_initial_def)

subsection \<open>Topics are created once\<close>

definition created :: "string \<Rightarrow> kafka \<Rightarrow> nat" where
  "created t s = length (filter (\<lambda>c. case c of Topic_new k u \<Rightarrow> u = t | _ \<Rightarrow> False) (calls s))"

definition cached :: "kafka \<Rightarrow> bool" where
  "cached s \<longleftrightarrow> omap_ok (topics s) \<and> (\<forall>t. created t s = (if map_of (topics s) t = None then 0 else 1))"

lemma push_cached: "preserves cached (push_with L topic prt key m)"
  by (auto simp: preserves_def push_with_def produce_topic_def init_topic_def with_ptr_def rd_def bnd_def
      cached_def created_def map_of_emplace omap_ok_emplace emplace_map_apply split: option.splits exec.splits)

text \<open>A producer asks the library for each topic once: after any pushes that come to an end, the
  library has been asked exactly once for every topic pushed to, also when it refused it (the null
  pointer is kept and every later push to the topic answers \<open>-1\<close>).\<close>

theorem topics_created_once:
  assumes "each (\<lambda>(t, p, k, m). bnd (push_with L t p k m) (\<lambda>_. skip)) ps s = Done () s'"
    and "topics s = []" "calls s = []"
  shows "created t s' = (if map_of (topics s') t = None then 0 else 1)"
proof -
  have "preserves cached (each (\<lambda>(t, p, k, m). bnd (push_with L t p k m) (\<lambda>_. skip)) ps)"
    by (intro preserves_each) (auto simp: split_beta intro!: preserves_bnd push_cached preserves_basic)
  moreover have "cached s" using assms(2,3) by (simp add: cached_def created_def omap_ok_Nil)
  ultimately have "cached s'" using assms(1) by (rule preserves_Done)
  then show ?thesis by (simp add: cached_def)
qed

theorem topics_created_once_witness:
  "\<exists>s'. each (\<lambda>(t, p, k, m). bnd (push_with (\<lambda>cs c. \<lparr>pointer = None, code = 0, msg = None\<rparr>) t p k m) (\<lambda>_. skip))
     [(''a'', 0, None, ''x''), (''a'', 0, None, ''y'')] (kafka_initial\<lparr>m_kafka := Some 1\<rparr>) = Done () s' \<and>
     created ''a'' s' = 1"
proof -
  let ?p = "each (\<lambda>(t, p, k, m). bnd (push_with (\<lambda>cs c. \<lparr>pointer = None, code = 0, msg = None\<rparr>) t p k m) (\<lambda>_. skip))
     [(''a'', 0, None, ''x''), (''a'', 0, None, ''y'')]"
  obtain s' where s: "?p (kafka_initial\<lparr>m_kafka := Some 1\<rparr>) = Done () s'" "map_of (topics s') ''a'' = Some None"
    by (simp add: push_with_def produce_topic_def init_topic_def with_ptr_def rd_def bnd_def kafka_initial_def)
  then show ?thesis using topics_created_once [OF s(1), of "''a''"] by (simp add: kafka_initial_def)
qed

end
