(* ===== verification/Redis.thy ===== *)
theory Redis
  imports Addr
begin

text \<open>
  \<^verbatim>\<open>src/src/redis/rediscli.cpp\<close>: the client of a Redis server, which reconnects and has one
  command of its queue in flight. hiredis is a parameter: the callbacks it makes are the steps
  \<open>stim\<close>, the sockets it opens the function \<open>socks\<close> of the connection's number, and of what it keeps
  only the number of commands without a reply and whether it is closing the connection (a command is
  then refused). Calls of the event loop are in the trace. The public operation a callback has is
  \<^verbatim>\<open>query\<close>, so a callback is what it queries and whether it throws in the end.
\<close>

subsection \<open>State\<close>

datatype e_clistate = e_clistate_closed | e_clistate_connecting | e_clistate_connected

datatype reply = Reply_string string | Reply_array "reply list" | Reply_nil | Reply_error string
  | Reply_status string | Reply_integer int | Reply_other int

record rds_results =
  rr_error :: int
  rr_msg :: "string option"
  rr_num_rows :: int
  rr_query :: string
  rr_str :: "string option"
  rr_rows :: "reply list"

record 'c redisquery =
  rq_query :: string
  rq_callback :: "'c option"
  rq_tstamp :: int

datatype 'c revent = Command string | Mod_event int STATE u32 | Add_event int | Set_client int
  | Clientclosed_already int | Set_timer int | Set_callbacks | Free_context
  | Submitted "'c option" | Answered "'c option" rds_results

record 'c redis =
  r_list :: "'c redisquery list"
  r_ip :: string
  r_port :: int
  r_fd :: int
  r_state :: e_clistate
  r_events :: u32
  r_timer :: int
  r_timeout :: int
  r_context :: "nat option"
  r_now :: int
  r_contexts :: nat
  r_pending :: nat
  r_closing :: bool
  r_trace :: "'c revent list"

type_synonym 'c rcallbacks = "'c \<Rightarrow> rds_results \<Rightarrow> (string \<times> 'c option) list \<times> bool"

definition redis_initial :: "'c redis" where
  "redis_initial = \<lparr>r_list = [], r_ip = ''127.0.0.1'', r_port = 6379, r_fd = INVALID, r_state = e_clistate_closed,
     r_events = 0, r_timer = INVALID, r_timeout = 1000, r_context = None, r_now = 0, r_contexts = 0,
     r_pending = 0, r_closing = False, r_trace = []\<rparr>"

definition MAX_RETRY_TIMEOUT :: int where "MAX_RETRY_TIMEOUT = 15 * 1000"

definition remit :: "'c revent \<Rightarrow> ('c redis, unit) prog" where
  "remit e = modify (\<lambda>s. s\<lparr>r_trace := r_trace s @ [e]\<rparr>)"

definition redis_valid :: "'c redis \<Rightarrow> bool" where
  "redis_valid s \<longleftrightarrow> r_state s = e_clistate_connected"

subsection \<open>Interest in events\<close>

definition mod_events :: "(u32 \<Rightarrow> u32) \<Rightarrow> ('c redis \<Rightarrow> STATE) \<Rightarrow> ('c redis, unit) prog" where
  "mod_events f st =
     bnd (modify (\<lambda>s. s\<lparr>r_events := f (r_events s)\<rparr>)) (\<lambda>_.
       bnd (gets (\<lambda>s. Mod_event (r_fd s) (st s) (r_events s))) remit)"

definition addread :: "('c redis, unit) prog" where
  "addread = mod_events (\<lambda>e. e OR EPOLLIN) (\<lambda>_. e_state_client_ex)"

definition delread :: "('c redis, unit) prog" where
  "delread = mod_events (\<lambda>e. e AND NOT EPOLLIN) (\<lambda>_. e_state_client_ex)"

definition ex_state :: "'c redis \<Rightarrow> STATE" where
  "ex_state s = (if r_state s = e_clistate_connected then e_state_client_ex else e_state_connect_ex)"

definition addwrite :: "('c redis, unit) prog" where
  "addwrite = mod_events (\<lambda>e. e OR EPOLLOUT) ex_state"

definition delwrite :: "('c redis, unit) prog" where
  "delwrite = mod_events (\<lambda>e. e AND NOT EPOLLOUT) ex_state"

definition redis_clear :: "('c redis, unit) prog" where
  "redis_clear =
     bnd (modify (\<lambda>s. s\<lparr>r_state := e_clistate_closed, r_context := None, r_events := 0\<rparr>)) (\<lambda>_.
       bnd (gets r_fd) (\<lambda>fd.
         if fd = INVALID then skip
         else bnd (remit (Clientclosed_already fd)) (\<lambda>_. modify (\<lambda>s. s\<lparr>r_fd := INVALID\<rparr>))))"

definition clearup :: "('c redis, unit) prog" where
  "clearup = redis_clear"

subsection \<open>Queries and replies\<close>

text \<open>\<^verbatim>\<open>redisAsyncCommand\<close> on the query's text.\<close>

definition redis_onquery :: "('c redis, unit) prog" where
  "redis_onquery =
     bnd (gets (\<lambda>s. (r_list s, r_context s))) (\<lambda>(l, c).
       case l of
         [] \<Rightarrow> skip
       | q # _ \<Rightarrow>
           if c = None then skip
           else bnd (remit (Command (rq_query q))) (\<lambda>_.
             modify (\<lambda>s. if r_closing s then s else s\<lparr>r_pending := r_pending s + 1\<rparr>)))"

definition redis_query :: "string \<Rightarrow> 'c option \<Rightarrow> ('c redis, unit) prog" where
  "redis_query q cb =
     bnd (modify (\<lambda>s. s\<lparr>r_list := r_list s @ [\<lparr>rq_query = q, rq_callback = cb, rq_tstamp = r_now s\<rparr>],
                        r_trace := r_trace s @ [Submitted cb]\<rparr>)) (\<lambda>_.
       bnd (gets (\<lambda>s. length (r_list s) = 1 \<and> r_state s = e_clistate_connected)) (\<lambda>b.
         if b then redis_onquery else skip))"

definition run_callback :: "'c rcallbacks \<Rightarrow> 'c option \<Rightarrow> rds_results \<Rightarrow> ('c redis, unit) prog" where
  "run_callback cbs cb r =
     (case cb of
        None \<Rightarrow> skip
      | Some c \<Rightarrow> bnd (each (\<lambda>(q, cb). redis_query q cb) (fst (cbs c r)))
                    (\<lambda>_. if snd (cbs c r) then throw else skip))"

definition rds_empty :: rds_results where
  "rds_empty = \<lparr>rr_error = 0, rr_msg = None, rr_num_rows = 0, rr_query = [], rr_str = None, rr_rows = []\<rparr>"

definition results_of :: "bool \<Rightarrow> reply option \<Rightarrow> ('c redis, rds_results) prog" where
  "results_of nd rep =
     (case rep of
        None \<Rightarrow> ret (rds_empty\<lparr>rr_error := INVALID, rr_msg := Some ''closed''\<rparr>)
      | Some (Reply_string t) \<Rightarrow> ret (rds_empty\<lparr>rr_str := Some t\<rparr>)
      | Some (Reply_array rs) \<Rightarrow> ret (rds_empty\<lparr>rr_num_rows := int32_of_nat (length rs), rr_rows := rs\<rparr>)
      | Some Reply_nil \<Rightarrow> ret (rds_empty\<lparr>rr_error := INVALID, rr_msg := Some ''nil''\<rparr>)
      | Some (Reply_error t) \<Rightarrow> ret (rds_empty\<lparr>rr_error := INVALID, rr_msg := Some t\<rparr>)
      | Some (Reply_status t) \<Rightarrow> ret (rds_empty\<lparr>rr_error := INVALID, rr_msg := Some t\<rparr>)
      | Some (Reply_integer n) \<Rightarrow> ret (rds_empty\<lparr>rr_num_rows := sint (word_of_int n :: u32)\<rparr>)
      | Some (Reply_other k) \<Rightarrow> bnd (assertion nd False) (\<lambda>_. ret rds_empty))"

text \<open>\<^verbatim>\<open>rds_results::valid\<close>: \<^verbatim>\<open>strcmp\<close> of a null \<^verbatim>\<open>last_msg\<close> is undefined.\<close>

definition rds_valid :: "rds_results \<Rightarrow> bool res" where
  "rds_valid r =
     (if rr_error r \<noteq> 0 then Inr False
      else case rr_msg r of None \<Rightarrow> Inl Ub | Some m \<Rightarrow> Inr (m = ''OK''))"

text \<open>Move query and callback out of the first entry (which leaves both empty), call, then remove the
  entry.\<close>

definition take_front :: "rds_results \<Rightarrow> ('c redis, 'c option \<times> rds_results) prog" where
  "take_front r = (\<lambda>s. case r_list s of
     [] \<Rightarrow> Stuck Ub
   | q # rest \<Rightarrow>
       let r = r\<lparr>rr_query := rq_query q\<rparr>
       in Done (rq_callback q, r)
            (s\<lparr>r_list := q\<lparr>rq_query := [], rq_callback := None\<rparr> # rest,
               r_trace := r_trace s @ [Answered (rq_callback q) r]\<rparr>))"

definition pop_front :: "('c redis, unit) prog" where
  "pop_front = (\<lambda>s. if r_list s = [] then Stuck Ub else Done () (s\<lparr>r_list := tl (r_list s)\<rparr>))"

definition answer_front :: "'c rcallbacks \<Rightarrow> rds_results \<Rightarrow> ('c redis, unit) prog" where
  "answer_front cbs r =
     bnd (take_front r) (\<lambda>(cb, r). bnd (run_callback cbs cb r) (\<lambda>_. pop_front))"

definition oncallback :: "bool \<Rightarrow> 'c rcallbacks \<Rightarrow> reply option \<Rightarrow> ('c redis, unit) prog" where
  "oncallback nd cbs rep =
     bnd (results_of nd rep) (\<lambda>r.
       bnd (gets r_list) (\<lambda>l.
         if l = [] then skip else bnd (answer_front cbs r) (\<lambda>_. redis_onquery)))"

subsection \<open>Connecting\<close>

definition attach :: "int \<Rightarrow> ('c redis, unit) prog" where
  "attach fd =
     bnd (modify (\<lambda>s. s\<lparr>r_fd := fd, r_state := e_clistate_connecting,
            r_events := EPOLLIN OR EPOLLOUT OR EPOLLERR OR EPOLLHUP\<rparr>)) (\<lambda>_.
       bnd (remit (Add_event fd)) (\<lambda>_. remit (Set_client fd)))"

definition redis_init :: "bool \<Rightarrow> (nat \<Rightarrow> int) \<Rightarrow> ('c redis, unit) prog" where
  "redis_init nd socks =
     bnd (gets r_context) (\<lambda>c.
       bnd (assertion nd (c = None)) (\<lambda>_.
         bnd (gets r_fd) (\<lambda>fd.
           bnd (assertion nd (fd = INVALID)) (\<lambda>_.
             bnd (gets r_contexts) (\<lambda>n.
               bnd (modify (\<lambda>s. s\<lparr>r_context := Some n, r_contexts := n + 1, r_pending := 0, r_closing := False\<rparr>)) (\<lambda>_.
                 bnd (attach (socks n)) (\<lambda>_. remit Set_callbacks)))))))"

primrec timeout_loop :: "'c rcallbacks \<Rightarrow> int \<Rightarrow> 'c redisquery list \<Rightarrow> ('c redis, unit) prog" where
  "timeout_loop cbs t [] = skip"
| "timeout_loop cbs t (q # rest) =
     (if t < rq_tstamp q + MAX_RETRY_TIMEOUT then skip
      else bnd (answer_front cbs (rds_empty\<lparr>rr_error := INVALID, rr_msg := Some ''timeout''\<rparr>))
             (\<lambda>_. timeout_loop cbs t rest))"

definition redis_retry_timeout :: "'c rcallbacks \<Rightarrow> ('c redis, unit) prog" where
  "redis_retry_timeout cbs = bnd (gets r_now) (\<lambda>t. bnd (gets r_list) (timeout_loop cbs t))"

definition redis_retry :: "bool \<Rightarrow> 'c rcallbacks \<Rightarrow> int \<Rightarrow> ('c redis, unit) prog" where
  "redis_retry nd cbs tfd =
     bnd (redis_retry_timeout cbs) (\<lambda>_.
       bnd (gets r_timer) (\<lambda>t.
         bnd (assertion nd (t = INVALID)) (\<lambda>_.
           bnd (gets r_timeout) (\<lambda>ms.
             bnd (remit (Set_timer ms)) (\<lambda>_. modify (\<lambda>s. s\<lparr>r_timer := tfd\<rparr>))))))"

definition redis_ontimer :: "bool \<Rightarrow> (nat \<Rightarrow> int) \<Rightarrow> int \<Rightarrow> ('c redis, unit) prog" where
  "redis_ontimer nd socks fd =
     bnd (gets r_timer) (\<lambda>t.
       bnd (assertion nd (fd = t)) (\<lambda>_.
         bnd (modify (\<lambda>s. s\<lparr>r_timer := INVALID\<rparr>)) (\<lambda>_. redis_init nd socks)))"

definition redis_onconnect :: "('c redis, unit) prog" where
  "redis_onconnect =
     bnd (modify (\<lambda>s. s\<lparr>r_state := e_clistate_connected,
            r_events := EPOLLIN OR EPOLLERR OR EPOLLHUP OR EPOLLET\<rparr>)) (\<lambda>_.
       bnd (gets (\<lambda>s. Mod_event (r_fd s) e_state_client_ex (r_events s))) remit)"

definition connected :: "bool \<Rightarrow> 'c rcallbacks \<Rightarrow> int \<Rightarrow> bool \<Rightarrow> ('c redis, unit) prog" where
  "connected nd cbs tfd ok =
     (if \<not> ok then bnd redis_clear (\<lambda>_. redis_retry nd cbs tfd)
      else bnd redis_onconnect (\<lambda>_. redis_onquery))"

definition disconnected :: "bool \<Rightarrow> 'c rcallbacks \<Rightarrow> int \<Rightarrow> bool \<Rightarrow> ('c redis, unit) prog" where
  "disconnected nd cbs tfd ok =
     (if ok then skip else bnd redis_clear (\<lambda>_. redis_retry nd cbs tfd))"

definition redis_construct :: "bool \<Rightarrow> (string \<Rightarrow> string) \<Rightarrow> (nat \<Rightarrow> int) \<Rightarrow> string \<Rightarrow> ('c redis, unit) prog" where
  "redis_construct nd dns socks addr =
     (case splitaddr dns addr of
        Inl e \<Rightarrow> throw
      | Inr None \<Rightarrow> skip
      | Inr (Some (ip, port)) \<Rightarrow>
          bnd (modify (\<lambda>s. s\<lparr>r_ip := ip, r_port := port\<rparr>)) (\<lambda>_. redis_init nd socks))"

definition redis_destroy :: "('c redis, unit) prog" where
  "redis_destroy =
     bnd (gets r_context) (\<lambda>c.
       if c = None then skip else bnd redis_clear (\<lambda>_. remit Free_context))"

text \<open>The read and write callbacks of the loop: \<^verbatim>\<open>io\<close> is what hiredis then does.\<close>

definition redis_onio :: "bool \<Rightarrow> ('c redis, unit) prog \<Rightarrow> ('c redis, unit) prog" where
  "redis_onio nd io = bnd (gets r_context) (\<lambda>c. bnd (assertion nd (c \<noteq> None)) (\<lambda>_. io))"

subsection \<open>No reply is valid\<close>

text \<open>\<^verbatim>\<open>rds_results::valid\<close> never holds of the result of a reply: an error, a nil, a closed
  connection and also a status such as \<open>OK\<close> set \<^verbatim>\<open>last_error\<close>, and where that is 0
  (a string, an array, a number) the comparison reads the null \<^verbatim>\<open>last_msg\<close>.\<close>

theorem no_reply_is_valid:
  assumes "results_of nd rep s = Done r s'"
  shows "rds_valid r = Inr False \<or> rds_valid r = Inl Ub"
  using assms
  by (auto simp: results_of_def rds_valid_def rds_empty_def INVALID_def bnd_def assertion_def
      split: option.splits reply.splits if_splits exec.splits)

theorem no_reply_is_valid_witness:
  "\<exists>r. results_of True (Some (Reply_status ''OK'')) (redis_initial :: nat redis) = Done r redis_initial \<and>
     (rds_valid r = Inr False \<or> rds_valid r = Inl Ub)"
proof -
  have "results_of True (Some (Reply_status ''OK'')) (redis_initial :: nat redis) =
      Done (rds_empty\<lparr>rr_error := INVALID, rr_msg := Some ''OK''\<rparr>) redis_initial"
    by (simp add: results_of_def)
  then show ?thesis using no_reply_is_valid by blast
qed

subsection \<open>Runs\<close>

text \<open>What hiredis, the loop, the clock and the user may do; hiredis gives a reply only to a command it
  holds, and says once of a connection that it has been made.\<close>

datatype 'c rstim = Query string "'c option" | Reply "reply option" | Connected bool | Disconnected bool
  | Cleanup | Closing | Timer | Clock int | Addread | Delread | Addwrite | Delwrite

fun rstep :: "bool \<Rightarrow> 'c rcallbacks \<Rightarrow> (nat \<Rightarrow> int) \<Rightarrow> int \<Rightarrow> 'c rstim \<Rightarrow> ('c redis, unit) prog" where
  "rstep nd cbs socks tfd (Query q cb) = redis_query q cb"
| "rstep nd cbs socks tfd (Reply rep) =
     bnd (gets r_pending) (\<lambda>n. if n = 0 then skip
       else bnd (modify (\<lambda>s. s\<lparr>r_pending := n - 1\<rparr>)) (\<lambda>_. oncallback nd cbs rep))"
| "rstep nd cbs socks tfd (Connected ok) =
     bnd (gets r_state) (\<lambda>st. if st = e_clistate_connecting then connected nd cbs tfd ok else skip)"
| "rstep nd cbs socks tfd (Disconnected ok) = disconnected nd cbs tfd ok"
| "rstep nd cbs socks tfd Cleanup = clearup"
| "rstep nd cbs socks tfd Closing = modify (\<lambda>s. s\<lparr>r_closing := True\<rparr>)"
| "rstep nd cbs socks tfd Timer =
     bnd (gets r_timer) (\<lambda>t. if t = INVALID then skip else redis_ontimer nd socks t)"
| "rstep nd cbs socks tfd (Clock n) = modify (\<lambda>s. s\<lparr>r_now := n\<rparr>)"
| "rstep nd cbs socks tfd Addread = addread"
| "rstep nd cbs socks tfd Delread = delread"
| "rstep nd cbs socks tfd Addwrite = addwrite"
| "rstep nd cbs socks tfd Delwrite = delwrite"

fun rsubmits :: "'c revent list \<Rightarrow> 'c option list" where
  "rsubmits [] = []"
| "rsubmits (Submitted c # es) = c # rsubmits es"
| "rsubmits (_ # es) = rsubmits es"

fun ranswers :: "'c revent list \<Rightarrow> 'c option list" where
  "ranswers [] = []"
| "ranswers (Answered c r # es) = c # ranswers es"
| "ranswers (_ # es) = ranswers es"

lemma rsubmits_append [simp]: "rsubmits (xs @ ys) = rsubmits xs @ rsubmits ys"
  by (induction xs rule: rsubmits.induct) simp_all

lemma ranswers_append [simp]: "ranswers (xs @ ys) = ranswers xs @ ranswers ys"
  by (induction xs rule: ranswers.induct) simp_all

text \<open>What was answered and what waits is what was submitted; the same while the first entry is being
  answered; and the part of the state that says what is in flight.\<close>

definition rledger :: "'c redis \<Rightarrow> bool" where
  "rledger s \<longleftrightarrow> ranswers (r_trace s) @ map rq_callback (r_list s) = rsubmits (r_trace s)"

definition hollow :: "'c redisquery list \<Rightarrow> 'c redis \<Rightarrow> bool" where
  "hollow rest s \<longleftrightarrow> (\<exists>q ys. r_list s = q # rest @ ys) \<and>
     ranswers (r_trace s) @ map rq_callback (tl (r_list s)) = rsubmits (r_trace s)"

definition ctl :: "'c redis \<Rightarrow> e_clistate \<times> nat option \<times> nat \<times> bool" where
  "ctl s = (r_state s, r_context s, r_pending s, r_closing s)"

definition calm :: "'c rcallbacks \<Rightarrow> bool" where
  "calm cbs \<longleftrightarrow> (\<forall>c r. \<not> snd (cbs c r))"

lemma query_hollow:
  assumes "hollow rest s"
  shows "\<exists>s'. redis_query q cb s = Done () s' \<and> hollow rest s' \<and> ctl s' = ctl s"
  using assms by (auto simp: redis_query_def hollow_def ctl_def)

lemma callback_hollow:
  assumes "hollow rest s" "calm cbs"
  shows "\<exists>s'. run_callback cbs cb r s = Done () s' \<and> hollow rest s' \<and> ctl s' = ctl s"
proof -
  have "\<exists>s'. each (\<lambda>(q, cb). redis_query q cb) qs s = Done () s' \<and> hollow rest s' \<and> ctl s' = ctl s" for qs
    using assms(1)
  proof (induction qs arbitrary: s)
    case (Cons x qs)
    obtain s1 where s1: "redis_query (fst x) (snd x) s = Done () s1" "hollow rest s1" "ctl s1 = ctl s"
      using query_hollow [OF Cons.prems] by blast
    then show ?case using Cons.IH [OF s1(2)] by (simp add: split_beta)
  qed simp
  then show ?thesis using assms by (auto simp: run_callback_def calm_def split: option.splits)
qed

lemma answer_front_run:
  assumes "rledger s" "r_list s = q # rest" "calm cbs"
  shows "\<exists>s'. answer_front cbs r s = Done () s' \<and> rledger s' \<and> ctl s' = ctl s \<and> (\<exists>ys. r_list s' = rest @ ys)"
proof -
  obtain cb r' s1 where t: "take_front r s = Done (cb, r') s1" "hollow rest s1" "ctl s1 = ctl s"
    using assms(1,2) by (auto simp: take_front_def Let_def hollow_def rledger_def ctl_def)
  obtain s2 where "run_callback cbs cb r' s1 = Done () s2" "hollow rest s2" "ctl s2 = ctl s1"
    using callback_hollow [OF t(2) assms(3)] by blast
  with t show ?thesis
    by (auto simp: answer_front_def pop_front_def hollow_def rledger_def ctl_def)
qed

lemma timeout_loop_run:
  assumes "rledger s" "r_list s = l @ ys" "calm cbs"
  shows "\<exists>s'. timeout_loop cbs t l s = Done () s' \<and> rledger s' \<and> ctl s' = ctl s"
  using assms(1,2)
proof (induction l arbitrary: s ys)
  case (Cons q l)
  show ?case
  proof (cases "t < rq_tstamp q + MAX_RETRY_TIMEOUT")
    case False
    let ?r = "rds_empty\<lparr>rr_error := INVALID, rr_msg := Some ''timeout''\<rparr>"
    obtain s1 zs where "answer_front cbs ?r s = Done () s1" "rledger s1" "ctl s1 = ctl s" "r_list s1 = l @ ys @ zs"
      using answer_front_run [OF Cons.prems(1) _ assms(3), of q "l @ ys" ?r] Cons.prems(2) by auto
    then show ?thesis using Cons.IH [of s1 "ys @ zs"] False by simp
  qed (use Cons.prems in simp)
qed simp

text \<open>The invariant: the ledger, and one command in flight exactly when something waits.\<close>

definition rinv :: "'c redis \<Rightarrow> bool" where
  "rinv s \<longleftrightarrow> rledger s \<and>
     (r_state s = e_clistate_connecting \<longrightarrow> r_context s \<noteq> None \<and> r_pending s = 0) \<and>
     (r_state s = e_clistate_connected \<and> \<not> r_closing s \<longrightarrow>
        r_context s \<noteq> None \<and> r_pending s = (if r_list s = [] then 0 else 1))"

lemma redis_query_run:
  "redis_query q cb s =
     (let s1 = s\<lparr>r_list := r_list s @ [\<lparr>rq_query = q, rq_callback = cb, rq_tstamp = r_now s\<rparr>],
                  r_trace := r_trace s @ [Submitted cb]\<rparr>
      in if r_list s = [] \<and> r_state s = e_clistate_connected then redis_onquery s1 else Done () s1)"
  by (simp add: redis_query_def Let_def)

lemma rinv_query:
  assumes "rinv s" shows "\<exists>s'. redis_query q cb s = Done () s' \<and> rinv s'"
  using assms unfolding redis_query_run Let_def
  by (cases "r_list s = [] \<and> r_state s = e_clistate_connected")
     (auto simp: redis_onquery_def remit_def rinv_def rledger_def)

lemma onquery_run:
  assumes "rledger s" "r_state s \<noteq> e_clistate_connecting"
    "r_state s = e_clistate_connected \<and> \<not> r_closing s \<longrightarrow> r_context s \<noteq> None \<and> r_pending s = 0"
  shows "\<exists>s'. redis_onquery s = Done () s' \<and> rinv s'"
  using assms by (cases "r_list s") (auto simp: redis_onquery_def remit_def rinv_def rledger_def)

lemma rinv_retry:
  assumes "rledger s" "r_state s = e_clistate_closed" "calm cbs"
  shows "\<exists>s'. redis_retry True cbs tfd s = Done () s' \<and> rinv s'"
proof -
  obtain s1 where "timeout_loop cbs (r_now s) (r_list s) s = Done () s1" "rledger s1" "ctl s1 = ctl s"
    using timeout_loop_run [OF assms(1), of "r_list s" "[]"] assms(3) by auto
  then show ?thesis
    using assms(2) by (simp add: redis_retry_def redis_retry_timeout_def remit_def rinv_def rledger_def ctl_def)
qed

lemma clear_run:
  "rledger s \<Longrightarrow> \<exists>s'. redis_clear s = Done () s' \<and> rledger s' \<and> r_state s' = e_clistate_closed"
  by (auto simp: redis_clear_def remit_def rledger_def)

lemma rinv_callback:
  assumes "rledger s" "calm cbs" "r_state s \<noteq> e_clistate_connecting"
    "r_state s = e_clistate_connected \<and> \<not> r_closing s \<longrightarrow> r_context s \<noteq> None \<and> r_pending s = 0"
  shows "\<exists>s'. oncallback True cbs rep s = Done () s' \<and> rinv s'"
proof -
  obtain r where r: "results_of True rep s = Done r s"
    by (cases rep; cases "the rep") (auto simp: results_of_def)
  show ?thesis
  proof (cases "r_list s")
    case Nil
    then show ?thesis using assms r by (simp add: oncallback_def rinv_def)
  next
    case (Cons q rest)
    obtain s1 where "answer_front cbs r s = Done () s1" "rledger s1" "ctl s1 = ctl s"
      using answer_front_run [OF assms(1) Cons assms(2), of r] by blast
    moreover have "\<exists>s'. redis_onquery s1 = Done () s' \<and> rinv s'"
      using calculation(2,3) assms(3,4) by (intro onquery_run) (auto simp: ctl_def)
    ultimately show ?thesis using r Cons by (simp add: oncallback_def)
  qed
qed

lemma rinv_reconnect:
  assumes "rledger s" "calm cbs"
  shows "\<exists>s'. bnd redis_clear (\<lambda>_. redis_retry True cbs tfd) s = Done () s' \<and> rinv s'"
proof -
  obtain s1 where "redis_clear s = Done () s1" "rledger s1" "r_state s1 = e_clistate_closed"
    using clear_run [OF assms(1)] by blast
  then show ?thesis using rinv_retry assms(2) by simp
qed

lemma rinv_step:
  assumes "rinv s" "calm cbs"
  shows "\<exists>s'. rstep True cbs socks tfd x s = Done () s' \<and> rinv s'"
proof -
  have l: "rledger s" using assms(1) by (simp add: rinv_def)
  show ?thesis
  proof (cases x)
    case (Query q cb)
    then show ?thesis using rinv_query [OF assms(1)] by simp
  next
    case (Reply rep)
    have "\<exists>s'. oncallback True cbs rep (s\<lparr>r_pending := r_pending s - 1\<rparr>) = Done () s' \<and> rinv s'" if "r_pending s \<noteq> 0"
      using assms that by (intro rinv_callback) (auto simp: rinv_def rledger_def split: if_splits)
    then show ?thesis using Reply assms(1) by simp
  next
    case (Connected ok)
    have "\<exists>s'. bnd redis_onconnect (\<lambda>_. redis_onquery) s = Done () s' \<and> rinv s'" if "r_state s = e_clistate_connecting"
      unfolding redis_onconnect_def remit_def using assms(1) that
      by simp (rule onquery_run, auto simp: rinv_def rledger_def)
    then show ?thesis using Connected assms(1) rinv_reconnect [OF l assms(2)] by (simp add: connected_def)
  next
    case (Disconnected ok)
    then show ?thesis using assms(1) rinv_reconnect [OF l assms(2)] by (simp add: disconnected_def)
  next
    case Cleanup
    then show ?thesis using clear_run [OF l] by (auto simp: clearup_def rinv_def)
  next
    case Timer
    then show ?thesis using assms(1)
      by (simp add: redis_ontimer_def redis_init_def attach_def remit_def rinv_def rledger_def)
  qed (use assms(1) in \<open>simp_all add: rinv_def rledger_def addread_def delread_def addwrite_def delwrite_def
        mod_events_def remit_def\<close>)
qed

lemma rinv_run:
  assumes "calm cbs" "rinv s"
  shows "\<exists>s'. each (rstep True cbs socks tfd) xs s = Done () s' \<and> rinv s'"
  using assms(2)
proof (induction xs arbitrary: s)
  case (Cons x xs)
  obtain s1 where "rstep True cbs socks tfd x s = Done () s1" "rinv s1"
    using rinv_step [OF Cons.prems assms(1)] by blast
  then show ?case using Cons.IH by simp
qed simp

lemma construct_run:
  assumes "splitaddr dns addr = Inr (Some (ip, port))"
  shows "\<exists>s. redis_construct True dns socks addr redis_initial = Done () s \<and> rinv s"
  by (simp add: redis_construct_def assms redis_init_def attach_def remit_def redis_initial_def rinv_def rledger_def)

text \<open>C25: Of a client of a release build whose callbacks do not throw, after anything hiredis, the loop, the
  clock and the user have done (callbacks may query again): nothing is ever stuck, the callbacks called
  so far are those of the queries in their order, each once, and while the connection stands one
  command is in flight if and only if a query waits.\<close>

theorem redis_answers_in_order:
  fixes cbs :: "'c rcallbacks"
  assumes "splitaddr dns addr = Inr (Some (ip, port))" "calm cbs"
  shows "\<exists>s. bnd (redis_construct True dns socks addr) (\<lambda>_. each (rstep True cbs socks tfd) xs) redis_initial = Done () s \<and>
    ranswers (r_trace s) @ map rq_callback (r_list s) = rsubmits (r_trace s) \<and>
    (if r_state s = e_clistate_connected \<and> \<not> r_closing s
     then r_pending s = (if r_list s = [] then 0 else 1) else True)"
proof -
  obtain s0 :: "'c redis" where "redis_construct True dns socks addr redis_initial = Done () s0" "rinv s0"
    using construct_run [OF assms(1)] by blast
  moreover obtain s where "each (rstep True cbs socks tfd) xs s0 = Done () s" "rinv s"
    using rinv_run [OF assms(2) calculation(2)] by blast
  ultimately show ?thesis by (auto simp: rinv_def rledger_def)
qed

theorem redis_answers_in_order_witness:
  "\<exists>s. bnd (redis_construct True (\<lambda>_. []) (\<lambda>n. 5) ''127.0.0.1:6379'')
       (\<lambda>_. each (rstep True (\<lambda>c r. (if c = 1 then [(''get b'', Some (2::nat))] else [], False)) (\<lambda>n. 5) 9)
         [Connected True, Query ''get a'' (Some 1), Reply (Some Reply_nil)]) redis_initial = Done () s \<and>
     ranswers (r_trace s) @ map rq_callback (r_list s) = rsubmits (r_trace s) \<and>
     (if r_state s = e_clistate_connected \<and> \<not> r_closing s
      then r_pending s = (if r_list s = [] then 0 else 1) else True)"
proof (rule redis_answers_in_order)
  show "splitaddr (\<lambda>_. []) ''127.0.0.1:6379'' = Inr (Some (''127.0.0.1'', 6379))" by code_simp
qed (simp add: calm_def)

subsection \<open>A throwing callback stops the queue\<close>

lemma stalled_query:
  assumes "r_list s = q # rest"
  shows "\<exists>s'. each (\<lambda>(q, cb). redis_query q cb) qs s = Done () s' \<and> (\<exists>ys. r_list s' = q # rest @ ys) \<and>
    (\<forall>c. Command c \<in> set (r_trace s') \<longleftrightarrow> Command c \<in> set (r_trace s)) \<and> r_pending s' = r_pending s"
  using assms
proof (induction qs arbitrary: s rest)
  case (Cons x qs)
  let ?s = "s\<lparr>r_list := r_list s @ [\<lparr>rq_query = fst x, rq_callback = snd x, rq_tstamp = r_now s\<rparr>],
                  r_trace := r_trace s @ [Submitted (snd x)]\<rparr>"
  let ?x = "\<lparr>rq_query = fst x, rq_callback = snd x, rq_tstamp = r_now s\<rparr>"
  have "redis_query (fst x) (snd x) s = Done () ?s" using Cons.prems by (simp add: redis_query_run)
  moreover obtain s' ys where "each (\<lambda>(q, cb). redis_query q cb) qs ?s = Done () s'"
    "r_list s' = q # (rest @ [?x]) @ ys" "\<forall>c. Command c \<in> set (r_trace s') \<longleftrightarrow> Command c \<in> set (r_trace s)"
    "r_pending s' = r_pending s"
    using Cons.IH [of ?s "rest @ [?x]"] Cons.prems by auto
  ultimately show ?case by (cases x) simp
qed simp

text \<open>A callback that throws leaves its entry, emptied, at the front of the queue and nothing in flight:
  no later query is sent on that connection, since a query is sent at once only when it is the only one.\<close>

theorem throwing_callback_stalls_redis:
  assumes "r_list s = \<lparr>rq_query = q, rq_callback = Some c, rq_tstamp = ts\<rparr> # rest" "r_pending s = 1"
    and "\<And>r. cbs c r = ([], True)"
  shows "\<exists>s1 s2. rstep nd cbs socks tfd (Reply (Some Reply_nil)) s = Threw s1 \<and>
    each (\<lambda>(q, cb). redis_query q cb) qs s1 = Done () s2 \<and> r_pending s2 = 0 \<and>
    (\<forall>c. Command c \<in> set (r_trace s2) \<longleftrightarrow> Command c \<in> set (r_trace s))"
proof -
  obtain s1 where s1: "rstep nd cbs socks tfd (Reply (Some Reply_nil)) s = Threw s1" "r_pending s1 = 0"
    "r_list s1 = \<lparr>rq_query = [], rq_callback = None, rq_tstamp = ts\<rparr> # rest"
    "\<forall>c. Command c \<in> set (r_trace s1) \<longleftrightarrow> Command c \<in> set (r_trace s)"
    using assms by (auto simp: oncallback_def results_of_def answer_front_def take_front_def run_callback_def Let_def)
  show ?thesis using stalled_query [OF s1(3), of qs] s1 by auto
qed

theorem throwing_callback_stalls_redis_witness:
  "\<exists>s1 s2. rstep True (\<lambda>c r. ([], True)) (\<lambda>n. 5) 9 (Reply (Some Reply_nil))
      (redis_initial\<lparr>r_list := [\<lparr>rq_query = ''get a'', rq_callback = Some (1::nat), rq_tstamp = 0\<rparr>], r_pending := 1\<rparr>) = Threw s1 \<and>
    each (\<lambda>(q, cb). redis_query q cb) [(''get b'', Some 2)] s1 = Done () s2 \<and> r_pending s2 = 0"
  using throwing_callback_stalls_redis
    [of "redis_initial\<lparr>r_list := [\<lparr>rq_query = ''get a'', rq_callback = Some (1::nat), rq_tstamp = 0\<rparr>], r_pending := 1\<rparr>"
        "''get a''" 1 0 "[]" "\<lambda>c r. ([], True)" True "\<lambda>n. 5" 9 "[(''get b'', Some 2)]"]
  by auto

end
