(* ===== verification/Mysql.thy ===== *)
theory Mysql
  imports Addr Support
begin

text \<open>
  \<^verbatim>\<open>src/src/mysql/mysqlcli.cpp\<close>: the client of a MySQL server. The C API's nonblocking calls are
  a parameter: answer number \<open>k\<close> says how often the call it belongs to is not ready first
  (\<open>a_busy\<close>), how it ends, and what it leaves (the error number, the socket it has from its start on,
  the result). That a call
  ends is what the API documents; a \<^verbatim>\<open>while\<close> that waits for it takes the answer as a whole, a
  single call with rounds left takes one of them. Calls of the event loop and of the callbacks are in the
  trace; as in the Redis client a callback is what it queries and whether it throws.
\<close>

subsection \<open>State\<close>

definition NET_ASYNC_COMPLETE :: int where "NET_ASYNC_COMPLETE = 0"
definition NET_ASYNC_NOT_READY :: int where "NET_ASYNC_NOT_READY = 1"
definition NET_ASYNC_ERROR :: int where "NET_ASYNC_ERROR = 2"
definition NET_ASYNC_COMPLETE_NO_MORE_RESULTS :: int where "NET_ASYNC_COMPLETE_NO_MORE_RESULTS = 3"

text \<open>\<open>a_result\<close>: the rows of a result set; \<open>None\<close> is a null result. \<open>a_fetched\<close>: how many
  of them \<^verbatim>\<open>mysql_fetch_row_nonblocking\<close> gives before it is not ready.\<close>

record my_answer =
  a_busy :: nat
  a_status :: int
  a_errno :: int
  a_error :: string
  a_fd :: int
  a_result :: "string list list option"
  a_fetched :: nat
  a_affected :: int

record sql_results =
  sr_error :: int
  sr_msg :: "string option"
  sr_num_rows :: int
  sr_query :: string
  sr_rows :: "string list option"

record 'c mysqlquery =
  mq_query :: string
  mq_callback :: "'c option"
  mq_tstamp :: int

datatype my_state = My_closed | My_connecting | My_connected

datatype 'c mevent = Connect_call | Query_call string | Mod_client int | Set_client int | Add_connect int
  | Closed_already int | Set_timer int | Stop_timer int | Mysql_close
  | Submitted "'c option" | Finished "'c option" "sql_results list"

record 'c mysql =
  my_list :: "'c mysqlquery list"
  my_user :: string
  my_password :: string
  my_ip :: string
  my_port :: int
  my_fd :: int
  my_timer :: int
  my_timeout :: int
  my_state :: my_state
  my_now :: int
  my_pos :: nat
  my_left :: nat
  my_errno :: int
  my_error :: string
  my_sock :: int
  my_trace :: "'c mevent list"

type_synonym 'c mcallbacks = "'c \<Rightarrow> sql_results \<Rightarrow> (string \<times> 'c option) list \<times> bool"
type_synonym my_lib = "nat \<Rightarrow> my_answer"

definition mysql_initial :: "my_lib \<Rightarrow> 'c mysql" where
  "mysql_initial L = \<lparr>my_list = [], my_user = [], my_password = [], my_ip = ''127.0.0.1'', my_port = 3306,
     my_fd = INVALID, my_timer = INVALID, my_timeout = 1000, my_state = My_closed, my_now = 0,
     my_pos = 0, my_left = a_busy (L 0), my_errno = 0, my_error = [], my_sock = INVALID, my_trace = []\<rparr>"

definition MAX_RETRY_TIMEOUT :: int where "MAX_RETRY_TIMEOUT = 15 * 1000"
definition TIMEOUT :: int where "TIMEOUT = -2"

definition memit :: "'c mevent \<Rightarrow> ('c mysql, unit) prog" where
  "memit e = modify (\<lambda>s. s\<lparr>my_trace := my_trace s @ [e]\<rparr>)"

text \<open>The end of a call: its answer, and what the library keeps of it.\<close>

definition my_ready :: "my_lib \<Rightarrow> ('c mysql, my_answer) prog" where
  "my_ready L = (\<lambda>s. let a = L (my_pos s) in
     Done a (s\<lparr>my_pos := my_pos s + 1, my_left := a_busy (L (my_pos s + 1)), my_errno := a_errno a,
               my_error := a_error a, my_sock := a_fd a\<rparr>))"

definition my_call :: "my_lib \<Rightarrow> ('c mysql, int) prog" where
  "my_call L =
     bnd (gets my_left) (\<lambda>n.
       if 0 < n
       then bnd (modify (\<lambda>s. s\<lparr>my_left := n - 1, my_sock := a_fd (L (my_pos s))\<rparr>)) (\<lambda>_. ret NET_ASYNC_NOT_READY)
       else bnd (my_ready L) (\<lambda>a. ret (a_status a)))"

definition is_network_error :: "int \<Rightarrow> bool" where
  "is_network_error e \<longleftrightarrow> e \<in> {2002, 2003, 2006, 2013, 1040, 1053, 1159, 1161}"

subsection \<open>Connecting and querying\<close>

definition connect_status :: "int \<Rightarrow> ('c mysql, int) prog" where
  "connect_status st =
     bnd (modify (\<lambda>s. s\<lparr>my_state := (if st = NET_ASYNC_COMPLETE then My_connected else My_connecting)\<rparr>))
       (\<lambda>_. ret st)"

definition tryconnect :: "my_lib \<Rightarrow> ('c mysql, int) prog" where
  "tryconnect L = bnd (memit Connect_call) (\<lambda>_. bnd (my_call L) connect_status)"

text \<open>\<^verbatim>\<open>while ((status = __tryconnect()) == NET_ASYNC_NOT_READY)\<close>\<close>

definition tryconnect_wait :: "my_lib \<Rightarrow> ('c mysql, int) prog" where
  "tryconnect_wait L =
     bnd (memit Connect_call) (\<lambda>_. bnd (my_ready L) (\<lambda>a. connect_status (a_status a)))"

definition my_onquery_with :: "('c mysql, int) prog \<Rightarrow> ('c mysql, int) prog" where
  "my_onquery_with call =
     bnd (gets my_list) (\<lambda>l.
       case l of
         [] \<Rightarrow> ret NET_ASYNC_COMPLETE_NO_MORE_RESULTS
       | q # _ \<Rightarrow> bnd (memit (Query_call (mq_query q))) (\<lambda>_. call))"

definition my_onquery :: "my_lib \<Rightarrow> ('c mysql, int) prog" where
  "my_onquery L = my_onquery_with (my_call L)"

definition my_onquery_wait :: "my_lib \<Rightarrow> ('c mysql, int) prog" where
  "my_onquery_wait L = my_onquery_with (bnd (my_ready L) (\<lambda>a. ret (a_status a)))"

definition my_query :: "my_lib \<Rightarrow> string \<Rightarrow> 'c option \<Rightarrow> ('c mysql, unit) prog" where
  "my_query L q cb =
     bnd (modify (\<lambda>s. s\<lparr>my_list := my_list s @ [\<lparr>mq_query = q, mq_callback = cb, mq_tstamp = my_now s\<rparr>],
                        my_trace := my_trace s @ [Submitted cb]\<rparr>)) (\<lambda>_.
       bnd (gets (\<lambda>s. length (my_list s) = 1 \<and> my_state s = My_connected)) (\<lambda>b.
         if b then bnd (my_onquery L) (\<lambda>_. skip) else skip))"

definition sql_empty :: sql_results where
  "sql_empty = \<lparr>sr_error = 0, sr_msg = None, sr_num_rows = 0, sr_query = [], sr_rows = None\<rparr>"

definition sql_valid :: "sql_results \<Rightarrow> bool" where
  "sql_valid r \<longleftrightarrow> sr_error r = 0 \<and> sr_rows r \<noteq> None"

text \<open>The base class \<^verbatim>\<open>myresults\<close> has an error and a message too, which the ones of
  \<^verbatim>\<open>sql_results\<close> hide: \<^verbatim>\<open>error()\<close> and \<^verbatim>\<open>strerror()\<close> read those of the base, which
  nothing writes.\<close>

record myresults =
  base_error :: int
  base_msg :: "string option"

definition myresults_new :: myresults where
  "myresults_new = \<lparr>base_error = 0, base_msg = None\<rparr>"

definition sql_error :: "myresults \<times> sql_results \<Rightarrow> int" where
  "sql_error r = base_error (fst r)"

definition sql_strerror :: "myresults \<times> sql_results \<Rightarrow> string option" where
  "sql_strerror r = base_msg (fst r)"

lemma sql_error_is_hidden:
  "sql_error (myresults_new, sql_empty\<lparr>sr_error := e, sr_msg := Some m\<rparr>) = 0"
  "sql_strerror (myresults_new, sql_empty\<lparr>sr_error := e, sr_msg := Some m\<rparr>) = None"
  by (simp_all add: sql_error_def sql_strerror_def myresults_new_def)

definition my_callback :: "my_lib \<Rightarrow> 'c mcallbacks \<Rightarrow> 'c option \<Rightarrow> sql_results \<Rightarrow> ('c mysql, unit) prog" where
  "my_callback L cbs cb r =
     (case cb of
        None \<Rightarrow> skip
      | Some c \<Rightarrow> bnd (each (\<lambda>(q, cb). my_query L q cb) (fst (cbs c r)))
                    (\<lambda>_. if snd (cbs c r) then throw else skip))"

text \<open>Answering the first query: its callback is moved out (and its text, when the result carries it), is
  called with each of the results, then the entry is removed.\<close>

definition my_take :: "bool \<Rightarrow> ('c mysql, 'c option \<times> string) prog" where
  "my_take text_too = (\<lambda>s. case my_list s of
     [] \<Rightarrow> Stuck Ub
   | q # rest \<Rightarrow> Done (mq_callback q, if text_too then mq_query q else [])
       (s\<lparr>my_list := q\<lparr>mq_callback := None, mq_query := (if text_too then [] else mq_query q)\<rparr> # rest\<rparr>))"

definition my_pop :: "('c mysql, unit) prog" where
  "my_pop = (\<lambda>s. if my_list s = [] then Stuck Ub else Done () (s\<lparr>my_list := tl (my_list s)\<rparr>))"

definition my_answer_front ::
    "my_lib \<Rightarrow> 'c mcallbacks \<Rightarrow> bool \<Rightarrow> (string \<Rightarrow> sql_results list) \<Rightarrow> ('c mysql, unit) prog" where
  "my_answer_front L cbs text_too rs =
     bnd (my_take text_too) (\<lambda>(cb, q).
       bnd (memit (Finished cb (if cb = None then [] else rs q))) (\<lambda>_.
         bnd (each (my_callback L cbs cb) (if cb = None then [] else rs q)) (\<lambda>_. my_pop)))"

definition onqueryerr :: "bool \<Rightarrow> my_lib \<Rightarrow> 'c mcallbacks \<Rightarrow> int \<Rightarrow> ('c mysql, int) prog" where
  "onqueryerr nd L cbs st =
     (if st = NET_ASYNC_ERROR then
        bnd (gets (\<lambda>s. (my_list s, my_errno s, my_error s))) (\<lambda>(l, e, m).
          bnd (if l = [] then skip
               else my_answer_front L cbs False (\<lambda>q. [sql_empty\<lparr>sr_error := e, sr_msg := Some m\<rparr>]))
            (\<lambda>_. ret 1))
      else bnd (assertion nd (st = 0)) (\<lambda>_. ret 0))"

text \<open>The results one query's answer makes: one for each row fetched, or one for a statement without
  a result set.\<close>

definition store_results :: "my_answer \<Rightarrow> string \<Rightarrow> sql_results list" where
  "store_results a q =
     (let r = sql_empty\<lparr>sr_num_rows := a_affected a, sr_query := q\<rparr>
      in case a_result a of
           Some rows \<Rightarrow> map (\<lambda>row. r\<lparr>sr_rows := Some row\<rparr>) (take (a_fetched a) rows)
         | None \<Rightarrow>
             if a_errno a = 0
             then [r\<lparr>sr_msg := Some (''affected '' @ to_string (a_affected a) @ '' rows'')\<rparr>]
             else [r\<lparr>sr_error := a_errno a, sr_msg := Some (a_error a)\<rparr>])"

definition onstore :: "bool \<Rightarrow> my_lib \<Rightarrow> 'c mcallbacks \<Rightarrow> ('c mysql, unit) prog" where
  "onstore nd L cbs =
     bnd (gets my_list) (\<lambda>l.
       if l = [] then skip
       else bnd (my_ready L) (\<lambda>a.
         bnd (assertion nd (a_status a = NET_ASYNC_COMPLETE)) (\<lambda>_.
           my_answer_front L cbs True (store_results a))))"

subsection \<open>Losing the connection\<close>

definition my_clear :: "('c mysql, unit) prog" where
  "my_clear =
     bnd (gets my_fd) (\<lambda>fd.
       if fd = INVALID then skip
       else bnd (modify (\<lambda>s. s\<lparr>my_state := My_closed\<rparr>)) (\<lambda>_.
         bnd (memit (Closed_already fd)) (\<lambda>_. modify (\<lambda>s. s\<lparr>my_fd := INVALID\<rparr>))))"

primrec my_timeout_loop :: "my_lib \<Rightarrow> 'c mcallbacks \<Rightarrow> int \<Rightarrow> 'c mysqlquery list \<Rightarrow> ('c mysql, unit) prog" where
  "my_timeout_loop L cbs t [] = skip"
| "my_timeout_loop L cbs t (q # rest) =
     (if t < mq_tstamp q + MAX_RETRY_TIMEOUT then skip
      else bnd (my_answer_front L cbs True
                  (\<lambda>q. [sql_empty\<lparr>sr_error := TIMEOUT, sr_msg := Some ''retry time out'', sr_query := q\<rparr>]))
             (\<lambda>_. my_timeout_loop L cbs t rest))"

definition my_retry_timeout :: "my_lib \<Rightarrow> 'c mcallbacks \<Rightarrow> ('c mysql, unit) prog" where
  "my_retry_timeout L cbs = bnd (gets my_now) (\<lambda>t. bnd (gets my_list) (my_timeout_loop L cbs t))"

definition my_retry :: "my_lib \<Rightarrow> 'c mcallbacks \<Rightarrow> int \<Rightarrow> ('c mysql, unit) prog" where
  "my_retry L cbs tfd =
     bnd (my_retry_timeout L cbs) (\<lambda>_.
       bnd (gets my_timeout) (\<lambda>ms.
         bnd (memit (Set_timer ms)) (\<lambda>_. modify (\<lambda>s. s\<lparr>my_timer := tfd\<rparr>))))"

definition checkerror :: "my_lib \<Rightarrow> 'c mcallbacks \<Rightarrow> int \<Rightarrow> int \<Rightarrow> ('c mysql, int) prog" where
  "checkerror L cbs tfd st =
     bnd (gets my_errno) (\<lambda>e.
       if st = NET_ASYNC_ERROR \<and> is_network_error e
       then bnd my_clear (\<lambda>_. bnd (my_retry L cbs tfd) (\<lambda>_. ret INVALID))
       else ret 0)"

definition my_init :: "my_lib \<Rightarrow> 'c mcallbacks \<Rightarrow> int \<Rightarrow> ('c mysql, unit) prog" where
  "my_init L cbs tfd =
     bnd (tryconnect L) (\<lambda>_.
       bnd (modify (\<lambda>s. s\<lparr>my_fd := my_sock s\<rparr>)) (\<lambda>_.
         bnd (gets my_fd) (\<lambda>fd.
           if fd = INVALID then my_retry L cbs tfd else memit (Add_connect fd))))"

definition my_ontimer :: "my_lib \<Rightarrow> 'c mcallbacks \<Rightarrow> int \<Rightarrow> ('c mysql, unit) prog" where
  "my_ontimer L cbs tfd =
     bnd (modify (\<lambda>s. s\<lparr>my_timer := INVALID\<rparr>)) (\<lambda>_. my_init L cbs tfd)"

definition my_onclose :: "my_lib \<Rightarrow> 'c mcallbacks \<Rightarrow> int \<Rightarrow> ('c mysql, unit) prog" where
  "my_onclose L cbs tfd = bnd my_clear (\<lambda>_. my_retry L cbs tfd)"

definition my_onconnect :: "my_lib \<Rightarrow> int \<Rightarrow> ('c mysql, unit) prog" where
  "my_onconnect L fd =
     bnd (memit (Mod_client fd)) (\<lambda>_. bnd (memit (Set_client fd)) (\<lambda>_. bnd (tryconnect L) (\<lambda>_. skip)))"

text \<open>The loop \<^verbatim>\<open>__retry__\<close> sends and stores until a query does not complete at once; it may go on
  for as long as callbacks query, so it has \<open>n\<close> rounds (\<open>None\<close>: none left).\<close>

primrec retry_label :: "bool \<Rightarrow> my_lib \<Rightarrow> 'c mcallbacks \<Rightarrow> nat \<Rightarrow> ('c mysql, int option) prog" where
  "retry_label nd L cbs 0 = ret None"
| "retry_label nd L cbs (Suc n) =
     bnd (my_onquery L) (\<lambda>st.
       if st = NET_ASYNC_COMPLETE then bnd (onstore nd L cbs) (\<lambda>_. retry_label nd L cbs n)
       else ret (Some st))"

definition onrecv :: "bool \<Rightarrow> my_lib \<Rightarrow> 'c mcallbacks \<Rightarrow> int \<Rightarrow> nat \<Rightarrow> ('c mysql, bool) prog" where
  "onrecv nd L cbs tfd n =
     bnd (gets my_state) (\<lambda>state.
       if state \<noteq> My_connected then
         bnd (tryconnect_wait L) (\<lambda>_.
           bnd (checkerror L cbs tfd NET_ASYNC_ERROR) (\<lambda>r.
             if r = INVALID then ret True
             else bnd (my_onquery L) (\<lambda>st.
               bnd (assertion nd (st \<noteq> NET_ASYNC_ERROR)) (\<lambda>_. ret True))))
       else
         bnd (my_onquery_wait L) (\<lambda>st.
           bnd (checkerror L cbs tfd st) (\<lambda>r.
             if r = INVALID then ret True
             else bnd (onqueryerr nd L cbs st) (\<lambda>e.
               bnd (if e = 0
                    then bnd (onstore nd L cbs) (\<lambda>_. checkerror L cbs tfd NET_ASYNC_ERROR)
                    else ret 0) (\<lambda>r.
                 if r = INVALID then ret True
                 else bnd (retry_label nd L cbs n) (\<lambda>st.
                   case st of
                     None \<Rightarrow> ret False
                   | Some st \<Rightarrow> bnd (checkerror L cbs tfd st) (\<lambda>_. ret True)))))))"

text \<open>The constructor throws when the address does not split; a url that does not split leaves its
  address empty.\<close>

definition mysql_construct :: "my_lib \<Rightarrow> 'c mcallbacks \<Rightarrow> int \<Rightarrow> (string \<Rightarrow> string) \<Rightarrow> string \<Rightarrow> ('c mysql, unit) prog" where
  "mysql_construct L cbs tfd dns dst =
     bnd (case spliturl dst of
            Some (name, pw, url) \<Rightarrow>
              bnd (modify (\<lambda>s. s\<lparr>my_user := name, my_password := (case pw of Some p \<Rightarrow> p | None \<Rightarrow> my_password s)\<rparr>))
                (\<lambda>_. ret url)
          | None \<Rightarrow> ret []) (\<lambda>url.
       case splitaddr dns url of
         Inl e \<Rightarrow> throw
       | Inr None \<Rightarrow> throw
       | Inr (Some (ip, port)) \<Rightarrow>
           bnd (modify (\<lambda>s. s\<lparr>my_ip := ip, my_port := port\<rparr>)) (\<lambda>_. my_init L cbs tfd))"

definition mysql_destroy :: "('c mysql, unit) prog" where
  "mysql_destroy =
     bnd (gets my_timer) (\<lambda>t.
       bnd (if t \<noteq> INVALID then memit (Stop_timer t) else skip) (\<lambda>_. memit Mysql_close))"


subsection \<open>Runs\<close>

text \<open>What the loop, the clock and the user may do. \<open>Recv n\<close> is a read event whose last loop has
  \<open>n\<close> rounds; the loop reports a connection or its end only for the descriptor it was given.\<close>

datatype 'c mstim = Query string "'c option" | Recv nat | Connected | Closed | Timer | Clock int

fun mstep :: "my_lib \<Rightarrow> 'c mcallbacks \<Rightarrow> int \<Rightarrow> 'c mstim \<Rightarrow> ('c mysql, unit) prog" where
  "mstep L cbs tfd (Query q cb) = my_query L q cb"
| "mstep L cbs tfd (Recv n) = bnd (onrecv True L cbs tfd n) (\<lambda>_. skip)"
| "mstep L cbs tfd Connected =
     bnd (gets my_fd) (\<lambda>fd. if fd = INVALID then skip else my_onconnect L fd)"
| "mstep L cbs tfd Closed =
     bnd (gets my_fd) (\<lambda>fd. if fd = INVALID then skip else my_onclose L cbs tfd)"
| "mstep L cbs tfd Timer =
     bnd (gets my_timer) (\<lambda>t. if t = INVALID then skip else my_ontimer L cbs tfd)"
| "mstep L cbs tfd (Clock n) = modify (\<lambda>s. s\<lparr>my_now := n\<rparr>)"

fun msubmits :: "'c mevent list \<Rightarrow> 'c option list" where
  "msubmits [] = []"
| "msubmits (Submitted c # es) = c # msubmits es"
| "msubmits (_ # es) = msubmits es"

fun mfinishes :: "'c mevent list \<Rightarrow> 'c option list" where
  "mfinishes [] = []"
| "mfinishes (Finished c rs # es) = c # mfinishes es"
| "mfinishes (_ # es) = mfinishes es"

lemma msubmits_append [simp]: "msubmits (xs @ ys) = msubmits xs @ msubmits ys"
  by (induction xs rule: msubmits.induct) simp_all

lemma mfinishes_append [simp]: "mfinishes (xs @ ys) = mfinishes xs @ mfinishes ys"
  by (induction xs rule: mfinishes.induct) simp_all

definition mledger :: "'c mysql \<Rightarrow> bool" where
  "mledger s \<longleftrightarrow> mfinishes (my_trace s) @ map mq_callback (my_list s) = msubmits (my_trace s)"

definition mhollow :: "'c mysqlquery list \<Rightarrow> 'c mysql \<Rightarrow> bool" where
  "mhollow rest s \<longleftrightarrow> (\<exists>q ys. my_list s = q # rest @ ys) \<and>
     mfinishes (my_trace s) @ map mq_callback (tl (my_list s)) = msubmits (my_trace s)"

definition calm :: "'c mcallbacks \<Rightarrow> bool" where
  "calm cbs \<longleftrightarrow> (\<forall>c r. \<not> snd (cbs c r))"

text \<open>Events that are neither a query nor its end, and the library's calls, leave the queue and the
  ledger alone.\<close>

definition aside :: "('c mysql \<Rightarrow> bool) \<Rightarrow> bool" where
  "aside I \<longleftrightarrow> (\<forall>s s'. I s \<longrightarrow> my_list s' = my_list s \<longrightarrow> mfinishes (my_trace s') = mfinishes (my_trace s) \<longrightarrow>
     msubmits (my_trace s') = msubmits (my_trace s) \<longrightarrow> I s')"

lemma aside_mledger: "aside mledger" and aside_mhollow: "aside (mhollow rest)"
  by (simp_all add: aside_def mledger_def mhollow_def)

lemma asideD: "aside I \<Longrightarrow> I s \<Longrightarrow> my_list s' = my_list s \<Longrightarrow> mfinishes (my_trace s') = mfinishes (my_trace s) \<Longrightarrow>
    msubmits (my_trace s') = msubmits (my_trace s) \<Longrightarrow> I s'"
  unfolding aside_def by blast

lemma aside_modify:
  "aside I \<Longrightarrow> (\<And>s. my_list (g s) = my_list s \<and> my_trace (g s) = my_trace s) \<Longrightarrow> keeps I (modify g)"
  by (rule keeps_modify) (simp add: asideD)

lemma aside_emit:
  "aside I \<Longrightarrow> mfinishes [e] = [] \<Longrightarrow> msubmits [e] = [] \<Longrightarrow> keeps I (memit e)"
  unfolding memit_def by (rule keeps_modify) (simp add: asideD)

lemma aside_ready: "aside I \<Longrightarrow> keeps I (my_ready L)"
  by (rule keepsI) (simp add: my_ready_def Let_def asideD)

lemma aside_call: "aside I \<Longrightarrow> keeps I (my_call L)"
  unfolding my_call_def by (intro kept aside_modify aside_ready) simp_all

lemma aside_onquery:
  assumes "aside I" "keeps I call" shows "keeps I (my_onquery_with call)"
proof -
  have "keeps I (case l of [] \<Rightarrow> ret NET_ASYNC_COMPLETE_NO_MORE_RESULTS
      | q # _ \<Rightarrow> bnd (memit (Query_call (mq_query q))) (\<lambda>_. call))" for l :: "'a mysqlquery list"
    using assms by (cases l) (auto intro!: kept aside_emit)
  then show ?thesis unfolding my_onquery_with_def by (intro kept)
qed

lemma aside_tryconnect: "aside I \<Longrightarrow> keeps I (tryconnect L)" "aside I \<Longrightarrow> keeps I (tryconnect_wait L)"
  unfolding tryconnect_def tryconnect_wait_def connect_status_def
  by (intro kept aside_emit aside_call aside_ready aside_modify; simp)+

lemma aside_clear: "aside I \<Longrightarrow> keeps I my_clear"
  unfolding my_clear_def by (intro kept aside_emit aside_modify) simp_all

lemma keeps_query:
  assumes "aside I"
    and "\<And>s cb. I s \<Longrightarrow> I (s\<lparr>my_list := my_list s @ [\<lparr>mq_query = q, mq_callback = cb, mq_tstamp = my_now s\<rparr>],
                         my_trace := my_trace s @ [Submitted cb]\<rparr>)"
  shows "keeps I (my_query L q cb)"
  unfolding my_query_def my_onquery_def
  by (intro kept aside_onquery aside_call assms)

lemma keeps_query_mledger: "keeps mledger (my_query L q cb)"
  by (rule keeps_query [OF aside_mledger]) (simp add: mledger_def)

lemma keeps_query_mhollow: "keeps (mhollow rest) (my_query L q cb)"
  by (rule keeps_query [OF aside_mhollow]) (auto simp: mhollow_def)

lemma keeps_callback: "calm cbs \<Longrightarrow> keeps (mhollow rest) (my_callback L cbs cb r)"
  unfolding my_callback_def by (cases cb) (auto intro!: kept keeps_query_mhollow simp: calm_def)

lemma my_answer_front_run:
  assumes "mledger s" "my_list s = q # rest" "calm cbs"
  shows "\<exists>s'. my_answer_front L cbs b rs s = Done () s' \<and> mledger s' \<and> (\<exists>ys. my_list s' = rest @ ys)"
proof -
  obtain cb t s1 where t: "my_take b s = Done (cb, t) s1" "my_list s1 = q\<lparr>mq_callback := None, mq_query := (if b then [] else mq_query q)\<rparr> # rest"
    "cb = mq_callback q" "my_trace s1 = my_trace s"
    using assms(2) by (simp add: my_take_def)
  define x where "x = (if cb = None then [] else rs t)"
  have h: "mhollow rest (s1\<lparr>my_trace := my_trace s1 @ [Finished cb x]\<rparr>)"
    using assms(1,2) t by (simp add: mhollow_def mledger_def)
  have "keeps (mhollow rest) (each (my_callback L cbs cb) x)"
    by (intro kept keeps_callback assms(3))
  from keepsD [OF this h] obtain u s2 where
    e: "each (my_callback L cbs cb) x (s1\<lparr>my_trace := my_trace s1 @ [Finished cb x]\<rparr>) = Done u s2" "mhollow rest s2"
    by blast
  have "my_answer_front L cbs b rs s = my_pop s2"
    unfolding my_answer_front_def memit_def using t(1) e(1) x_def by simp
  with e(2) show ?thesis by (auto simp: my_pop_def mhollow_def mledger_def)
qed


lemmas mledger_aside = aside_emit [OF aside_mledger] aside_modify [OF aside_mledger] aside_ready [OF aside_mledger]
  aside_call [OF aside_mledger] aside_clear [OF aside_mledger] aside_tryconnect [OF aside_mledger]
  aside_onquery [OF aside_mledger]

lemma keeps_onqueryerr:
  fixes cbs :: "'c mcallbacks"
  assumes "calm cbs" shows "keeps mledger (onqueryerr True L cbs st)"
proof (rule keepsI)
  fix s :: "'c mysql" assume l: "mledger s"
  show "\<exists>a s'. onqueryerr True L cbs st s = Done a s' \<and> mledger s'"
  proof (cases "my_list s")
    case (Cons q rest)
    let ?rs = "\<lambda>q. [sql_empty\<lparr>sr_error := my_errno s, sr_msg := Some (my_error s)\<rparr>]"
    show ?thesis using my_answer_front_run [OF l Cons assms, of L False ?rs] Cons l
      by (auto simp: onqueryerr_def)
  qed (use l in \<open>simp add: onqueryerr_def\<close>)
qed

lemma keeps_onstore:
  fixes cbs :: "'c mcallbacks"
  assumes "calm cbs" shows "keeps mledger (onstore True L cbs)"
proof (rule keepsI)
  fix s :: "'c mysql" assume l: "mledger s"
  obtain a s1 where r: "my_ready L s = Done a s1" "my_list s1 = my_list s" "my_trace s1 = my_trace s"
    by (simp add: my_ready_def Let_def)
  then have "mledger s1" using l by (simp add: mledger_def)
  then show "\<exists>a s'. onstore True L cbs s = Done a s' \<and> mledger s'"
    using my_answer_front_run [OF _ _ assms, of s1 _ _ L True "store_results a"] r l
    by (cases "my_list s") (auto simp: onstore_def)
qed

lemma my_timeout_loop_run:
  assumes "mledger s" "my_list s = l @ ys" "calm cbs"
  shows "\<exists>s'. my_timeout_loop L cbs t l s = Done () s' \<and> mledger s'"
  using assms(1,2)
proof (induction l arbitrary: s ys)
  case (Cons q l)
  let ?rs = "\<lambda>q. [sql_empty\<lparr>sr_error := TIMEOUT, sr_msg := Some ''retry time out'', sr_query := q\<rparr>]"
  show ?case
  proof (cases "t < mq_tstamp q + MAX_RETRY_TIMEOUT")
    case False
    obtain s1 zs where "my_answer_front L cbs True ?rs s = Done () s1" "mledger s1" "my_list s1 = l @ ys @ zs"
      using my_answer_front_run [OF Cons.prems(1) _ assms(3), of q "l @ ys" L True ?rs] Cons.prems(2) by auto
    then show ?thesis using Cons.IH [of s1 "ys @ zs"] False by simp
  qed (use Cons.prems in simp)
qed simp

lemma keeps_retry:
  fixes cbs :: "'c mcallbacks"
  assumes "calm cbs" shows "keeps mledger (my_retry L cbs tfd)"
proof -
  have "keeps mledger (my_retry_timeout L cbs)"
    by (rule keepsI) (use my_timeout_loop_run [OF _ _ assms, of _ _ "[]" L] in \<open>simp add: my_retry_timeout_def\<close>)
  then show ?thesis unfolding my_retry_def by (intro kept mledger_aside) simp_all
qed

lemma keeps_checkerror: "calm cbs \<Longrightarrow> keeps mledger (checkerror L cbs tfd st)"
  unfolding checkerror_def by (intro kept mledger_aside keeps_retry)

lemma keeps_init: "calm cbs \<Longrightarrow> keeps mledger (my_init L cbs tfd)"
  unfolding my_init_def by (intro kept mledger_aside keeps_retry) simp_all

lemma keeps_retry_label: "calm cbs \<Longrightarrow> keeps mledger (retry_label True L cbs n)"
  by (induction n) (auto intro!: kept mledger_aside keeps_onstore simp: my_onquery_def)

lemma keeps_onrecv:
  fixes cbs :: "'c mcallbacks"
  assumes "calm cbs" shows "keeps mledger (onrecv True L cbs tfd n)"
proof -
  have tail: "keeps mledger (case st of None \<Rightarrow> ret False | Some st \<Rightarrow> bnd (checkerror L cbs tfd st) (\<lambda>_. ret True))" for st
    using assms by (cases st) (auto intro!: kept keeps_checkerror)
  show ?thesis unfolding onrecv_def my_onquery_def my_onquery_wait_def
    by (intro kept mledger_aside keeps_checkerror keeps_onqueryerr keeps_onstore tail assms
        keeps_retry_label [unfolded my_onquery_def])
qed

lemma keeps_step: "calm cbs \<Longrightarrow> keeps mledger (mstep L cbs tfd x)"
  by (cases x) (auto intro!: kept mledger_aside keeps_query_mledger keeps_onrecv keeps_init keeps_retry
      simp: my_onconnect_def my_onclose_def my_ontimer_def)

lemma construct_mledger:
  assumes "spliturl dst = Some (name, pw, url)" "splitaddr dns url = Inr (Some (ip, port))" "calm cbs"
  shows "\<exists>s. mysql_construct L cbs tfd dns dst (mysql_initial L) = Done () s \<and> mledger s"
proof -
  let ?s = "(mysql_initial L)\<lparr>my_user := name, my_password := (case pw of Some p \<Rightarrow> p | None \<Rightarrow> []), my_ip := ip, my_port := port\<rparr>"
  have "mledger ?s" by (simp add: mledger_def mysql_initial_def)
  from keepsD [OF keeps_init [OF assms(3)] this] obtain u s where "my_init L cbs tfd ?s = Done u s" "mledger s" by blast
  then show ?thesis
    by (cases pw) (simp_all add: mysql_construct_def assms mysql_initial_def)
qed

text \<open>C26: Of a MySQL client of a release build whose callbacks do not throw, after anything the loop, the
  server, the clock and the user have done (callbacks may query again, reconnections included):
  nothing is stuck, and the callbacks finished so far, together with those that wait, are those of the
  queries in their order: no query is dropped, answered twice or overtaken.\<close>

theorem mysql_finishes_in_order:
  fixes cbs :: "'c mcallbacks"
  assumes "spliturl dst = Some (name, pw, url)" "splitaddr dns url = Inr (Some (ip, port))" "calm cbs"
  shows "\<exists>s. bnd (mysql_construct L cbs tfd dns dst) (\<lambda>_. each (mstep L cbs tfd) xs) (mysql_initial L) = Done () s \<and>
    mfinishes (my_trace s) @ map mq_callback (my_list s) = msubmits (my_trace s)"
proof -
  obtain s0 where s0: "mysql_construct L cbs tfd dns dst (mysql_initial L) = Done () s0" "mledger s0"
    using construct_mledger [OF assms] by blast
  have "keeps mledger (each (mstep L cbs tfd) xs)"
    by (intro kept keeps_step assms(3))
  from keepsD [OF this s0(2)] s0(1) show ?thesis by (auto simp: mledger_def)
qed

theorem mysql_finishes_in_order_witness:
  "\<exists>s. bnd (mysql_construct (\<lambda>k. \<lparr>a_busy = 0, a_status = 0, a_errno = 0, a_error = [], a_fd = 7, a_result = None,
         a_fetched = 0, a_affected = 1\<rparr>) (\<lambda>c r. (if c = 1 then [(''select 2'', Some (2::nat))] else [], False)) 9
         (\<lambda>_. []) ''me:pw@127.0.0.1:3306'')
      (\<lambda>_. each (mstep (\<lambda>k. \<lparr>a_busy = 0, a_status = 0, a_errno = 0, a_error = [], a_fd = 7, a_result = None,
         a_fetched = 0, a_affected = 1\<rparr>) (\<lambda>c r. (if c = 1 then [(''select 2'', Some (2::nat))] else [], False)) 9)
        [Connected, Query ''select 1'' (Some 1), Recv 3])
      (mysql_initial (\<lambda>k. \<lparr>a_busy = 0, a_status = 0, a_errno = 0, a_error = [], a_fd = 7, a_result = None,
         a_fetched = 0, a_affected = 1\<rparr>)) = Done () s \<and>
    mfinishes (my_trace s) @ map mq_callback (my_list s) = msubmits (my_trace s)"
proof (rule mysql_finishes_in_order)
  show "spliturl ''me:pw@127.0.0.1:3306'' = Some (''me'', Some ''pw'', ''127.0.0.1:3306'')" by code_simp
  show "splitaddr (\<lambda>_. []) ''127.0.0.1:3306'' = Inr (Some (''127.0.0.1'', 3306))" by code_simp
qed (simp add: calm_def)


subsection \<open>A read event ends\<close>

definition quiet :: "'c mcallbacks \<Rightarrow> bool" where
  "quiet cbs \<longleftrightarrow> (\<forall>c r. cbs c r = ([], False))"

lemma quiet_callback: "quiet cbs \<Longrightarrow> my_callback L cbs cb r = skip"
  by (cases cb) (auto simp: my_callback_def quiet_def fun_eq_iff)

lemma quiet_callbacks: "quiet cbs \<Longrightarrow> each (my_callback L cbs cb) rs = skip"
  by (induction rs) (simp_all add: quiet_callback)

lemma quiet_answer_front:
  assumes "quiet cbs" "my_list s = q # rest"
  shows "\<exists>s'. my_answer_front L cbs b rs s = Done () s' \<and> my_list s' = rest"
  using assms by (auto simp: my_answer_front_def my_take_def memit_def my_pop_def quiet_callbacks)

lemma my_call_run: "\<exists>st s'. my_call L s = Done st s' \<and> my_list s' = my_list s"
  by (simp add: my_call_def my_ready_def Let_def)

lemma my_onquery_run: "\<exists>st s'. my_onquery L s = Done st s' \<and> my_list s' = my_list s \<and>
    (if my_list s = [] then st = NET_ASYNC_COMPLETE_NO_MORE_RESULTS else True)"
proof (cases "my_list s")
  case (Cons q rest)
  then show ?thesis
    using my_call_run [of L "s\<lparr>my_trace := my_trace s @ [Query_call (mq_query q)]\<rparr>"]
    by (auto simp: my_onquery_def my_onquery_with_def memit_def)
qed (simp add: my_onquery_def my_onquery_with_def)

lemma quiet_onstore:
  assumes "quiet cbs" shows "\<exists>s'. onstore True L cbs s = Done () s' \<and> my_list s' = tl (my_list s)"
proof (cases "my_list s")
  case (Cons q rest)
  obtain a s1 where "my_ready L s = Done a s1" "my_list s1 = q # rest"
    using Cons by (simp add: my_ready_def Let_def)
  then show ?thesis
    using quiet_answer_front [OF assms, of s1 q rest L True "store_results a"] Cons by (auto simp: onstore_def)
qed (simp add: onstore_def)

lemma retry_label_ends:
  assumes "quiet cbs" "length (my_list s) < n"
  shows "\<exists>st s'. retry_label True L cbs n s = Done (Some st) s'"
  using assms(2)
proof (induction n arbitrary: s)
  case (Suc n)
  obtain st s1 where q: "my_onquery L s = Done st s1" "my_list s1 = my_list s"
    "if my_list s = [] then st = NET_ASYNC_COMPLETE_NO_MORE_RESULTS else True"
    using my_onquery_run by blast
  show ?case
  proof (cases "st = NET_ASYNC_COMPLETE")
    case True
    then have ne: "my_list s \<noteq> []"
      using q(3) by (auto simp: NET_ASYNC_COMPLETE_def NET_ASYNC_COMPLETE_NO_MORE_RESULTS_def)
    obtain s2 where s2: "onstore True L cbs s1 = Done () s2" "my_list s2 = tl (my_list s1)"
      using quiet_onstore [OF assms(1)] by blast
    have "length (my_list s2) < n" using Suc.prems ne s2(2) q(2) by (cases "my_list s") auto
    from Suc.IH [OF this] show ?thesis using q(1) s2(1) True by simp
  qed (use q(1) in simp)
qed simp

text \<open>A bound on the queue's length that holds wherever a program goes on.\<close>

abbreviation at_most :: "nat \<Rightarrow> 'c mysql \<Rightarrow> bool" where
  "at_most n s \<equiv> length (my_list s) \<le> n"

lemma aside_at_most: "aside (at_most n)"
  by (simp add: aside_def)

lemmas at_most_aside = aside_emit [OF aside_at_most] aside_modify [OF aside_at_most] aside_ready [OF aside_at_most]
  aside_call [OF aside_at_most] aside_clear [OF aside_at_most] aside_tryconnect [OF aside_at_most]
  aside_onquery [OF aside_at_most]

lemma quiet_timeout_loop:
  "quiet cbs \<Longrightarrow> my_list s = l \<Longrightarrow> \<exists>s'. my_timeout_loop L cbs t l s = Done () s' \<and> length (my_list s') \<le> length l"
proof (induction l arbitrary: s)
  case (Cons q l)
  show ?case
  proof (cases "t < mq_tstamp q + MAX_RETRY_TIMEOUT")
    case False
    let ?rs = "\<lambda>q. [sql_empty\<lparr>sr_error := TIMEOUT, sr_msg := Some ''retry time out'', sr_query := q\<rparr>]"
    obtain s1 where s1: "my_answer_front L cbs True ?rs s = Done () s1" "my_list s1 = l"
      using quiet_answer_front [OF Cons.prems(1,2)] by blast
    from Cons.IH [OF Cons.prems(1) s1(2)] show ?thesis using s1(1) False by fastforce
  qed (use Cons.prems in simp)
qed simp

lemma at_most_checkerror:
  fixes cbs :: "'c mcallbacks"
  assumes "quiet cbs" shows "keeps (at_most n) (checkerror L cbs tfd st)"
proof -
  have "keeps (at_most n) (my_retry_timeout L cbs)"
    by (rule keepsI) (use quiet_timeout_loop [OF assms] in \<open>fastforce simp: my_retry_timeout_def\<close>)
  then show ?thesis
    unfolding checkerror_def my_retry_def by (intro kept at_most_aside) simp_all
qed

lemma at_most_onqueryerr:
  fixes cbs :: "'c mcallbacks"
  assumes "quiet cbs" shows "keeps (at_most n) (onqueryerr True L cbs st)"
proof (rule keepsI)
  fix s :: "'c mysql" assume s: "at_most n s"
  show "\<exists>a s'. onqueryerr True L cbs st s = Done a s' \<and> at_most n s'"
  proof (cases "my_list s")
    case (Cons q rest)
    let ?rs = "\<lambda>q. [sql_empty\<lparr>sr_error := my_errno s, sr_msg := Some (my_error s)\<rparr>]"
    show ?thesis using quiet_answer_front [OF assms Cons, of L False ?rs] Cons s
      by (auto simp: onqueryerr_def)
  qed (use s in \<open>simp add: onqueryerr_def\<close>)
qed


lemma at_most_onstore:
  fixes cbs :: "'c mcallbacks"
  shows "quiet cbs \<Longrightarrow> keeps (at_most n) (onstore True L cbs)"
proof (rule keepsI)
  fix s :: "'c mysql" assume "quiet cbs" "at_most n s"
  then show "\<exists>a s'. onstore True L cbs s = Done a s' \<and> at_most n s'"
    using quiet_onstore [of cbs L s] by (cases "my_list s") auto
qed

lemma gives_retry_label:
  fixes cbs :: "'c mcallbacks"
  assumes "quiet cbs" "k < n"
  shows "gives (at_most k) (\<lambda>b. b) (bnd (retry_label True L cbs n) (\<lambda>st. case st of None \<Rightarrow> ret False
      | Some st \<Rightarrow> bnd (checkerror L cbs tfd st) (\<lambda>_. ret True)))"
  unfolding gives_def
proof (intro allI impI)
  fix s :: "'c mysql" assume "at_most k s"
  then obtain st s1 where st: "retry_label True L cbs n s = Done (Some st) s1"
    using retry_label_ends [OF assms(1), of s n L] assms(2) by auto
  have "at_most (length (my_list s1)) s1" by simp
  from keepsD [OF at_most_checkerror [OF assms(1)] this] obtain r s2 where "checkerror L cbs tfd st s1 = Done r s2" by blast
  with st show "\<exists>b t. bnd (retry_label True L cbs n) (\<lambda>st. case st of None \<Rightarrow> ret False
      | Some st \<Rightarrow> bnd (checkerror L cbs tfd st) (\<lambda>_. ret True)) s = Done b t \<and> b"
    by (simp add: exI [of _ True])
qed

text \<open>C27: A read event comes to an end: with callbacks that query nothing, one more round than
  there are queries waiting is enough for its last loop, however the server answers and whether or not
  the connection stands.\<close>

theorem recv_ends:
  assumes "quiet cbs" "length (my_list s) < n"
  shows "\<exists>s'. onrecv True L cbs tfd n s = Done True s'"
proof -
  define k where "k = length (my_list s)"
  have "gives (at_most k) (\<lambda>b. b) (onrecv True L cbs tfd n)"
    unfolding onrecv_def my_onquery_wait_def my_onquery_def
    by (intro given kept at_most_aside at_most_checkerror at_most_onqueryerr at_most_onstore
        gives_retry_label assms(1) TrueI) (simp add: k_def assms(2))
  from givesD [OF this, of s] show ?thesis by (auto simp: k_def)
qed

theorem recv_ends_witness:
  "\<exists>s'. onrecv True (\<lambda>k. \<lparr>a_busy = 1, a_status = 0, a_errno = 0, a_error = [], a_fd = 7, a_result = Some [[''x'']],
         a_fetched = 1, a_affected = 1\<rparr>) (\<lambda>c r. ([], False)) 9 2
      ((mysql_initial (\<lambda>k. \<lparr>a_busy = 1, a_status = 0, a_errno = 0, a_error = [], a_fd = 7, a_result = Some [[''x'']],
         a_fetched = 1, a_affected = 1\<rparr>))\<lparr>my_state := My_connected, my_fd := 7,
         my_list := [\<lparr>mq_query = ''select 1'', mq_callback = Some (1::nat), mq_tstamp = 0\<rparr>]\<rparr>) = Done True s'"
  by (rule recv_ends) (simp_all add: quiet_def)


subsection \<open>Error behaviour\<close>



text \<open>The callback of a query is called once for each row that was fetched: not at all for an empty
  result set, and the rows after one that is not ready are dropped without an error.\<close>

theorem result_rows_answered:
  assumes "my_list s = q # rest" "mq_callback q = Some c" "a_result (L (my_pos s)) = Some rows"
    "\<And>c r. cbs c r = ([], False)"
  shows "\<exists>s' rs. onstore True L cbs s = Done () s' \<and> my_list s' = rest \<and>
    my_trace s' = my_trace s @ [Finished (Some c) rs] \<and>
    map sr_rows rs = map Some (take (a_fetched (L (my_pos s))) rows)"
proof -
  have "each (my_callback L cbs cb) rs = skip" for cb rs
    using assms(4) by (intro quiet_callbacks) (simp add: quiet_def)
  then show ?thesis
    using assms(1-3) by (simp add: onstore_def my_ready_def Let_def my_answer_front_def my_take_def memit_def my_pop_def
        store_results_def sql_empty_def)
qed

text \<open>In the last loop of a read event a query that fails, other than by losing the server, is left at the
  front: nobody is told, and nothing is in flight that would bring another event.\<close>

theorem failed_query_is_left:
  assumes "my_list s = q # rest" "my_left s = 0" "a_status (L (my_pos s)) = NET_ASYNC_ERROR"
    "\<not> is_network_error (a_errno (L (my_pos s)))"
  shows "\<exists>s'. bnd (retry_label nd L cbs (Suc n)) (\<lambda>st. case st of None \<Rightarrow> ret False
      | Some st \<Rightarrow> bnd (checkerror L cbs tfd st) (\<lambda>_. ret True)) s = Done True s' \<and>
    my_list s' = my_list s \<and> my_trace s' = my_trace s @ [Query_call (mq_query q)]"
  using assms
  by (simp add: my_onquery_def my_onquery_with_def memit_def my_call_def my_ready_def Let_def checkerror_def
      NET_ASYNC_COMPLETE_def NET_ASYNC_ERROR_def)

text \<open>A callback that throws leaves its entry, without its callback, at the front: the next read event
  sends the emptied query.\<close>

theorem throwing_callback_leaves_entry:
  assumes "my_list s = q # rest" "mq_callback q = Some c" "a_result (L (my_pos s)) = None"
    "\<And>r. cbs c r = ([], True)"
  shows "\<exists>s'. onstore True L cbs s = Threw s' \<and>
    my_list s' = \<lparr>mq_query = [], mq_callback = None, mq_tstamp = mq_tstamp q\<rparr> # rest"
  using assms
  by (cases q) (simp add: onstore_def my_ready_def Let_def my_answer_front_def my_take_def memit_def store_results_def
      my_callback_def)

end
