(* ===== verification/Services.thy ===== *)
theory Services
  imports AsyncLoop Support
begin

text \<open>
  What a server does with a connection it accepts: the callbacks \<^verbatim>\<open>msgserver\<close> and
  \<^verbatim>\<open>httpserver\<close> give \<^verbatim>\<open>asyncsys::start\<close>, over the event loop they run in, and the ownership of the
  objects they make. The callbacks registered for a connection are named by its descriptor.
\<close>

subsection \<open>Accepting\<close>

text \<open>\<open>w_read\<close>, \<open>w_clear\<close>: the lambdas of \<^verbatim>\<open>client::init\<close>; \<open>w_beat\<close>: the one of
  \<^verbatim>\<open>__heartbeat::__heartbeat\<close>.\<close>

record 'u wiring =
  w_read :: "int \<Rightarrow> 'u"
  w_clear :: "int \<Rightarrow> 'u"
  w_beat :: "int \<Rightarrow> 'u"

definition client_init :: "'u env \<Rightarrow> 'u \<Rightarrow> 'u \<Rightarrow> int \<Rightarrow> ('u net, unit) prog" where
  "client_init E rd cl fd =
     bnd (assertion (ndebug E) (fd \<noteq> INVALID)) (\<lambda>_.
       bnd (set_client E fd (Some rd) None) (\<lambda>_.
         bnd (set_clientclose E fd (Some cl)) (\<lambda>_. skip)))"

text \<open>A session is a heartbeat, whose constructor starts a timer and whose destructor stops it.\<close>

definition session_make :: "'u env \<Rightarrow> 'u \<Rightarrow> ('u net, int) prog" where
  "session_make E beat = set_timer E g_timeout g_timeout (Some beat)"

definition session_destroy :: "'u env \<Rightarrow> int \<Rightarrow> ('u net, unit) prog" where
  "session_destroy E tfd = stop_timer E tfd"

text \<open>The new session has nothing to send, so \<^verbatim>\<open>set_client\<close> only sets its field; \<open>oninit\<close> is the
  hook of the class.\<close>

definition msgserver_accept :: "'u env \<Rightarrow> 'u wiring \<Rightarrow> (int \<Rightarrow> ('u net, unit) prog) \<Rightarrow> int \<Rightarrow> ('u net, unit) prog" where
  "msgserver_accept E W oninit fd =
     bnd (client_init E (w_read W fd) (w_clear W fd) fd) (\<lambda>_.
       bnd (session_make E (w_beat W fd)) (\<lambda>_. oninit fd))"

definition httpserver_accept :: "'u env \<Rightarrow> 'u wiring \<Rightarrow> int \<Rightarrow> ('u net, unit) prog" where
  "httpserver_accept E W fd =
     bnd (assertion (ndebug E) (fd \<noteq> INVALID)) (\<lambda>_.
       bnd (client_init E (w_read W fd) (w_clear W fd) fd) (\<lambda>_.
         bnd (session_make E (w_beat W fd)) (\<lambda>_. skip)))"

text \<open>In a state whose slots of a descriptor are free, an accept callback fills them.\<close>

lemma emplace_free:
  assumes "0 \<le> fd" "slot (get s) fd = None" "\<And>f t. get (upd f t) = f (get t)" "\<And>f g t. upd f (upd g t) = upd (f \<circ> g) t"
  shows "i_emplace_back E get upd fd (Some x) s = Done () (upd (vec_set fd (Some x) \<circ> vec_grow fd) s)"
  using assms by (simp add: i_emplace_back_def)

lemma slot_filled [simp]:
  "0 \<le> fd \<Longrightarrow> slot (vec_set fd x (vec_grow fd v)) k = (if k = fd then x else slot v k)"
  by (simp add: slot_vec_set length_vec_grow less_max_iff_disj)

lemma length_slots [simp]:
  "length (cells (vec_set fd x v)) = length (cells v)" "length (cells (vec_clear fd v)) = length (cells v)"
  by (simp_all add: vec_set_def vec_clear_def)

lemma client_init_run:
  assumes "0 \<le> fd" "slot (m_read s) fd = None" "slot (m_write s) fd = None"
  shows "client_init E rd cl fd s = Done () (s\<lparr>m_read := (vec_set fd (Some rd) \<circ> vec_grow fd) (m_read s),
    m_write := (vec_set fd (Some Default_write) \<circ> vec_grow fd) (m_write s),
    m_close := (vec_set fd (Some cl) \<circ> vec_grow fd) (vec_clear fd (m_close s))\<rparr>)"
  using assms by (simp add: client_init_def set_client_def set_clientclose_def i_clear_def emplace_free INVALID_def)


text \<open>A kernel that has a descriptor for a new timer.\<close>

definition gives_timer :: "'u env \<Rightarrow> int \<Rightarrow> bool" where
  "gives_timer E tfd \<longleftrightarrow> 0 \<le> tfd \<and> (\<forall>tr. retval (kernel E tr Timerfd_create) = tfd) \<and>
     (\<forall>tr it. 0 \<le> retval (kernel E tr (Timerfd_settime tfd it)))"

lemma session_make_run:
  assumes "gives_timer E tfd" "slot (m_read s) tfd = None"
  shows "\<exists>s'. session_make E beat s = Done tfd s' \<and> m_read s' = (vec_set tfd (Some beat) \<circ> vec_grow tfd) (m_read s) \<and>
    m_write s' = m_write s \<and> m_close s' = m_close s \<and> m_client s' = m_client s \<and> m_locked s' = m_locked s"
proof -
  let ?it = "\<lparr>it_value_sec = g_timeout sdiv 1000, it_value_nsec = (g_timeout smod 1000) * 1000000,
             it_interval_sec = g_timeout sdiv 1000, it_interval_nsec = (g_timeout smod 1000) * 1000000\<rparr>"
  let ?s1 = "logged E Timerfd_create s"
  let ?s2 = "logged E (Timerfd_settime tfd ?it) ?s1"
  let ?s3 = "logged E (Epoll_add tfd (i_merge tfd (state_code e_state_rtimer)) EPOLLIN) ?s2"
  have tfd: "0 \<le> tfd" "retval (kernel E tr Timerfd_create) = tfd" "\<not> retval (kernel E tr (Timerfd_settime tfd it)) < 0" for tr it
    using assms(1) by (auto simp: gives_timer_def not_less)
  have "session_make E beat s = Done tfd (?s3\<lparr>m_read := (vec_set tfd (Some beat) \<circ> vec_grow tfd) (m_read s)\<rparr>)"
    using tfd assms(2)
    by (simp add: session_make_def set_timer_def i_settimer_def sys_logged add_event_def INVALID_def emplace_free g_timeout_def)
  then show ?thesis by simp
qed

text \<open>The server accepts: descriptor and timer are wired, the mutex is free again.\<close>

definition wired :: "'u wiring \<Rightarrow> int \<Rightarrow> int \<Rightarrow> 'u net \<Rightarrow> bool" where
  "wired W fd tfd s \<longleftrightarrow> slot (m_read s) fd = Some (w_read W fd) \<and> slot (m_write s) fd = Some Default_write \<and>
     slot (m_close s) fd = Some (w_clear W fd) \<and> slot (m_read s) tfd = Some (w_beat W fd) \<and> \<not> m_locked s"

text \<open>What it takes: a listener whose callback is one of the two servers', and which has, as theirs, no
  close callback; a kernel that hands out a new descriptor and a new timer; free slots for both.\<close>

definition may_accept :: "'u env \<Rightarrow> 'u wiring \<Rightarrow> int \<Rightarrow> int \<Rightarrow> int \<Rightarrow> 'u net \<Rightarrow> bool" where
  "may_accept E W fd nfd tfd s \<longleftrightarrow>
     0 < fd \<and> 0 \<le> nfd \<and> nfd \<noteq> fd \<and> tfd \<noteq> nfd \<and> \<not> m_locked s \<and> gives_timer E tfd \<and>
     (\<forall>tr. retval (kernel E tr (Accept fd)) = nfd) \<and>
     (\<exists>a. slot (m_client s) fd = Some a \<and> (usr E a = httpserver_accept E W \<or> usr E a = msgserver_accept E W (\<lambda>_. skip))) \<and>
     nat fd < length (cells (m_close s)) \<and> slot (m_close s) fd = None \<and>
     slot (m_read s) nfd = None \<and> slot (m_write s) nfd = None \<and> slot (m_read s) tfd = None"

lemma accept_wires:
  assumes "may_accept E W fd nfd tfd s" "has_event ev (EPOLLIN OR EPOLLOUT)"
  shows "\<exists>s'. i_onaccept E fd ev s = Done () s' \<and> wired W nfd tfd s'"
proof -
  note A = assms(1) [unfolded may_accept_def]
  obtain a where a: "slot (m_client s) fd = Some a"
    "usr E a = httpserver_accept E W \<or> usr E a = msgserver_accept E W (\<lambda>_. skip)" using A by blast
  obtain t where t: "i_onaccept E fd ev s =
      (case bnd (i_call E m_client (usr E) fd nfd) (\<lambda>_.
              bnd (gets m_close) (\<lambda>v.
                if \<not> (0 \<le> fd \<and> nat fd < length (cells v)) then stuck Ub
                else if slot v fd \<noteq> None then i_push_back_close E nfd fd
                else skip)) t of
         Done a s' \<Rightarrow> Done a (s'\<lparr>m_locked := False\<rparr>)
       | Threw s' \<Rightarrow> Threw (s'\<lparr>m_locked := False\<rparr>)
       | Stuck e \<Rightarrow> Stuck e)"
    "m_client t = m_client s" "m_close t = m_close s" "m_read t = m_read s" "m_write t = m_write s"
    using onaccept_until_callback [of fd s ev E nfd] A assms(2) by blast
  let ?t1 = "t\<lparr>m_read := (vec_set nfd (Some (w_read W nfd)) \<circ> vec_grow nfd) (m_read t),
    m_write := (vec_set nfd (Some Default_write) \<circ> vec_grow nfd) (m_write t),
    m_close := (vec_set nfd (Some (w_clear W nfd)) \<circ> vec_grow nfd) (vec_clear nfd (m_close t))\<rparr>"
  have t1: "client_init E (w_read W nfd) (w_clear W nfd) nfd t = Done () ?t1"
    using A t(4,5) by (intro client_init_run) simp_all
  have "slot (m_read ?t1) tfd = None" using A t(4) by simp
  then obtain t2 where t2: "session_make E (w_beat W nfd) ?t1 = Done tfd t2"
    "m_read t2 = (vec_set tfd (Some (w_beat W nfd)) \<circ> vec_grow tfd) (m_read ?t1)"
    "m_write t2 = m_write ?t1" "m_close t2 = m_close ?t1" "m_client t2 = m_client ?t1"
    using session_make_run [of E tfd ?t1] A by blast
  have "usr E a nfd t = Done () t2"
    using a(2) A t1 t2(1) by (auto simp: httpserver_accept_def msgserver_accept_def INVALID_def)
  then have "i_call E m_client (usr E) fd nfd t = Done () t2"
    using call_client_run [of t fd a E nfd] a(1) t(2) by simp
  moreover have "0 \<le> fd \<and> nat fd < length (cells (m_close t2))" "slot (m_close t2) fd = None"
    using A t2(4) t(3) by (simp_all add: length_vec_grow less_max_iff_disj)
  moreover have "wired W nfd tfd (t2\<lparr>m_locked := False\<rparr>)"
    using A t2 t(4,5) by (simp add: wired_def gives_timer_def)
  ultimately show ?thesis using t(1) by simp
qed


text \<open>A hangup of a wired connection.\<close>

lemma hangup_unwires:
  assumes "wired W nfd tfd s" "0 \<le> nfd" "nfd < 2 ^ 31" "tfd \<noteq> nfd" "usr E (w_clear W nfd) = (\<lambda>_. skip)"
  shows "\<exists>s' tr a. handle_event E (i_merge nfd (state_code e_state_client), EPOLLHUP) s = Done () s' \<and>
    blank nfd s' \<and> slot (m_close s') nfd = None \<and> slot (m_read s') tfd = Some (w_beat W nfd) \<and> log s' = tr @ [(Close nfd, a)]"
proof -
  have w: "slot (m_close s) nfd = Some (w_clear W nfd)" "slot (m_read s) tfd = Some (w_beat W nfd)"
    using assms(1) by (simp_all add: wired_def)
  let ?s = "s\<lparr>flag_close := True\<rparr>"
  obtain t a where t: "i_clientclose E nfd ?s =
      bnd (i_call E m_close (usr E) nfd nfd)
        (\<lambda>_. bnd (i_clear m_close_update nfd) (\<lambda>_. sys_do E (Close nfd))) t"
    "blank nfd t" "m_close t = m_close s" "m_read t = vec_clear nfd (m_read s)"
    using clientclose_until_callback [OF assms(2), of E ?s] by auto
  have len: "nat nfd < length (cells (m_close s))" using w(1) by (auto simp: slot_def split: if_splits)
  let ?s' = "(logged E (Close nfd) (m_close_update (vec_clear nfd) t))\<lparr>flag_close := False\<rparr>"
  have "i_call E m_close (usr E) nfd nfd t = Done () t"
    using assms(2,5) len t(3) w(1) by (simp add: call_close_run)
  then have "i_clientclose E nfd ?s = Done () (logged E (Close nfd) (m_close_update (vec_clear nfd) t))"
    using t(1) by (simp add: clear_close_run sys_logged)
  moreover have "handle E (i_merge nfd (state_code e_state_client), EPOLLHUP) s = i_clientclose E nfd ?s"
    using merge_roundtrip [OF assms(2,3), of "state_code e_state_client"] state_code_range [of e_state_client]
    by (simp add: handle_def i_onclient_def has_event_def EPOLLHUP_def EPOLLIN_def EPOLLOUT_def EPOLLERR_def Let_def)
  ultimately have "handle_event E (i_merge nfd (state_code e_state_client), EPOLLHUP) s = Done () ?s'"
    by (simp add: handle_event_def try_catch_def)
  moreover have "blank nfd ?s'" using t(2) by (auto simp: blank_def pending_def split: if_splits)
  moreover have "slot (m_read ?s') tfd = Some (w_beat W nfd)" using t(4) w(2) assms(4) by simp
  ultimately show ?thesis by auto
qed

text \<open>C32: A connection of a server, from the event that accepts it to the one that reports its end: after the
  first, its reads reach its client, its writes the loop's own buffer, its end clears its client, and a
  heartbeat runs beside it; after the second nothing of it is left in the loop's tables or in epoll and the
  descriptor is closed. The heartbeat's timer goes on: it is the session's.\<close>

theorem connection_lifecycle:
  assumes "may_accept E W fd nfd tfd s" "fd < 2 ^ 31" "nfd < 2 ^ 31" "usr E (w_clear W nfd) = (\<lambda>_. skip)"
  shows "\<exists>s1 s2 tr a. handle_event E (i_merge fd (state_code e_state_accept), EPOLLIN) s = Done () s1 \<and> wired W nfd tfd s1 \<and>
    handle_event E (i_merge nfd (state_code e_state_client), EPOLLHUP) s1 = Done () s2 \<and>
    blank nfd s2 \<and> slot (m_close s2) nfd = None \<and> slot (m_read s2) tfd = Some (w_beat W nfd) \<and> log s2 = tr @ [(Close nfd, a)]"
proof -
  have fd: "0 \<le> fd" "0 \<le> nfd" "tfd \<noteq> nfd" using assms(1) by (simp_all add: may_accept_def)
  obtain s1 where s1: "i_onaccept E fd EPOLLIN s = Done () s1" "wired W nfd tfd s1"
    using accept_wires [OF assms(1), of EPOLLIN] by (auto simp: has_event_def EPOLLIN_def EPOLLOUT_def)
  have "handle E (i_merge fd (state_code e_state_accept), EPOLLIN) s = Done () s1"
    using merge_roundtrip [OF fd(1) assms(2), of "state_code e_state_accept"] state_code_range [of e_state_accept] s1(1)
    by (simp add: handle_def Let_def)
  then have "handle_event E (i_merge fd (state_code e_state_accept), EPOLLIN) s = Done () (s1\<lparr>flag_close := False\<rparr>)"
    by (simp add: handle_event_def try_catch_def)
  moreover have "wired W nfd tfd (s1\<lparr>flag_close := False\<rparr>)" using s1(2) by (simp add: wired_def)
  moreover note hangup_unwires [OF this fd(2) assms(3) fd(3) assms(4)]
  ultimately show ?thesis by blast
qed


text \<open>The operations an accept callback makes call no user's callback.\<close>

lemma accept_other_usr:
  "httpserver_accept (E\<lparr>usr := u\<rparr>) W = httpserver_accept E W"
  by (rule ext) (simp add: httpserver_accept_def client_init_def set_client_def set_clientclose_def i_emplace_back_def
      session_make_def set_timer_def i_settimer_def add_event_def sys_def sys_do_def sys_answer_def cong: if_cong)

definition sample_wiring :: "nat wiring" where
  "sample_wiring = \<lparr>w_read = (\<lambda>_. 1), w_clear = (\<lambda>_. 2), w_beat = (\<lambda>_. 3)\<rparr>"

definition sample_kernel :: "nat env" where
  "sample_kernel = \<lparr>ndebug = False, kernel = (\<lambda>tr c. \<lparr>retval = (case c of Accept _ \<Rightarrow> 5 | Timerfd_create \<Rightarrow> 6 | _ \<Rightarrow> 0),
     err = 0, out_err = 0, out_time = \<lparr>it_value_sec = 0, it_value_nsec = 0, it_interval_sec = 0, it_interval_nsec = 0\<rparr>\<rparr>),
     usr = (\<lambda>u fd. skip)\<rparr>"

definition sample_env :: "nat env" where
  "sample_env = sample_kernel\<lparr>usr := (\<lambda>u. if u = 0 then httpserver_accept sample_kernel sample_wiring else (\<lambda>_. skip))\<rparr>"

definition sample_listener :: "nat net" where
  "sample_listener = (net_initial [])\<lparr>m_client := \<lparr>cells = [None, None, None, Some 0], capacity = 4\<rparr>,
     m_close := \<lparr>cells = [None, None, None, None], capacity = 4\<rparr>\<rparr>"

lemma sample_may_accept: "may_accept sample_env sample_wiring 3 5 6 sample_listener"
proof -
  have "usr sample_env 0 = httpserver_accept sample_env sample_wiring"
    by (simp add: sample_env_def accept_other_usr)
  moreover have "slot (m_client sample_listener) 3 = Some 0"
    by (simp add: sample_listener_def slot_def)
  ultimately show ?thesis
    by (auto simp: may_accept_def gives_timer_def sample_env_def sample_kernel_def sample_listener_def net_initial_def
        vec_empty_def slot_def)
qed

theorem connection_lifecycle_witness:
  "\<exists>s1 s2 tr a. handle_event sample_env (i_merge 3 (state_code e_state_accept), EPOLLIN) sample_listener = Done () s1 \<and>
     wired sample_wiring 5 6 s1 \<and>
     handle_event sample_env (i_merge 5 (state_code e_state_client), EPOLLHUP) s1 = Done () s2 \<and>
     blank 5 s2 \<and> slot (m_close s2) 5 = None \<and> slot (m_read s2) 6 = Some (w_beat sample_wiring 5) \<and>
     log s2 = tr @ [(Close 5, a)]"
  by (rule connection_lifecycle [OF sample_may_accept]) (simp_all add: sample_env_def sample_wiring_def)

subsection \<open>Ownership\<close>

text \<open>
  The \<^verbatim>\<open>shared_ptr\<close>s of a connection: the loop's slots hold the lambdas of \<^verbatim>\<open>client::init\<close>, which
  capture the client; the client's \<^verbatim>\<open>dispatch\<close> captures the session (for HTTP, the \<^verbatim>\<open>httpsession\<close>,
  which has the session and the server); the session has the client. An object goes when nothing points to
  it, and takes its pointers with it; \<open>collect\<close> does so as often as there are pointers.
\<close>

datatype obj = Loop | Client_obj | Session_obj | Http_session | Server_obj

type_synonym pointers = "(obj \<times> obj) list"

definition rooted :: "obj \<Rightarrow> bool" where
  "rooted x \<longleftrightarrow> x = Loop \<or> x = Server_obj"

definition pointed :: "pointers \<Rightarrow> obj \<Rightarrow> bool" where
  "pointed ps x \<longleftrightarrow> rooted x \<or> x \<in> snd ` set ps"

definition drop_dead :: "pointers \<Rightarrow> pointers" where
  "drop_dead ps = filter (\<lambda>(x, y). pointed ps x) ps"

definition collect :: "pointers \<Rightarrow> pointers" where
  "collect ps = (drop_dead ^^ length ps) ps"

definition msgserver_pointers :: pointers where
  "msgserver_pointers = [(Loop, Client_obj), (Loop, Client_obj), (Session_obj, Client_obj),
     (Client_obj, Session_obj), (Client_obj, Server_obj)]"

definition httpserver_pointers :: pointers where
  "httpserver_pointers = [(Loop, Client_obj), (Loop, Client_obj), (Session_obj, Client_obj),
     (Http_session, Session_obj), (Http_session, Server_obj), (Client_obj, Http_session)]"

text \<open>\<^verbatim>\<open>__clientclose\<close> empties the slots; \<^verbatim>\<open>check_valid\<close>, in any later send, drops the client.\<close>

definition loop_closed :: "pointers \<Rightarrow> pointers" where
  "loop_closed ps = collect (filter (\<lambda>(x, y). x \<noteq> Loop) ps)"

definition session_sent :: "pointers \<Rightarrow> pointers" where
  "session_sent ps = collect (filter (\<lambda>(x, y). x \<noteq> Session_obj) ps)"

text \<open>Client and session point to each other, so neither goes with the connection, and the session's
  heartbeat keeps its timer: they go with the first send afterwards. That of a message server's session
  is its heartbeat; an HTTP server gives its sessions none to send (\<^verbatim>\<open>oninit\<close> is not called), so when
  no response is outstanding each connection leaves its objects and its timer behind.\<close>

theorem closed_connection_lingers:
  "pointed (loop_closed msgserver_pointers) Session_obj" "pointed (loop_closed httpserver_pointers) Session_obj"
  "session_sent (loop_closed msgserver_pointers) = []" "\<not> pointed (session_sent (loop_closed httpserver_pointers)) Session_obj"
  by code_simp+

end
