(* ===== verification/Json.thy ===== *)
theory Json
  imports Prelude
begin

text \<open>
  \<^verbatim>\<open>src/src/json/json.h\<close>: a wrapper around cJSON, which is a parameter: what a call answers (a
  pointer, an integer, a text) is a function of the calls made before. The state is the list of these calls,
  with a note \<open>Own\<close> where a value takes a node to free it later. A wrapper is a value: an operation that
  changes it returns the new one. A null pointer is \<open>None\<close>; the numbers of JSON are of a type \<open>'d\<close>.
\<close>

subsection \<open>The library and the wrapper\<close>

datatype 'd jcall = Create_object | Create_array | Create_string string | Create_number 'd | Delete nat | Parse string
  | Print nat | Print_unformatted nat | Print_preallocated nat int bool
  | Add_string nat string string | Add_number nat string 'd | Add_item "nat option" "string option" "nat option" | Add_to_array "nat option" "nat option"
  | Get_item "nat option" string | Get_array_item nat int | Array_size nat
  | Is_array "nat option" | Is_bool nat | Is_true nat | Is_string nat | Is_number nat
  | Value_string nat | Value_int nat | Value_double nat | Node_name nat
  | Own nat

record 'd janswer =
  ja_ptr :: "nat option"
  ja_int :: int
  ja_text :: string
  ja_num :: 'd

type_synonym 'd cjson = "'d jcall list \<Rightarrow> 'd jcall \<Rightarrow> 'd janswer"

record json =
  j_json :: "nat option"
  j_root :: "nat option"

definition jcall :: "'d cjson \<Rightarrow> 'd jcall \<Rightarrow> ('d jcall list, 'd janswer) prog" where
  "jcall L c = (\<lambda>tr. Done (L tr c) (tr @ [c]))"

definition jdo :: "'d cjson \<Rightarrow> 'd jcall \<Rightarrow> ('d jcall list, unit) prog" where
  "jdo L c = bnd (jcall L c) (\<lambda>_. skip)"

definition jis :: "'d cjson \<Rightarrow> 'd jcall \<Rightarrow> ('d jcall list, bool) prog" where
  "jis L c = bnd (jcall L c) (\<lambda>a. ret (ja_int a \<noteq> 0))"

definition own :: "nat option \<Rightarrow> ('d jcall list, unit) prog" where
  "own p = (case p of None \<Rightarrow> skip | Some n \<Rightarrow> modify (\<lambda>tr. tr @ [Own n]))"

lemma jcall_runs [simp]:
  "jcall L c tr = Done (L tr c) (tr @ [c])" "jdo L c tr = Done () (tr @ [c])" "jis L c tr = Done (ja_int (L tr c) \<noteq> 0) (tr @ [c])"
  by (simp_all add: jcall_def jdo_def jis_def)

definition opt_list :: "'x option \<Rightarrow> 'x list" where
  "opt_list p = (case p of None \<Rightarrow> [] | Some n \<Rightarrow> [n])"

lemma opt_list_simps [simp]: "opt_list None = []" "opt_list (Some n) = [n]"
  by (simp_all add: opt_list_def)

lemma own_run [simp]: "own p tr = Done () (tr @ map Own (opt_list p))"
  by (cases p) (simp_all add: own_def)

lemma bnd_jis [simp]: "bnd (jis L c) f tr = f (ja_int (L tr c) \<noteq> 0) (tr @ [c])"
  by (rule bnd_Done) simp

subsection \<open>Construction and destruction\<close>

definition json_new :: "'d cjson \<Rightarrow> ('d jcall list, json) prog" where
  "json_new L = bnd (jcall L Create_object) (\<lambda>a. bnd (own (ja_ptr a)) (\<lambda>_. ret \<lparr>j_json = ja_ptr a, j_root = None\<rparr>))"

text \<open>\<^verbatim>\<open>json(_json, _root)\<close> sets \<^verbatim>\<open>m_root\<close> from \<^verbatim>\<open>m_json\<close>, not from its argument.\<close>

definition json_view :: "nat option \<Rightarrow> nat option \<Rightarrow> json" where
  "json_view p r = \<lparr>j_json = p, j_root = p\<rparr>"

text \<open>Moving: the new value and what is left of the old.\<close>

definition json_move :: "json \<Rightarrow> json \<times> json" where
  "json_move j = (j, \<lparr>j_json = None, j_root = None\<rparr>)"

definition drop_root :: "'d cjson \<Rightarrow> json \<Rightarrow> ('d jcall list, unit) prog" where
  "drop_root L j = (case (j_root j, j_json j) of (None, Some n) \<Rightarrow> jdo L (Delete n) | _ \<Rightarrow> skip)"

definition json_destroy :: "'d cjson \<Rightarrow> json \<Rightarrow> ('d jcall list, unit) prog" where
  "json_destroy L j = drop_root L j"

definition json_parse :: "'d cjson \<Rightarrow> string \<Rightarrow> json \<Rightarrow> ('d jcall list, json) prog" where
  "json_parse L t j =
     bnd (drop_root L j) (\<lambda>_.
       bnd (jcall L (Parse t)) (\<lambda>a.
         bnd (if j_root j = None then own (ja_ptr a) else skip) (\<lambda>_. ret (j\<lparr>j_json := ja_ptr a\<rparr>))))"

subsection \<open>Printing and setting\<close>

definition json_serialize :: "'d cjson \<Rightarrow> json \<Rightarrow> ('d jcall list, string option) prog" where
  "json_serialize L j =
     (case j_json j of None \<Rightarrow> ret None | Some n \<Rightarrow> bnd (jcall L (Print n)) (\<lambda>a. ret (Some (ja_text a))))"

definition json_print :: "'d cjson \<Rightarrow> json \<Rightarrow> ('d jcall list, string option) prog" where
  "json_print L j =
     (case j_json j of None \<Rightarrow> ret None | Some n \<Rightarrow> bnd (jcall L (Print_unformatted n)) (\<lambda>a. ret (Some (ja_text a))))"

definition json_print_to :: "'d cjson \<Rightarrow> int \<Rightarrow> bool \<Rightarrow> json \<Rightarrow> ('d jcall list, bool) prog" where
  "json_print_to L k formated j =
     (case j_json j of None \<Rightarrow> ret False | Some n \<Rightarrow> jis L (Print_preallocated n k formated))"

definition json_set :: "'d cjson \<Rightarrow> string \<Rightarrow> string \<Rightarrow> json \<Rightarrow> ('d jcall list, unit) prog" where
  "json_set L item v j = (case j_json j of None \<Rightarrow> skip | Some n \<Rightarrow> jdo L (Add_string n item v))"

definition json_set_number :: "'d cjson \<Rightarrow> string \<Rightarrow> 'd \<Rightarrow> json \<Rightarrow> ('d jcall list, unit) prog" where
  "json_set_number L item v j = (case j_json j of None \<Rightarrow> skip | Some n \<Rightarrow> jdo L (Add_number n item v))"

subsection \<open>Access\<close>

text \<open>\<^verbatim>\<open>operator[](const char *)\<close>: looks an item up, adding an empty object when there is none.\<close>

definition json_item :: "'d cjson \<Rightarrow> string \<Rightarrow> json \<Rightarrow> ('d jcall list, json) prog" where
  "json_item L item j =
     bnd (jcall L (Get_item (j_json j) item)) (\<lambda>a.
       if ja_ptr a \<noteq> None then ret (json_view (ja_ptr a) (j_json j))
       else bnd (jcall L Create_object) (\<lambda>b.
         bnd (if ja_ptr b \<noteq> None then jdo L (Add_item (j_json j) (Some item) (ja_ptr b)) else skip) (\<lambda>_. ret (json_view (ja_ptr b) (j_json j)))))"

definition json_asBool :: "'d cjson \<Rightarrow> json \<Rightarrow> ('d jcall list, bool) prog" where
  "json_asBool L j =
     (case j_json j of None \<Rightarrow> ret False
      | Some n \<Rightarrow> bnd (jis L (Is_bool n)) (\<lambda>b. if b then jis L (Is_true n) else ret False))"

definition json_asString :: "'d cjson \<Rightarrow> json \<Rightarrow> ('d jcall list, string) prog" where
  "json_asString L j =
     (case j_json j of None \<Rightarrow> ret []
      | Some n \<Rightarrow> bnd (jis L (Is_string n)) (\<lambda>b.
          if b then bnd (jcall L (Value_string n)) (\<lambda>a. ret (ja_text a)) else ret []))"

definition json_asInt :: "'d cjson \<Rightarrow> json \<Rightarrow> ('d jcall list, int) prog" where
  "json_asInt L j =
     (case j_json j of None \<Rightarrow> ret 0
      | Some n \<Rightarrow> bnd (jis L (Is_number n)) (\<lambda>b.
          if b then bnd (jcall L (Value_int n)) (\<lambda>a. ret (ja_int a)) else ret 0))"

definition json_asDouble :: "'d cjson \<Rightarrow> 'd \<Rightarrow> json \<Rightarrow> ('d jcall list, 'd) prog" where
  "json_asDouble L zero j =
     (case j_json j of None \<Rightarrow> ret zero
      | Some n \<Rightarrow> bnd (jis L (Is_number n)) (\<lambda>b.
          if b then bnd (jcall L (Value_double n)) (\<lambda>a. ret (ja_num a)) else ret zero))"

definition json_name :: "'d cjson \<Rightarrow> json \<Rightarrow> ('d jcall list, string) prog" where
  "json_name L j = (case j_json j of None \<Rightarrow> ret [] | Some n \<Rightarrow> bnd (jcall L (Node_name n)) (\<lambda>a. ret (ja_text a)))"

definition json_getArraySize :: "'d cjson \<Rightarrow> json \<Rightarrow> ('d jcall list, int) prog" where
  "json_getArraySize L j =
     (case j_json j of None \<Rightarrow> ret 0
      | Some n \<Rightarrow> bnd (jis L (Is_array (Some n))) (\<lambda>b.
          if b then bnd (jcall L (Array_size n)) (\<lambda>a. ret (ja_int a)) else ret 0))"

definition json_at :: "'d cjson \<Rightarrow> int \<Rightarrow> json \<Rightarrow> ('d jcall list, json) prog" where
  "json_at L pos j =
     (case j_json j of
        Some n \<Rightarrow>
          if 0 \<le> pos then
            bnd (jcall L (Array_size n)) (\<lambda>a.
              if pos < ja_int a then bnd (jcall L (Get_array_item n pos)) (\<lambda>b. ret (json_view (ja_ptr b) (Some n)))
              else ret (json_view None (Some n)))
          else ret (json_view None (Some n))
      | None \<Rightarrow> ret (json_view None None))"

subsection \<open>Arrays\<close>

definition json_createArray :: "'d cjson \<Rightarrow> json \<Rightarrow> ('d jcall list, json) prog" where
  "json_createArray L j =
     (let fresh = bnd (jcall L Create_array) (\<lambda>a.
            bnd (if j_root j = None then own (ja_ptr a) else skip) (\<lambda>_. ret (j\<lparr>j_json := ja_ptr a\<rparr>)))
      in case j_json j of
           None \<Rightarrow> fresh
         | Some n \<Rightarrow> bnd (jis L (Is_array (Some n))) (\<lambda>b.
             if b then ret j else bnd (jdo L (Delete n)) (\<lambda>_. fresh)))"

definition json_createArray_item :: "'d cjson \<Rightarrow> bool \<Rightarrow> string option \<Rightarrow> json \<Rightarrow> ('d jcall list, json) prog" where
  "json_createArray_item L nd item j =
     bnd (assertion nd (item \<noteq> None)) (\<lambda>_.
       bnd (case j_json j of
              None \<Rightarrow> bnd (jcall L Create_object) (\<lambda>a.
                bnd (if j_root j = None then own (ja_ptr a) else skip) (\<lambda>_. ret (j\<lparr>j_json := ja_ptr a\<rparr>)))
            | Some n \<Rightarrow> ret j) (\<lambda>j.
         bnd (jcall L Create_array) (\<lambda>b.
           bnd (jdo L (Add_item (j_json j) item (ja_ptr b))) (\<lambda>_. ret j))))"

text \<open>\<^verbatim>\<open>push_back(json &)\<close>: the element's node goes to the array; the answer is what is left of the
  element.\<close>

definition json_push_json :: "'d cjson \<Rightarrow> json \<Rightarrow> json \<Rightarrow> ('d jcall list, json) prog" where
  "json_push_json L e j =
     bnd (jis L (Is_array (j_json j))) (\<lambda>b.
       if b then bnd (jdo L (Add_to_array (j_json j) (j_json e))) (\<lambda>_. ret \<lparr>j_json = None, j_root = None\<rparr>)
       else ret e)"

definition json_push_node :: "'d cjson \<Rightarrow> nat option \<Rightarrow> json \<Rightarrow> ('d jcall list, unit) prog" where
  "json_push_node L p j =
     bnd (jis L (Is_array (j_json j))) (\<lambda>b. if b then jdo L (Add_to_array (j_json j) p) else skip)"

definition json_push_string :: "'d cjson \<Rightarrow> string \<Rightarrow> json \<Rightarrow> ('d jcall list, unit) prog" where
  "json_push_string L t j = bnd (jcall L (Create_string t)) (\<lambda>a. json_push_node L (ja_ptr a) j)"

definition json_push_number :: "'d cjson \<Rightarrow> 'd \<Rightarrow> json \<Rightarrow> ('d jcall list, unit) prog" where
  "json_push_number L d j = bnd (jcall L (Create_number d)) (\<lambda>a. json_push_node L (ja_ptr a) j)"


subsection \<open>Who frees what\<close>

text \<open>Uses of a wrapper that read or add; uses of a value that owns its node, items and elements of it
  included, which are destroyed after one use.\<close>

datatype 'd jop = Set string string | Set_number string 'd | Push_string string | Push_number 'd
  | Serialize | Print_it | As_bool | As_string | As_int | Name | Array_length

datatype 'd jown = On "'d jop" | On_item string "'d jop" | On_element int "'d jop" | Parse_text string
  | To_array | Add_array string

fun run_jop :: "'d cjson \<Rightarrow> 'd jop \<Rightarrow> json \<Rightarrow> ('d jcall list, unit) prog" where
  "run_jop L (Set i v) j = json_set L i v j"
| "run_jop L (Set_number i d) j = json_set_number L i d j"
| "run_jop L (Push_string t) j = json_push_string L t j"
| "run_jop L (Push_number d) j = json_push_number L d j"
| "run_jop L Serialize j = bnd (json_serialize L j) (\<lambda>_. skip)"
| "run_jop L Print_it j = bnd (json_print L j) (\<lambda>_. skip)"
| "run_jop L As_bool j = bnd (json_asBool L j) (\<lambda>_. skip)"
| "run_jop L As_string j = bnd (json_asString L j) (\<lambda>_. skip)"
| "run_jop L As_int j = bnd (json_asInt L j) (\<lambda>_. skip)"
| "run_jop L Name j = bnd (json_name L j) (\<lambda>_. skip)"
| "run_jop L Array_length j = bnd (json_getArraySize L j) (\<lambda>_. skip)"

fun run_jown :: "'d cjson \<Rightarrow> bool \<Rightarrow> 'd jown \<Rightarrow> json \<Rightarrow> ('d jcall list, json) prog" where
  "run_jown L nd (On op) j = bnd (run_jop L op j) (\<lambda>_. ret j)"
| "run_jown L nd (On_item i op) j =
     bnd (json_item L i j) (\<lambda>v. bnd (run_jop L op v) (\<lambda>_. bnd (json_destroy L v) (\<lambda>_. ret j)))"
| "run_jown L nd (On_element k op) j =
     bnd (json_at L k j) (\<lambda>v. bnd (run_jop L op v) (\<lambda>_. bnd (json_destroy L v) (\<lambda>_. ret j)))"
| "run_jown L nd (Parse_text t) j = json_parse L t j"
| "run_jown L nd To_array j = json_createArray L j"
| "run_jown L nd (Add_array i) j = json_createArray_item L nd (Some i) j"

primrec run_jowns :: "'d cjson \<Rightarrow> bool \<Rightarrow> 'd jown list \<Rightarrow> json \<Rightarrow> ('d jcall list, json) prog" where
  "run_jowns L nd [] j = ret j"
| "run_jowns L nd (x # xs) j = bnd (run_jown L nd x j) (run_jowns L nd xs)"

fun owned :: "'d jcall list \<Rightarrow> nat list" where
  "owned [] = []"
| "owned (Own n # tr) = n # owned tr"
| "owned (_ # tr) = owned tr"

fun freed :: "'d jcall list \<Rightarrow> nat list" where
  "freed [] = []"
| "freed (Delete n # tr) = n # freed tr"
| "freed (_ # tr) = freed tr"

lemma owned_append [simp]: "owned (xs @ ys) = owned xs @ owned ys"
  by (induction xs rule: owned.induct) simp_all

lemma freed_append [simp]: "freed (xs @ ys) = freed xs @ freed ys"
  by (induction xs rule: freed.induct) simp_all

text \<open>The nodes taken so far are those freed so far and, last, the one the wrapper has.\<close>

definition has :: "nat list \<Rightarrow> 'd jcall list \<Rightarrow> bool" where
  "has ns tr \<longleftrightarrow> owned tr = freed tr @ ns"

definition node :: "json \<Rightarrow> nat list" where
  "node j = opt_list (j_json j)"

lemma own_notes [simp]: "owned (map Own ns) = ns" "freed (map Own ns) = []"
  by (induction ns) simp_all

lemma keeps_jcall: "owned [c] = [] \<Longrightarrow> freed [c] = [] \<Longrightarrow> keeps (has ns) (jcall L c)"
  by (simp add: keeps_def jcall_def has_def)

lemma keeps_jdo: "owned [c] = [] \<Longrightarrow> freed [c] = [] \<Longrightarrow> keeps (has ns) (jdo L c)"
  unfolding jdo_def by (intro kept keeps_jcall)

lemma keeps_jis: "owned [c] = [] \<Longrightarrow> freed [c] = [] \<Longrightarrow> keeps (has ns) (jis L c)"
  unfolding jis_def by (intro kept keeps_jcall)

lemmas json_kept = keeps_bnd keeps_basic keeps_if keeps_jcall keeps_jdo keeps_jis

lemma keeps_push_node: "keeps (has ns) (json_push_node L p j)"
  unfolding json_push_node_def by (intro json_kept) simp_all

lemma keeps_jop: "keeps (has ns) (run_jop L op j)"
  by (cases op; cases "j_json j")
     (auto simp: json_set_def json_set_number_def json_push_string_def json_push_number_def json_serialize_def
        json_print_def json_asBool_def json_asString_def json_asInt_def json_name_def json_getArraySize_def
        intro!: json_kept keeps_push_node)

text \<open>A view has no node to free, whatever it shows.\<close>

lemma view_destroy [simp]: "json_destroy L (json_view p r) = skip"
  by (simp add: json_destroy_def drop_root_def json_view_def split: option.splits)

lemma item_is_view:
  "has ns tr \<Longrightarrow> \<exists>p r tr'. json_item L i j tr = Done (json_view p r) tr' \<and> has ns tr'"
  by (auto simp: json_item_def has_def)

lemma element_is_view:
  "has ns tr \<Longrightarrow> \<exists>p r tr'. json_at L k j tr = Done (json_view p r) tr' \<and> has ns tr'"
  by (cases "j_json j") (auto simp: json_at_def has_def)

lemma keeps_on_view:
  assumes "\<And>tr. has ns tr \<Longrightarrow> \<exists>p r tr'. m tr = Done (json_view p r) tr' \<and> has ns tr'" "has ns tr"
  shows "\<exists>tr'. bnd m (\<lambda>v. bnd (run_jop L op v) (\<lambda>_. bnd (json_destroy L v) (\<lambda>_. ret j))) tr = Done j tr' \<and> has ns tr'"
proof -
  obtain p r t1 where 1: "m tr = Done (json_view p r) t1" "has ns t1" using assms by blast
  obtain u t2 where "run_jop L op (json_view p r) t1 = Done u t2" "has ns t2"
    using keepsD [OF keeps_jop 1(2)] by blast
  with 1 show ?thesis by simp
qed

text \<open>Each use leaves an owner that owns, and the account of its node right.\<close>

lemma owner_step:
  assumes "j_root j = None" "has (node j) tr"
  shows "\<exists>j' tr'. run_jown L nd x j tr = Done j' tr' \<and> j_root j' = None \<and> has (node j') tr'"
proof (cases x)
  case (On op)
  obtain u t1 where "run_jop L op j tr = Done u t1" "has (node j) t1"
    using keepsD [OF keeps_jop assms(2)] by blast
  then show ?thesis using On assms(1) by simp
next
  case (On_item i op)
  then show ?thesis using keeps_on_view [of "node j" "json_item L i j", OF item_is_view assms(2), of L op j] assms(1) by auto
next
  case (On_element k op)
  then show ?thesis using keeps_on_view [of "node j" "json_at L k j", OF element_is_view assms(2), of L op j] assms(1) by auto
next
  case (Parse_text t)
  then show ?thesis using assms
    by (auto simp: json_parse_def drop_root_def has_def node_def split: option.splits)
next
  case To_array
  then show ?thesis using assms
    by (auto simp: json_createArray_def has_def node_def Let_def split: option.splits)
next
  case (Add_array i)
  then show ?thesis using assms
    by (auto simp: json_createArray_item_def has_def node_def split: option.splits)
qed

lemma owner_run:
  "j_root j = None \<Longrightarrow> has (node j) tr \<Longrightarrow>
     \<exists>j' tr'. run_jowns L nd xs j tr = Done j' tr' \<and> j_root j' = None \<and> has (node j') tr'"
proof (induction xs arbitrary: j tr)
  case (Cons x xs)
  obtain j1 t1 where "run_jown L nd x j tr = Done j1 t1" "j_root j1 = None" "has (node j1) t1"
    using owner_step [OF Cons.prems] by blast
  then show ?case using Cons.IH by simp
qed simp


subsection \<open>What goes wrong with views\<close>

text \<open>Parsing into a view takes a node that nothing frees.\<close>

theorem parse_into_view_leaks:
  assumes "j_root v \<noteq> None"
  shows "bnd (json_parse L t v) (json_destroy L) tr = Done () (tr @ [Parse t])"
  using assms by (auto simp: json_parse_def drop_root_def json_destroy_def split: option.splits)

text \<open>\<^verbatim>\<open>createArray\<close> on an item that is no array frees a node that is still in the tree, which the
  tree's owner frees again.\<close>

theorem createArray_frees_attached_node:
  assumes "j_json j = Some n" "ja_ptr (L tr (Get_item (Some n) i)) = Some p"
    "ja_int (L (tr @ [Get_item (Some n) i]) (Is_array (Some p))) = 0"
  shows "\<exists>v. bnd (json_item L i j) (json_createArray L) tr =
    Done v (tr @ [Get_item (Some n) i, Is_array (Some p), Delete p, Create_array])"
  using assms
  by (simp add: json_item_def json_createArray_def json_view_def Let_def)

text \<open>A value pushed to something that is no array is made and lost.\<close>

theorem push_to_no_array_leaks:
  assumes "ja_int (L (tr @ [Create_string t]) (Is_array (j_json j))) = 0"
  shows "json_push_string L t j tr = Done () (tr @ [Create_string t, Is_array (j_json j)])"
  using assms by (simp add: json_push_string_def json_push_node_def)

end
