(* ===== verification/Base64.thy ===== *)
theory Base64
  imports Prelude
begin

text \<open>
  \<^verbatim>\<open>src/src/base64.cpp\<close>: the encode and decode tables, the two C loops with
  their index variables and output array (a write outside the array is \<open>Ub\<close>),
  and the two \<^verbatim>\<open>std::string\<close> wrappers of \<^verbatim>\<open>base64.h\<close>. Lengths are
  naturals: the \<^verbatim>\<open>unsigned int\<close> arithmetic of the size macros does not wrap
  below \<open>2 ^ 29\<close> input bytes. The specification \<open>b64_spec\<close> is the grouping of
  RFC 4648: three bytes are one number of 24 bits, written as four digits base 64.
\<close>

subsection \<open>Tables\<close>

definition base64en :: "byte list" where
  "base64en =
    [65, 66, 67, 68, 69, 70, 71, 72, 73, 74, 75, 76, 77, 78, 79, 80, 81, 82, 83, 84, 85, 86, 87,
     88, 89, 90, 97, 98, 99, 100, 101, 102, 103, 104, 105, 106, 107, 108, 109, 110, 111, 112,
     113, 114, 115, 116, 117, 118, 119, 120, 121, 122, 48, 49, 50, 51, 52, 53, 54, 55, 56, 57,
     43, 47]"

definition base64de :: "byte list" where
  "base64de =
    [255, 255, 255, 255, 255, 255, 255, 255,
     255, 255, 255, 255, 255, 255, 255, 255,
     255, 255, 255, 255, 255, 255, 255, 255,
     255, 255, 255, 255, 255, 255, 255, 255,
     255, 255, 255, 255, 255, 255, 255, 255,
     255, 255, 255, 62, 255, 255, 255, 63,
     52, 53, 54, 55, 56, 57, 58, 59,
     60, 61, 255, 255, 255, 255, 255, 255,
     255, 0, 1, 2, 3, 4, 5, 6,
     7, 8, 9, 10, 11, 12, 13, 14,
     15, 16, 17, 18, 19, 20, 21, 22,
     23, 24, 25, 255, 255, 255, 255, 255,
     255, 26, 27, 28, 29, 30, 31, 32,
     33, 34, 35, 36, 37, 38, 39, 40,
     41, 42, 43, 44, 45, 46, 47, 48,
     49, 50, 51, 255, 255, 255, 255, 255]"

definition BASE64_PAD :: byte where "BASE64_PAD = 61"
definition BASE64DE_FIRST :: byte where "BASE64DE_FIRST = 43"
definition BASE64DE_LAST :: byte where "BASE64DE_LAST = 122"

definition BASE64_ENCODE_OUT_SIZE :: "nat \<Rightarrow> nat" where
  "BASE64_ENCODE_OUT_SIZE s = ((s + 2) div 3) * 4 + 1"

definition BASE64_DECODE_OUT_SIZE :: "nat \<Rightarrow> nat" where
  "BASE64_DECODE_OUT_SIZE s = (s div 4) * 3"

subsection \<open>The loops\<close>

definition put :: "nat \<Rightarrow> byte \<Rightarrow> byte list \<Rightarrow> byte list res" where
  "put j v out = (if j < length out then Inr (out[j := v]) else Inl Ub)"

text \<open>\<^verbatim>\<open>out[j] |= v\<close>\<close>

definition put_or :: "nat \<Rightarrow> byte \<Rightarrow> byte list \<Rightarrow> byte list res" where
  "put_or j v out = (if j < length out then Inr (out[j := out ! j OR v]) else Inl Ub)"

definition en :: "byte \<Rightarrow> byte" where
  "en x = base64en ! unat x"

text \<open>One pass of the loop body: state \<open>s\<close>, last byte \<open>l\<close>, write index \<open>j\<close>, array.\<close>

primrec encode_loop :: "byte list \<Rightarrow> nat \<Rightarrow> byte \<Rightarrow> nat \<Rightarrow> byte list \<Rightarrow>
    (nat \<times> byte \<times> nat \<times> byte list) res" where
  "encode_loop [] s l j out = Inr (s, l, j, out)"
| "encode_loop (c # cs) s l j out =
     (if s = 0 then
        bind_res (put j (en (drop_bit 2 c AND 0x3F)) out)
          (\<lambda>out. encode_loop cs 1 c (j + 1) out)
      else if s = 1 then
        bind_res (put j (en (push_bit 4 (l AND 0x3) OR (drop_bit 4 c AND 0xF))) out)
          (\<lambda>out. encode_loop cs 2 c (j + 1) out)
      else if s = 2 then
        bind_res (put j (en (push_bit 2 (l AND 0xF) OR (drop_bit 6 c AND 0x3))) out) (\<lambda>out.
          bind_res (put (j + 1) (en (c AND 0x3F)) out)
            (\<lambda>out. encode_loop cs 0 c (j + 2) out))
      else encode_loop cs s c j out)"

definition encode_finish :: "nat \<times> byte \<times> nat \<times> byte list \<Rightarrow> (nat \<times> byte list) res" where
  "encode_finish = (\<lambda>(s, l, j, out).
     bind_res
       (if s = 1 then
          bind_res (put j (en (push_bit 4 (l AND 0x3))) out) (\<lambda>out.
            bind_res (put (j + 1) BASE64_PAD out) (\<lambda>out.
              bind_res (put (j + 2) BASE64_PAD out) (\<lambda>out. Inr (j + 3, out))))
        else if s = 2 then
          bind_res (put j (en (push_bit 2 (l AND 0xF))) out) (\<lambda>out.
            bind_res (put (j + 1) BASE64_PAD out) (\<lambda>out. Inr (j + 2, out)))
        else Inr (j, out))
       (\<lambda>(j, out). bind_res (put j 0 out) (\<lambda>out. Inr (j, out))))"

definition base64_encode :: "byte list \<Rightarrow> byte list \<Rightarrow> (nat \<times> byte list) res" where
  "base64_encode inp out = bind_res (encode_loop inp 0 0 0 out) encode_finish"

primrec decode_loop :: "byte list \<Rightarrow> nat \<Rightarrow> nat \<Rightarrow> byte list \<Rightarrow> (nat \<times> byte list) res" where
  "decode_loop [] i j out = Inr (j, out)"
| "decode_loop (x # xs) i j out =
     (if x = BASE64_PAD then Inr (j, out)
      else if sint x < sint BASE64DE_FIRST \<or> sint BASE64DE_LAST < sint x then Inr (0, out)
      else
        let c = base64de ! unat x
        in if c = 255 then Inr (0, out)
           else if i mod 4 = 0 then
             bind_res (put j (push_bit 2 c AND 0xFF) out) (decode_loop xs (i + 1) j)
           else if i mod 4 = 1 then
             bind_res (put_or j (drop_bit 4 c AND 0x3) out) (\<lambda>out.
               bind_res (put (j + 1) (push_bit 4 (c AND 0xF)) out)
                 (decode_loop xs (i + 1) (j + 1)))
           else if i mod 4 = 2 then
             bind_res (put_or j (drop_bit 2 c AND 0xF) out) (\<lambda>out.
               bind_res (put (j + 1) (push_bit 6 (c AND 0x3)) out)
                 (decode_loop xs (i + 1) (j + 1)))
           else
             bind_res (put_or j c out) (decode_loop xs (i + 1) (j + 1)))"

definition base64_decode :: "byte list \<Rightarrow> byte list \<Rightarrow> (nat \<times> byte list) res" where
  "base64_decode inp out =
     (if length inp mod 4 \<noteq> 0 then Inr (0, out) else decode_loop inp 0 0 out)"

subsection \<open>The string wrappers\<close>

definition encode :: "byte list \<Rightarrow> byte list res" where
  "encode buf =
     bind_res (base64_encode buf (replicate (BASE64_ENCODE_OUT_SIZE (length buf)) 0))
       (\<lambda>(n, r). Inr r)"

definition decode :: "byte list \<Rightarrow> byte list res" where
  "decode buf =
     bind_res (base64_decode buf (replicate (BASE64_DECODE_OUT_SIZE (length buf)) 0))
       (\<lambda>(n, r). Inr r)"

subsection \<open>The specification: groups of 24 bits\<close>

definition digit :: "nat \<Rightarrow> nat \<Rightarrow> byte" where
  "digit n k = base64en ! (n div 64 ^ k mod 64)"

definition group :: "byte \<Rightarrow> byte \<Rightarrow> byte \<Rightarrow> nat" where
  "group a b c = unat a * 65536 + unat b * 256 + unat c"

fun b64_spec :: "byte list \<Rightarrow> byte list" where
  "b64_spec [] = []"
| "b64_spec [a] = [digit (group a 0 0) 3, digit (group a 0 0) 2, 61, 61]"
| "b64_spec [a, b] = [digit (group a b 0) 3, digit (group a b 0) 2, digit (group a b 0) 1, 61]"
| "b64_spec (a # b # c # xs) =
     [digit (group a b c) 3, digit (group a b c) 2, digit (group a b c) 1, digit (group a b c) 0]
       @ b64_spec xs"

lemma length_b64_spec: "length (b64_spec xs) = 4 * ((length xs + 2) div 3)"
proof (induction xs rule: b64_spec.induct)
  case (4 a b c xs)
  then show ?case using div_add_self1 [of 3 "length xs + 2"] by simp
qed simp_all

subsection \<open>Bytes and sextets\<close>

lemma unat_byte: "unat (x :: byte) < 256"
  using unsigned_less [of x] by simp

lemma and_masks:
  "(x::nat) AND 3 = x mod 4" "x AND 15 = x mod 16" "x AND 63 = x mod 64" "x AND 255 = x mod 256"
  using take_bit_eq_mask [of 2 x] take_bit_eq_mask [of 4 x] take_bit_eq_mask [of 6 x]
    take_bit_eq_mask [of 8 x]
  by (simp_all add: mask_eq_exp_minus_1 take_bit_eq_mod)

lemmas byte_arith = unsigned_and_eq and_masks unsigned_drop_bit_eq unsigned_push_bit_eq
  drop_bit_eq_div [where 'a = nat] push_bit_eq_mult [where 'a = nat] take_bit_eq_mod [where 'a = nat]

lemma unat_mods:
  "unat (a AND 0x3 :: byte) = unat a mod 4" "unat (a AND 0xF :: byte) = unat a mod 16"
  "unat (a AND 0x3F :: byte) = unat a mod 64" "unat (a AND 0xFF :: byte) = unat a"
  using unat_byte [of a] by (simp_all add: byte_arith)

lemma unat_drop: "unat (drop_bit n a :: byte) = unat a div 2 ^ n"
  using unat_byte [of a] by (simp only: byte_arith) simp

lemma unat_push:
  assumes "unat x * 2 ^ n < 256"
  shows "unat (push_bit n x :: byte) = unat x * 2 ^ n"
  using assms by (simp only: byte_arith) simp

lemma unat_push_or:
  assumes "unat x * 2 ^ n < 256" "unat y < 2 ^ n"
  shows "unat (push_bit n x OR y :: byte) = unat x * 2 ^ n + unat y"
proof -
  have y: "take_bit n (unat y) = unat y" using assms(2) by (simp add: take_bit_nat_eq_self)
  have "push_bit n (unat x) AND take_bit n (unat y) = 0"
    by (rule bit_eqI) (simp only: bit_and_iff bit_push_bit_iff bit_take_bit_iff bit_0_eq, auto)
  then have "unat x * 2 ^ n AND unat y = 0"
    by (simp only: y push_bit_eq_mult [where 'a = nat])
  then show ?thesis
    by (simp only: unsigned_or_eq unat_push [OF assms(1)] disjunctive_add_eq_or)
qed

lemma mod_radix:
  assumes "s < (k::nat)"
  shows "(b * k + s) mod (m * k) = b mod m * k + s"
proof -
  have "(b * k + s) mod (k * m) = k * ((b * k + s) div k mod m) + (b * k + s) mod k"
    by (rule mod_mult2_eq)
  then show ?thesis using assms by (simp add: mult.commute)
qed
lemma digits_of_group:
  assumes "b < 256" "c < (256::nat)"
  shows "(a * 65536 + b * 256 + c) div 262144 = a div 4"
    and "(a * 65536 + b * 256 + c) div 4096 mod 64 = a mod 4 * 16 + b div 16"
    and "(a * 65536 + b * 256 + c) div 64 mod 64 = b mod 16 * 4 + c div 64"
    and "(a * 65536 + b * 256 + c) mod 64 = c mod 64"
proof -
  define n where "n = a * 65536 + b * 256 + c"
  have low: "b * 256 + c < 65536" using assms by linarith
  have "n div 65536 = a" using low by (simp add: n_def)
  moreover have "n div 262144 = n div 65536 div 4" by (simp add: div_mult2_eq)
  ultimately show "(a * 65536 + b * 256 + c) div 262144 = a div 4" by (simp add: n_def)
  have n256: "n div 256 = a * 256 + b" using assms by (simp add: n_def)
  have "n div 4096 = n div 256 div 16" by (simp add: div_mult2_eq)
  also have "\<dots> = a * 16 + b div 16" by (simp add: n256)
  finally have "n div 4096 mod 64 = (a * 16 + b div 16) mod (4 * 16)" by simp
  also have "\<dots> = a mod 4 * 16 + b div 16" using assms by (intro mod_radix) simp
  finally show "(a * 65536 + b * 256 + c) div 4096 mod 64 = a mod 4 * 16 + b div 16" by (simp add: n_def)
  have "n div 64 = (a * 256 + b) * 4 + c div 64"
    using div_mult_self1 [of 64 c "a * 1024 + b * 4"] by (simp add: n_def algebra_simps)
  then have "n div 64 mod 64 = ((a * 256 + b) * 4 + c div 64) mod (16 * 4)" by simp
  also have "\<dots> = (a * 256 + b) mod 16 * 4 + c div 64" using assms by (intro mod_radix) simp
  also have "(a * 256 + b) mod 16 = b mod 16"
    using mod_mult_self1 [of b "a * 16" 16] by (simp add: add.commute mult.commute)
  finally show "(a * 65536 + b * 256 + c) div 64 mod 64 = b mod 16 * 4 + c div 64" by (simp add: n_def)
  have "a * 65536 + b * 256 + c = c + 64 * (a * 1024 + b * 4)" by simp
  then show "(a * 65536 + b * 256 + c) mod 64 = c mod 64" by (simp only: mod_mult_self2)
qed
text \<open>The digits the loop computes are the digits of the group.\<close>

lemma group_digits:
  "group a b c div 262144 = unat a div 4"
  "group a b c div 4096 mod 64 = unat a mod 4 * 16 + unat b div 16"
  "group a b c div 64 mod 64 = unat b mod 16 * 4 + unat c div 64"
  "group a b c mod 64 = unat c mod 64"
  unfolding group_def using digits_of_group [OF unat_byte unat_byte] by blast+

lemma sext3: "en (drop_bit 2 a AND 0x3F) = digit (group a b c) 3"
proof -
  have "unat a div 4 mod 64 = unat a div 4" using unat_byte [of a] by simp
  then show ?thesis by (simp add: en_def digit_def unat_mods unat_drop group_digits)
qed

lemma sext2:
  "en (push_bit 4 (a AND 0x3) OR (drop_bit 4 b AND 0xF)) = digit (group a b c) 2"
proof -
  have "unat b div 16 < 16" using unat_byte [of b] by simp
  then have "unat (push_bit 4 (a AND 0x3) OR (drop_bit 4 b AND 0xF)) = unat a mod 4 * 16 + unat b div 16"
    by (subst unat_push_or) (simp_all only: unat_mods unat_drop, simp_all)
  then show ?thesis by (simp add: en_def digit_def group_digits)
qed

lemma sext1:
  "en (push_bit 2 (b AND 0xF) OR (drop_bit 6 c AND 0x3)) = digit (group a b c) 1"
proof -
  have "unat c div 64 < 4" using unat_byte [of c] by simp
  then have "unat (push_bit 2 (b AND 0xF) OR (drop_bit 6 c AND 0x3)) = unat b mod 16 * 4 + unat c div 64"
    by (subst unat_push_or) (simp_all only: unat_mods unat_drop, simp_all)
  then show ?thesis by (simp add: en_def digit_def group_digits)
qed

lemma sext0: "en (c AND 0x3F) = digit (group a b c) 0"
  by (simp add: en_def digit_def unat_mods group_digits)

lemma sext2_pad: "en (push_bit 4 (a AND 0x3)) = digit (group a 0 0) 2"
  using sext2 [of a 0 0] by simp

lemma sext1_pad: "en (push_bit 2 (b AND 0xF)) = digit (group a b 0) 1"
  using sext1 [of b 0 a] by simp

subsection \<open>The encoder writes the specification\<close>

text \<open>The loop body over the digits of the group the bytes belong to.\<close>

lemma encode_loop_digits:
  "encode_loop (a # cs) 0 l j out =
     bind_res (put j (digit (group a b c) 3) out) (encode_loop cs (Suc 0) a (Suc j))"
  "encode_loop (b # cs) (Suc 0) a j out =
     bind_res (put j (digit (group a b c) 2) out) (encode_loop cs 2 b (Suc j))"
  "encode_loop (c # cs) 2 b j out =
     bind_res (put j (digit (group a b c) 1) out) (\<lambda>out.
       bind_res (put (Suc j) (digit (group a b c) 0) out) (encode_loop cs 0 c (Suc (Suc j))))"
  unfolding encode_loop.simps sext3 [of a b c] sext2 [of a b c] sext1 [of b c a] sext0 [of c a b]
  by simp_all

lemma encode_finish_digits:
  "encode_finish (0, l, j, out) = bind_res (put j 0 out) (\<lambda>out. Inr (j, out))"
  "encode_finish (Suc 0, l, j, out) =
     bind_res (put j (digit (group l 0 0) 2) out) (\<lambda>out.
       bind_res (put (Suc j) 61 out) (\<lambda>out.
         bind_res (put (Suc (Suc j)) 61 out) (\<lambda>out.
           bind_res (put (Suc (Suc (Suc j))) 0 out) (\<lambda>out. Inr (Suc (Suc (Suc j)), out)))))"
  "encode_finish (2, l, j, out) =
     bind_res (put j (digit (group a l 0) 1) out) (\<lambda>out.
       bind_res (put (Suc j) 61 out) (\<lambda>out.
         bind_res (put (Suc (Suc j)) 0 out) (\<lambda>out. Inr (Suc (Suc j), out))))"
  unfolding encode_finish_def prod.case sext2_pad sext1_pad [of l a] BASE64_PAD_def
  by (simp_all add: bind_res_assoc numeral_eq_Suc)

declare encode_loop.simps [simp del]

lemma encode_loop_Nil [simp]: "encode_loop [] s l j out = Inr (s, l, j, out)"
  by (simp add: encode_loop.simps)

text \<open>A write at a known place of the array, and then the rest of the computation.\<close>

lemma bind_put:
  "k < length ys \<Longrightarrow> bind_res (put (length xs + k) v (xs @ ys)) f = f (xs @ ys[k := v])"
  by (simp add: put_def list_update_append)

lemmas bind_put_at = bind_put [of 0, simplified] bind_put [of "Suc 0", simplified]
  bind_put [of "Suc (Suc 0)", simplified] bind_put [of "Suc (Suc (Suc 0))", simplified]
  bind_put [of "Suc (Suc (Suc (Suc 0)))", simplified]

lemma encode_from:
  assumes "length (b64_spec xs) < length rest"
  shows "bind_res (encode_loop xs 0 l (length pre) (pre @ rest)) encode_finish =
    Inr (length (pre @ b64_spec xs), pre @ b64_spec xs @ 0 # drop (Suc (length (b64_spec xs))) rest)"
  using assms
proof (induction xs arbitrary: l pre rest rule: b64_spec.induct)
  case 1
  then show ?case by (cases rest) (simp_all add: encode_finish_digits bind_put_at)
next
  case (2 a)
  then obtain r0 r1 r2 r3 r4 rest' where "rest = r0 # r1 # r2 # r3 # r4 # rest'"
    by (auto simp: less_eq_Suc_le Suc_le_length_iff)
  then show ?case
    by (simp add: encode_loop_digits(1) [of a _ _ _ _ 0 0] encode_finish_digits bind_put_at)
next
  case (3 a b)
  then obtain r0 r1 r2 r3 r4 rest' where "rest = r0 # r1 # r2 # r3 # r4 # rest'"
    by (auto simp: less_eq_Suc_le Suc_le_length_iff)
  then show ?case
    by (simp add: encode_loop_digits(1) [of a _ _ _ _ b 0] encode_loop_digits(2) [of b _ a _ _ 0]
        encode_finish_digits(3) [of b _ _ a] bind_put_at)
next
  case (4 a b c xs)
  let ?g = "group a b c"
  let ?ds = "[digit ?g 3, digit ?g 2, digit ?g 1, digit ?g 0]"
  from 4 obtain r0 r1 r2 r3 rest' where rest: "rest = r0 # r1 # r2 # r3 # rest'"
    and len: "length (b64_spec xs) < length rest'"
    by (auto simp: less_eq_Suc_le Suc_le_length_iff)
  have "bind_res (encode_loop (a # b # c # xs) 0 l (length pre) (pre @ rest)) encode_finish =
        bind_res (encode_loop xs 0 c (length (pre @ ?ds)) ((pre @ ?ds) @ rest')) encode_finish"
    by (simp add: rest encode_loop_digits(1) [of a _ _ _ _ b c] encode_loop_digits(2) [of b _ a _ _ c]
        encode_loop_digits(3) [of c _ b _ _ a] bind_put_at)
  then show ?case using "4.IH" [OF len, of c "pre @ ?ds"] by (simp add: rest)
qed

lemma base64_encode_spec:
  assumes "length (b64_spec xs) < length out"
  shows "base64_encode xs out =
    Inr (length (b64_spec xs), b64_spec xs @ 0 # drop (Suc (length (b64_spec xs))) out)"
  using encode_from [OF assms, of 0 "[]"] by (simp add: base64_encode_def)

lemma encode_spec: "encode xs = Inr (b64_spec xs @ [0])"
  using base64_encode_spec [of xs "replicate (BASE64_ENCODE_OUT_SIZE (length xs)) 0"]
  by (simp add: encode_def length_b64_spec BASE64_ENCODE_OUT_SIZE_def algebra_simps)

subsection \<open>The decoder inverts the specification\<close>

lemma tables_inverse:
  assumes "n < 64"
  shows "base64en ! n \<noteq> BASE64_PAD" "\<not> sint (base64en ! n) < sint BASE64DE_FIRST"
    "\<not> sint BASE64DE_LAST < sint (base64en ! n)" "base64de ! unat (base64en ! n) = word_of_nat n"
    "word_of_nat n \<noteq> (255 :: byte)"
proof -
  have "list_all (\<lambda>n. base64en ! n \<noteq> BASE64_PAD \<and> \<not> sint (base64en ! n) < sint BASE64DE_FIRST \<and>
      \<not> sint BASE64DE_LAST < sint (base64en ! n) \<and> base64de ! unat (base64en ! n) = word_of_nat n \<and>
      word_of_nat n \<noteq> (255 :: byte)) [0..<64]"
    by code_simp
  with assms show "base64en ! n \<noteq> BASE64_PAD" "\<not> sint (base64en ! n) < sint BASE64DE_FIRST"
    "\<not> sint BASE64DE_LAST < sint (base64en ! n)" "base64de ! unat (base64en ! n) = word_of_nat n"
    "word_of_nat n \<noteq> (255 :: byte)"
    by (simp_all add: list_all_iff)
qed

definition sextet :: "nat \<Rightarrow> nat \<Rightarrow> byte" where
  "sextet n k = word_of_nat (n div 64 ^ k mod 64)"

lemma unat_sextet: "unat (sextet n k) = n div 64 ^ k mod 64"
  by (simp add: sextet_def unat_of_nat)

lemma decode_loop_pad [simp]: "decode_loop (61 # xs) i j out = Inr (j, out)"
  by (simp add: BASE64_PAD_def)

text \<open>The parts of the bytes that each sextet carries.\<close>

definition hi_a :: "byte \<Rightarrow> byte" where "hi_a c = push_bit 2 c AND 0xFF"
definition lo_a :: "byte \<Rightarrow> byte" where "lo_a c = drop_bit 4 c AND 0x3"
definition hi_b :: "byte \<Rightarrow> byte" where "hi_b c = push_bit 4 (c AND 0xF)"
definition lo_b :: "byte \<Rightarrow> byte" where "lo_b c = drop_bit 2 c AND 0xF"
definition hi_c :: "byte \<Rightarrow> byte" where "hi_c c = push_bit 6 (c AND 0x3)"

lemmas part_defs = hi_a_def lo_a_def hi_b_def lo_b_def hi_c_def

lemma decode_loop_digit:
  "decode_loop (digit n k # xs) i j out =
     (let c = sextet n k
      in if i mod 4 = 0 then
           bind_res (put j (hi_a c) out) (decode_loop xs (Suc i) j)
         else if i mod 4 = 1 then
           bind_res (put_or j (lo_a c) out) (\<lambda>out.
             bind_res (put (Suc j) (hi_b c) out) (decode_loop xs (Suc i) (Suc j)))
         else if i mod 4 = 2 then
           bind_res (put_or j (lo_b c) out) (\<lambda>out.
             bind_res (put (Suc j) (hi_c c) out) (decode_loop xs (Suc i) (Suc j)))
         else
           bind_res (put_or j c out) (decode_loop xs (Suc i) (Suc j)))"
proof -
  have n: "n div 64 ^ k mod 64 < 64" by simp
  show ?thesis
    unfolding decode_loop.simps digit_def sextet_def part_defs
    using tables_inverse [OF n] by (simp add: Let_def)
qed

text \<open>The bytes the decoder assembles from the sextets of a group.\<close>

lemma joined_a:
  "hi_a (sextet (group a b c) 3) OR lo_a (sextet (group a b c) 2) = a"
  unfolding part_defs
proof (rule unat_word_eqI)
  let ?x = "sextet (group a b c) 3" and ?y = "sextet (group a b c) 2"
  have x: "unat ?x = unat a div 4"
    using unat_byte [of a] by (simp add: unat_sextet group_digits)
  have y: "unat ?y = unat a mod 4 * 16 + unat b div 16"
    by (simp add: unat_sextet group_digits)
  have b: "unat b div 16 < 16" using unat_byte [of b] by simp
  have "push_bit 2 ?x AND 0xFF = push_bit 2 ?x"
    by (rule unat_word_eqI) (simp add: unat_mods)
  moreover have "unat (push_bit 2 ?x OR (drop_bit 4 ?y AND 0x3)) = unat a"
    using unat_byte [of a] b by (subst unat_push_or) (simp_all only: unat_mods unat_drop x y, simp_all)
  ultimately show "unat ((push_bit 2 ?x AND 0xFF) OR (drop_bit 4 ?y AND 0x3)) = unat a" by simp
qed

lemma joined_b:
  "hi_b (sextet (group a b c) 2) OR lo_b (sextet (group a b c) 1) = b"
  unfolding part_defs
proof (rule unat_word_eqI)
  let ?x = "sextet (group a b c) 2" and ?y = "sextet (group a b c) 1"
  have b: "unat b div 16 < 16" using unat_byte [of b] by simp
  have x: "unat ?x = unat a mod 4 * 16 + unat b div 16"
    by (simp add: unat_sextet group_digits)
  have y: "unat ?y = unat b mod 16 * 4 + unat c div 64"
    by (simp add: unat_sextet group_digits)
  have c: "unat c div 64 < 4" using unat_byte [of c] by simp
  show "unat (push_bit 4 (?x AND 0xF) OR (drop_bit 2 ?y AND 0xF)) = unat b"
    using b c by (subst unat_push_or) (simp_all only: unat_mods unat_drop x y, simp_all)
qed

lemma joined_c:
  "hi_c (sextet (group a b c) 1) OR sextet (group a b c) 0 = c"
  unfolding part_defs
proof (rule unat_word_eqI)
  let ?x = "sextet (group a b c) 1" and ?y = "sextet (group a b c) 0"
  have c: "unat c div 64 < 4" using unat_byte [of c] by simp
  have x: "unat (?x AND 0x3) = unat c div 64"
    using c by (simp add: unat_mods unat_sextet group_digits)
  have y: "unat ?y = unat c mod 64"
    by (simp add: unat_sextet group_digits)
  show "unat (push_bit 6 (?x AND 0x3) OR ?y) = unat c"
    using unat_byte [of c] c by (subst unat_push_or) (simp_all only: x y, simp_all)
qed

lemma joined_pad_b: "hi_b (sextet (group a 0 0) 2) = 0"
  using joined_b [of a 0 0] by (simp add: sextet_def group_def lo_b_def)

lemma joined_pad_c: "hi_c (sextet (group a b 0) 1) = 0"
proof -
  have "group a b 0 mod 64 = 0" by (simp add: group_digits)
  then have "sextet (group a b 0) 0 = 0" by (simp add: sextet_def)
  then show ?thesis using joined_c [of a b 0] by simp
qed

lemmas joined = joined_a joined_b [unfolded One_nat_def] joined_c [unfolded One_nat_def]
  joined_pad_b joined_pad_c [unfolded One_nat_def]

lemma bind_put_or:
  "k < length ys \<Longrightarrow>
     bind_res (put_or (length xs + k) v (xs @ ys)) f = f (xs @ ys[k := ys ! k OR v])"
  by (simp add: put_or_def list_update_append nth_append)

lemmas bind_put_or_at = bind_put_or [of 0, simplified] bind_put_or [of "Suc 0", simplified]
  bind_put_or [of "Suc (Suc 0)", simplified]

lemma next_mods:
  assumes "i mod 4 = (0 :: nat)"
  shows "Suc i mod 4 = Suc 0" "Suc (Suc i) mod 4 = 2" "Suc (Suc (Suc i)) mod 4 = 3"
    "(3 + i) mod 4 = 3"
  using assms by presburger+

lemma decode_group:
  assumes "i mod 4 = 0"
  shows "decode_loop (digit (group a b c) 3 # digit (group a b c) 2 # digit (group a b c) 1 #
      digit (group a b c) 0 # ys) i (length pre) (pre @ 0 # 0 # 0 # rest) =
    decode_loop ys (Suc (Suc (Suc (Suc i)))) (length (pre @ [a, b, c])) ((pre @ [a, b, c]) @ rest)"
  by (simp add: decode_loop_digit Let_def bind_put_at bind_put_or_at joined next_mods [OF assms] assms
      del: decode_loop.simps)

lemma replicate_3_plus: "replicate (3 + k) (0 :: byte) = 0 # 0 # 0 # replicate k 0"
  by (simp add: numeral_3_eq_3)

lemma decode_from:
  assumes "i mod 4 = 0" "3 * ((length xs + 2) div 3) \<le> m"
  shows "decode_loop (b64_spec xs) i (length pre) (pre @ replicate m 0) =
    Inr (length (pre @ xs), pre @ xs @ replicate (m - length xs) 0)"
  using assms
proof (induction xs arbitrary: i pre m rule: b64_spec.induct)
  case 1
  then show ?case by simp
next
  case (2 a)
  then have "3 \<le> m" by simp
  then obtain k where m: "m = 3 + k" using le_Suc_ex by blast
  have "decode_loop (b64_spec [a]) i (length pre) (pre @ 0 # 0 # 0 # replicate k 0) =
      Inr (length (pre @ [a]), pre @ [a] @ 0 # 0 # replicate k 0)"
    by (simp add: decode_loop_digit Let_def bind_put_at bind_put_or_at joined next_mods 2
        del: decode_loop.simps)
  then show ?case unfolding m replicate_3_plus by simp
next
  case (3 a b)
  then have "3 \<le> m" by simp
  then obtain k where m: "m = 3 + k" using le_Suc_ex by blast
  have "decode_loop (b64_spec [a, b]) i (length pre) (pre @ 0 # 0 # 0 # replicate k 0) =
      Inr (length (pre @ [a, b]), pre @ [a, b] @ 0 # replicate k 0)"
    by (simp add: decode_loop_digit Let_def bind_put_at bind_put_or_at joined next_mods 3
        del: decode_loop.simps)
  then show ?case unfolding m replicate_3_plus by simp
next
  case (4 a b c xs)
  have "3 + 3 * ((length xs + 2) div 3) \<le> m"
    using "4.prems"(2) div_add_self1 [of 3 "length xs + 2"] by simp
  then obtain d where d: "m = 3 + 3 * ((length xs + 2) div 3) + d" using le_Suc_ex by blast
  define k where "k = 3 * ((length xs + 2) div 3) + d"
  have m: "m = 3 + k" and k: "3 * ((length xs + 2) div 3) \<le> k" by (simp_all add: d k_def)
  have "Suc (Suc (Suc (Suc i))) mod 4 = 0" using "4.prems"(1) by simp
  from "4.IH" [OF this k, of "pre @ [a, b, c]"] show ?case
    using decode_group [OF "4.prems"(1), of a b c "b64_spec xs" pre "replicate k 0"]
    unfolding m replicate_3_plus by (simp del: decode_loop.simps)
qed

subsection \<open>Any input at all\<close>

definition written :: "nat \<Rightarrow> nat" where
  "written i = 3 * (i div 4) + (i mod 4 - 1)"

lemma mod4_cases:
  fixes i :: nat
  obtains "i mod 4 = 0" | "i mod 4 = 1" | "i mod 4 = 2" | "i mod 4 = 3"
proof -
  have "i mod 4 < 4" by simp
  then consider "i mod 4 = 0" | "i mod 4 = 1" | "i mod 4 = 2" | "i mod 4 = 3" by linarith
  then show ?thesis by cases (erule that)+
qed

lemma length_base64en: "length base64en = 64"
  by (simp add: base64en_def)

lemma written_Suc:
  "written (Suc i) = (if i mod 4 = 0 then written i else Suc (written i))"
  by (auto simp: written_def mod_Suc div_Suc)

lemma written_bound:
  assumes "n mod 4 = 0" "i < n"
  shows "written i < 3 * (n div 4)" "i mod 4 = 1 \<or> i mod 4 = 2 \<Longrightarrow> Suc (written i) < 3 * (n div 4)"
proof -
  have "i < n div 4 * 4" using assms by (simp add: mult.commute mult_div_mod_eq minus_mod_eq_mult_div [symmetric])
  then have "i div 4 < n div 4" by (simp add: div_less_iff_less_mult)
  moreover have "i mod 4 < 4" by simp
  ultimately show "written i < 3 * (n div 4)"
    "i mod 4 = 1 \<or> i mod 4 = 2 \<Longrightarrow> Suc (written i) < 3 * (n div 4)"
    unfolding written_def by linarith+
qed

lemma decode_loop_total:
  assumes "(i + length xs) mod 4 = 0" "3 * ((i + length xs) div 4) \<le> length out" "j = written i"
  shows "\<exists>n out'. decode_loop xs i j out = Inr (n, out') \<and> length out' = length out \<and> n \<le> length out"
  using assms
proof (induction xs arbitrary: i j out)
  case Nil
  then show ?case by (auto simp: written_def)
next
  case (Cons x xs)
  let ?n = "i + length (x # xs)"
  have room: "written i < length out"
    "i mod 4 = 1 \<or> i mod 4 = 2 \<Longrightarrow> Suc (written i) < length out"
    using written_bound [OF Cons.prems(1), of i] Cons.prems(2) by auto
  have next_ok: "\<exists>n out'. decode_loop xs (Suc i) (written (Suc i)) o2 = Inr (n, out') \<and>
      length out' = length out \<and> n \<le> length out" if "length o2 = length out" for o2
    using Cons.IH [of "Suc i" o2 "written (Suc i)"] Cons.prems(1,2) that by simp
  show ?case
    using room next_ok
    by (cases rule: mod4_cases [of i]) (simp_all add: Cons.prems(3) put_def put_or_def written_Suc Let_def)
qed

lemma table_covers:
  assumes "43 \<le> n" "n \<le> 122" "base64de ! n \<noteq> 255"
  shows "word_of_nat n \<in> set base64en"
proof -
  have "list_all (\<lambda>n. base64de ! n = 255 \<or>
      unat (base64de ! n) < 64 \<and> base64en ! unat (base64de ! n) = word_of_nat n) [43..<123]"
    by code_simp
  moreover have "n \<in> set [43..<123]" unfolding set_upt atLeastLessThan_iff using assms by linarith
  ultimately have "unat (base64de ! n) < 64" "base64en ! unat (base64de ! n) = word_of_nat n"
    using assms(3) unfolding list_all_iff by blast+
  then show ?thesis by (metis length_base64en nth_mem)
qed

lemma bytes_outside_table:
  assumes "x \<notin> set base64en"
  shows "sint x < sint BASE64DE_FIRST \<or> sint BASE64DE_LAST < sint x \<or> base64de ! unat x = 255"
proof (rule ccontr)
  assume *: "\<not> ?thesis"
  have "sint BASE64DE_FIRST = 43" "sint BASE64DE_LAST = 122"
    by (simp_all add: BASE64DE_FIRST_def BASE64DE_LAST_def)
  with * have r: "43 \<le> sint x" "sint x \<le> 122" by simp_all
  have "uint x = take_bit 8 (sint x)" by (simp add: uint_sint)
  also have "\<dots> = sint x" using r by (simp add: take_bit_int_eq_self)
  finally have "int (unat x) = sint x" by simp
  with r have "43 \<le> unat x" "unat x \<le> 122" by linarith+
  then have "word_of_nat (unat x) \<in> set base64en" using * by (intro table_covers) simp_all
  then show False using assms by simp
qed

lemma decode_loop_rejects:
  assumes "(i + length (xs @ x # ys)) mod 4 = 0" "3 * ((i + length (xs @ x # ys)) div 4) \<le> length out"
    and "j = written i" "set xs \<subseteq> set base64en" "x \<notin> set base64en" "x \<noteq> BASE64_PAD"
  shows "\<exists>out'. decode_loop (xs @ x # ys) i j out = Inr (0, out')"
  using assms
proof (induction xs arbitrary: i j out)
  case Nil
  then show ?case using bytes_outside_table [of x] by (auto simp: Let_def)
next
  case (Cons c cs)
  have room: "written i < length out"
    "i mod 4 = 1 \<or> i mod 4 = 2 \<Longrightarrow> Suc (written i) < length out"
    using written_bound [OF Cons.prems(1), of i] Cons.prems(2) by auto
  have next_ok: "\<exists>out'. decode_loop (cs @ x # ys) (Suc i) (written (Suc i)) o2 = Inr (0, out')"
    if "length o2 = length out" for o2
    using Cons.IH [of "Suc i" o2 "written (Suc i)"] Cons.prems that by simp
  have "c \<in> set base64en" using Cons.prems(4) by simp
  then obtain n where n: "n < 64" "c = base64en ! n"
    by (auto simp: in_set_conv_nth length_base64en)
  show ?case
    using room next_ok tables_inverse [OF n(1)]
    by (cases rule: mod4_cases [of i])
       (simp_all add: Cons.prems(3) put_def put_or_def written_Suc Let_def n(2))
qed

lemma padding_length: "3 * ((n + 2) div 3) - n = (3 - n mod 3) mod (3 :: nat)"
proof -
  have n: "n = 3 * (n div 3) + n mod 3" by simp
  have "n mod 3 < 3" by simp
  then consider "n mod 3 = 0" | "n mod 3 = 1" | "n mod 3 = 2" by linarith
  then show ?thesis
  proof cases
    case 1
    then show ?thesis using n div_mult_self2 [of 3 2 "n div 3"] by simp
  next
    case 2
    then have "(n + 2) div 3 = n div 3 + 1" using n by simp
    then show ?thesis using n 2 by simp
  next
    case 3
    then have "(n + 2) div 3 = n div 3 + 1" using n by simp
    then show ?thesis using n 3 by simp
  qed
qed

subsection \<open>Properties\<close>

text \<open>C15: \<^verbatim>\<open>base64::encode\<close> never writes outside its string and returns the
  RFC 4648 encoding of its input followed by one NUL byte (the terminator that
  \<^verbatim>\<open>BASE64_ENCODE_OUT_SIZE\<close> makes room for stays inside the string).\<close>

theorem encode_is_spec: "encode xs = Inr (b64_spec xs @ [0])"
  by (rule encode_spec)

text \<open>C16: Decoding the encoding (without that NUL) returns the input, followed by one zero
  byte per padding character; the C loop itself reports the exact length.\<close>

theorem decode_inverts_encode:
  "decode (b64_spec xs) = Inr (xs @ replicate ((3 - length xs mod 3) mod 3) 0) \<and>
   base64_decode (b64_spec xs) (replicate (BASE64_DECODE_OUT_SIZE (length (b64_spec xs))) 0) =
     Inr (length xs, xs @ replicate ((3 - length xs mod 3) mod 3) 0)"
proof -
  let ?k = "(length xs + 2) div 3"
  have len: "length (b64_spec xs) = 4 * ?k" by (rule length_b64_spec)
  have "3 * ?k - length xs = (3 - length xs mod 3) mod 3" by (rule padding_length)
  then have "base64_decode (b64_spec xs) (replicate (BASE64_DECODE_OUT_SIZE (length (b64_spec xs))) 0) =
      Inr (length xs, xs @ replicate ((3 - length xs mod 3) mod 3) 0)"
    using decode_from [of 0 xs "3 * ?k" "[]"]
    by (simp add: base64_decode_def BASE64_DECODE_OUT_SIZE_def len mult.commute)
  then show ?thesis by (simp add: decode_def)
qed

text \<open>As strings the two functions do not invert each other: the NUL makes the length
  of what \<^verbatim>\<open>encode\<close> returns one more than a multiple of four, so \<^verbatim>\<open>decode\<close>
  rejects it and, since the wrapper drops the returned length, hands back zeros.\<close>

theorem decode_of_encode_is_zeros:
  "bind_res (encode xs) decode = Inr (replicate (3 * ((length xs + 2) div 3)) 0)"
proof -
  have "length (b64_spec xs @ [0]) mod 4 = 1" "length (b64_spec xs @ [0]) div 4 = (length xs + 2) div 3"
    by (simp_all add: length_b64_spec mod_Suc div_Suc)
  then show ?thesis
    by (simp add: encode_spec decode_def base64_decode_def BASE64_DECODE_OUT_SIZE_def
        del: length_append)
qed

text \<open>C17: On any byte string whatever, \<^verbatim>\<open>base64::decode\<close> stays inside its output
  array and returns a string of three bytes per four characters.\<close>

theorem decode_memory_safe:
  "\<exists>r. decode s = Inr r \<and> length r = 3 * (length s div 4)"
proof (cases "length s mod 4 = 0")
  case True
  then show ?thesis
    using decode_loop_total [of 0 s "replicate (BASE64_DECODE_OUT_SIZE (length s)) 0" 0]
    by (auto simp: decode_def base64_decode_def BASE64_DECODE_OUT_SIZE_def written_def mult.commute)
next
  case False
  then show ?thesis
    by (simp add: decode_def base64_decode_def BASE64_DECODE_OUT_SIZE_def)
qed

text \<open>A character outside the alphabet before any padding makes
  \<^verbatim>\<open>base64_decode\<close> report the length 0.\<close>

theorem decode_rejects_foreign:
  assumes "set xs \<subseteq> set base64en" "x \<notin> set base64en" "x \<noteq> BASE64_PAD"
    and "length (xs @ x # ys) mod 4 = 0"
    and "BASE64_DECODE_OUT_SIZE (length (xs @ x # ys)) \<le> length out"
  shows "\<exists>out'. base64_decode (xs @ x # ys) out = Inr (0, out')"
  using decode_loop_rejects [of 0 xs x ys out 0] assms
  by (simp add: base64_decode_def BASE64_DECODE_OUT_SIZE_def written_def mult.commute)

theorem decode_rejects_foreign_witness:
  "\<exists>out'. base64_decode ([65, 66] @ 33 # [67]) (replicate 3 0) = Inr (0, out')"
  by (rule decode_rejects_foreign) (simp_all add: base64en_def BASE64_PAD_def BASE64_DECODE_OUT_SIZE_def)

end
