(* ===== verification/Md5.thy ===== *)
theory Md5
  imports Prelude
begin

text \<open>
  \<^verbatim>\<open>src/src/md5.cpp\<close>. The source's \<^verbatim>\<open>UINT4\<close> is \<^verbatim>\<open>unsigned long int\<close>, whose
  width the platform chooses, so the word length is a type variable: 32 is the width
  RFC 1321 means, 64 what an LP64 system (the Linux build of
  \<^verbatim>\<open>CMakeLists.txt\<close>) gives. The abstract specification is \<open>absorb\<close>,
  which compresses whole blocks of a byte string and keeps the rest, and
  \<open>md5_spec\<close>, the padded message of RFC 1321 run through the code's compression
  function. Lengths are naturals below \<open>2 ^ 32\<close>, the range of \<^verbatim>\<open>unsigned int\<close>.
\<close>

subsection \<open>The context and the round functions\<close>

record 'u md5_ctx =
  state :: "'u list"
  count0 :: 'u
  count1 :: 'u
  buffer :: "byte list"

definition S11 :: nat where "S11 = 7"
definition S12 :: nat where "S12 = 12"
definition S13 :: nat where "S13 = 17"
definition S14 :: nat where "S14 = 22"
definition S21 :: nat where "S21 = 5"
definition S22 :: nat where "S22 = 9"
definition S23 :: nat where "S23 = 14"
definition S24 :: nat where "S24 = 20"
definition S31 :: nat where "S31 = 4"
definition S32 :: nat where "S32 = 11"
definition S33 :: nat where "S33 = 16"
definition S34 :: nat where "S34 = 23"
definition S41 :: nat where "S41 = 6"
definition S42 :: nat where "S42 = 10"
definition S43 :: nat where "S43 = 15"
definition S44 :: nat where "S44 = 21"

lemmas S_defs = S11_def S12_def S13_def S14_def S21_def S22_def S23_def S24_def
  S31_def S32_def S33_def S34_def S41_def S42_def S43_def S44_def

definition PADDING :: "byte list" where
  "PADDING = 0x80 # replicate 63 0"

definition F :: "'a::len word \<Rightarrow> 'a word \<Rightarrow> 'a word \<Rightarrow> 'a word" where
  "F x y z = (x AND y) OR (NOT x AND z)"
definition G :: "'a::len word \<Rightarrow> 'a word \<Rightarrow> 'a word \<Rightarrow> 'a word" where
  "G x y z = (x AND z) OR (y AND NOT z)"
definition H :: "'a::len word \<Rightarrow> 'a word \<Rightarrow> 'a word \<Rightarrow> 'a word" where
  "H x y z = x XOR y XOR z"
definition I :: "'a::len word \<Rightarrow> 'a word \<Rightarrow> 'a word \<Rightarrow> 'a word" where
  "I x y z = y XOR (x OR NOT z)"

definition ROTATE_LEFT :: "'a::len word \<Rightarrow> nat \<Rightarrow> 'a word" where
  "ROTATE_LEFT x n = push_bit n x OR drop_bit (32 - n) x"

definition FF :: "'a::len word \<Rightarrow> 'a word \<Rightarrow> 'a word \<Rightarrow> 'a word \<Rightarrow> 'a word \<Rightarrow> nat \<Rightarrow> 'a word \<Rightarrow> 'a word" where
  "FF a b c d x s ac = ROTATE_LEFT (a + (F b c d + x + ac)) s + b"
definition GG :: "'a::len word \<Rightarrow> 'a word \<Rightarrow> 'a word \<Rightarrow> 'a word \<Rightarrow> 'a word \<Rightarrow> nat \<Rightarrow> 'a word \<Rightarrow> 'a word" where
  "GG a b c d x s ac = ROTATE_LEFT (a + (G b c d + x + ac)) s + b"
definition HH :: "'a::len word \<Rightarrow> 'a word \<Rightarrow> 'a word \<Rightarrow> 'a word \<Rightarrow> 'a word \<Rightarrow> nat \<Rightarrow> 'a word \<Rightarrow> 'a word" where
  "HH a b c d x s ac = ROTATE_LEFT (a + (H b c d + x + ac)) s + b"
definition II :: "'a::len word \<Rightarrow> 'a word \<Rightarrow> 'a word \<Rightarrow> 'a word \<Rightarrow> 'a word \<Rightarrow> nat \<Rightarrow> 'a word \<Rightarrow> 'a word" where
  "II a b c d x s ac = ROTATE_LEFT (a + (I b c d + x + ac)) s + b"

subsection \<open>Bytes and words\<close>

text \<open>Four bytes for each word, low byte first; the bits of a wider word above the
  32nd are dropped, as in the source.\<close>

primrec Encode :: "'a::len word list \<Rightarrow> byte list" where
  "Encode [] = []"
| "Encode (w # ws) =
     ucast (w AND 0xff) # ucast (drop_bit 8 w AND 0xff) # ucast (drop_bit 16 w AND 0xff) #
     ucast (drop_bit 24 w AND 0xff) # Encode ws"

fun Decode :: "byte list \<Rightarrow> 'a::len word list" where
  "Decode (b0 # b1 # b2 # b3 # bs) =
     (ucast b0 OR push_bit 8 (ucast b1) OR push_bit 16 (ucast b2) OR push_bit 24 (ucast b3))
       # Decode bs"
| "Decode _ = []"

subsection \<open>The compression function\<close>

definition MD5Transform :: "'a::len word list \<Rightarrow> byte list \<Rightarrow> 'a word list" where
  "MD5Transform st block =
     (let a = st ! 0; b = st ! 1; c = st ! 2; d = st ! 3; x = Decode block;
      a = FF a b c d (x ! 0) S11 0xd76aa478;
      d = FF d a b c (x ! 1) S12 0xe8c7b756;
      c = FF c d a b (x ! 2) S13 0x242070db;
      b = FF b c d a (x ! 3) S14 0xc1bdceee;
      a = FF a b c d (x ! 4) S11 0xf57c0faf;
      d = FF d a b c (x ! 5) S12 0x4787c62a;
      c = FF c d a b (x ! 6) S13 0xa8304613;
      b = FF b c d a (x ! 7) S14 0xfd469501;
      a = FF a b c d (x ! 8) S11 0x698098d8;
      d = FF d a b c (x ! 9) S12 0x8b44f7af;
      c = FF c d a b (x ! 10) S13 0xffff5bb1;
      b = FF b c d a (x ! 11) S14 0x895cd7be;
      a = FF a b c d (x ! 12) S11 0x6b901122;
      d = FF d a b c (x ! 13) S12 0xfd987193;
      c = FF c d a b (x ! 14) S13 0xa679438e;
      b = FF b c d a (x ! 15) S14 0x49b40821;
      a = GG a b c d (x ! 1) S21 0xf61e2562;
      d = GG d a b c (x ! 6) S22 0xc040b340;
      c = GG c d a b (x ! 11) S23 0x265e5a51;
      b = GG b c d a (x ! 0) S24 0xe9b6c7aa;
      a = GG a b c d (x ! 5) S21 0xd62f105d;
      d = GG d a b c (x ! 10) S22 0x2441453;
      c = GG c d a b (x ! 15) S23 0xd8a1e681;
      b = GG b c d a (x ! 4) S24 0xe7d3fbc8;
      a = GG a b c d (x ! 9) S21 0x21e1cde6;
      d = GG d a b c (x ! 14) S22 0xc33707d6;
      c = GG c d a b (x ! 3) S23 0xf4d50d87;
      b = GG b c d a (x ! 8) S24 0x455a14ed;
      a = GG a b c d (x ! 13) S21 0xa9e3e905;
      d = GG d a b c (x ! 2) S22 0xfcefa3f8;
      c = GG c d a b (x ! 7) S23 0x676f02d9;
      b = GG b c d a (x ! 12) S24 0x8d2a4c8a;
      a = HH a b c d (x ! 5) S31 0xfffa3942;
      d = HH d a b c (x ! 8) S32 0x8771f681;
      c = HH c d a b (x ! 11) S33 0x6d9d6122;
      b = HH b c d a (x ! 14) S34 0xfde5380c;
      a = HH a b c d (x ! 1) S31 0xa4beea44;
      d = HH d a b c (x ! 4) S32 0x4bdecfa9;
      c = HH c d a b (x ! 7) S33 0xf6bb4b60;
      b = HH b c d a (x ! 10) S34 0xbebfbc70;
      a = HH a b c d (x ! 13) S31 0x289b7ec6;
      d = HH d a b c (x ! 0) S32 0xeaa127fa;
      c = HH c d a b (x ! 3) S33 0xd4ef3085;
      b = HH b c d a (x ! 6) S34 0x4881d05;
      a = HH a b c d (x ! 9) S31 0xd9d4d039;
      d = HH d a b c (x ! 12) S32 0xe6db99e5;
      c = HH c d a b (x ! 15) S33 0x1fa27cf8;
      b = HH b c d a (x ! 2) S34 0xc4ac5665;
      a = II a b c d (x ! 0) S41 0xf4292244;
      d = II d a b c (x ! 7) S42 0x432aff97;
      c = II c d a b (x ! 14) S43 0xab9423a7;
      b = II b c d a (x ! 5) S44 0xfc93a039;
      a = II a b c d (x ! 12) S41 0x655b59c3;
      d = II d a b c (x ! 3) S42 0x8f0ccc92;
      c = II c d a b (x ! 10) S43 0xffeff47d;
      b = II b c d a (x ! 1) S44 0x85845dd1;
      a = II a b c d (x ! 8) S41 0x6fa87e4f;
      d = II d a b c (x ! 15) S42 0xfe2ce6e0;
      c = II c d a b (x ! 6) S43 0xa3014314;
      b = II b c d a (x ! 13) S44 0x4e0811a1;
      a = II a b c d (x ! 4) S41 0xf7537e82;
      d = II d a b c (x ! 11) S42 0xbd3af235;
      c = II c d a b (x ! 2) S43 0x2ad7d2bb;
      b = II b c d a (x ! 9) S44 0xeb86d391
      in [st ! 0 + a, st ! 1 + b, st ! 2 + c, st ! 3 + d])"

subsection \<open>The context operations\<close>

definition MD5_memcpy :: "byte list \<Rightarrow> nat \<Rightarrow> byte list \<Rightarrow> byte list res" where
  "MD5_memcpy buf index xs =
     (if index + length xs \<le> length buf then Inr (overwrite index xs buf) else Inl Ub)"

definition MD5Init :: "byte list \<Rightarrow> 'a::len word md5_ctx" where
  "MD5Init garbage =
     \<lparr>state = [0x67452301, 0xefcdab89, 0x98badcfe, 0x10325476], count0 = 0, count1 = 0,
      buffer = garbage\<rparr>"

definition md5_index :: "'a::len word \<Rightarrow> nat" where
  "md5_index c = unat (drop_bit 3 c AND 0x3F)"

text \<open>\<^verbatim>\<open>for (i = partLen; i + 63 < inputLen; i += 64)\<close>\<close>

function transform_blocks :: "'a::len word list \<Rightarrow> byte list \<Rightarrow> nat \<Rightarrow> 'a word list \<times> nat" where
  "transform_blocks st input i =
     (if i + 63 < length input
      then transform_blocks (MD5Transform st (take 64 (drop i input))) input (i + 64)
      else (st, i))"
  by auto
termination by (relation "measure (\<lambda>(st, input, i). length input - i)") auto

declare transform_blocks.simps [simp del]

definition MD5Update :: "'a::len word md5_ctx \<Rightarrow> byte list \<Rightarrow> 'a word md5_ctx res" where
  "MD5Update ctx input =
     (let index = md5_index (count0 ctx);
          shifted = push_bit 3 (word_of_nat (length input));
          c0 = count0 ctx + shifted;
          c1 = (if c0 < shifted then count1 ctx + 1 else count1 ctx)
                 + drop_bit 29 (word_of_nat (length input));
          partLen = 64 - index
      in bind_res
           (if partLen \<le> length input then
              bind_res (MD5_memcpy (buffer ctx) index (take partLen input)) (\<lambda>buf.
                let (st, i) = transform_blocks (MD5Transform (state ctx) buf) input partLen
                in Inr (buf, st, i, 0))
            else Inr (buffer ctx, state ctx, 0, index))
           (\<lambda>(buf, st, i, index).
              bind_res (MD5_memcpy buf index (drop i input)) (\<lambda>buf.
                Inr \<lparr>state = st, count0 = c0, count1 = c1, buffer = buf\<rparr>)))"

text \<open>The digest and the zeroised context.\<close>

definition MD5Final :: "'a::len word md5_ctx \<Rightarrow> (byte list \<times> 'a word md5_ctx) res" where
  "MD5Final ctx =
     (let bits = Encode [count0 ctx, count1 ctx];
          index = md5_index (count0 ctx);
          padLen = (if index < 56 then 56 - index else 120 - index)
      in bind_res (MD5Update ctx (take padLen PADDING)) (\<lambda>ctx.
           bind_res (MD5Update ctx bits) (\<lambda>ctx.
             Inr (Encode (state ctx),
                  \<lparr>state = replicate 4 0, count0 = 0, count1 = 0, buffer = replicate 64 0\<rparr>))))"

text \<open>A C string ends at its first NUL byte.\<close>

definition c_string :: "byte list \<Rightarrow> byte list" where
  "c_string s = takeWhile (\<lambda>b. b \<noteq> 0) s"

definition MDString :: "'a::len itself \<Rightarrow> byte list \<Rightarrow> byte list \<Rightarrow> byte list res" where
  "MDString _ garbage string =
     bind_res (MD5Update (MD5Init garbage :: 'a word md5_ctx) (c_string string)) (\<lambda>ctx.
       bind_res (MD5Final ctx) (\<lambda>(digest, ctx). Inr digest))"

definition MD5UpdaterString :: "'a::len word md5_ctx \<Rightarrow> byte list \<Rightarrow> 'a word md5_ctx res" where
  "MD5UpdaterString ctx string = MD5Update ctx (c_string string)"

text \<open>\<^verbatim>\<open>while (len = fread(buffer, 1, 1024, file)) MD5Update(...)\<close> over what the
  file still holds.\<close>

function update_from_file :: "'a::len word md5_ctx \<Rightarrow> byte list \<Rightarrow> 'a word md5_ctx res" where
  "update_from_file ctx rest =
     (if rest = [] then Inr ctx
      else bind_res (MD5Update ctx (take 1024 rest)) (\<lambda>ctx. update_from_file ctx (drop 1024 rest)))"
  by auto
termination by (relation "measure (\<lambda>(ctx, rest). length rest)") auto

declare update_from_file.simps [simp del]

text \<open>A file that cannot be opened is \<open>None\<close>; the answers are the C return value and
  what was written.\<close>

definition MD5FileUpdateFile :: "'a::len word md5_ctx \<Rightarrow> byte list option \<Rightarrow> (int \<times> 'a word md5_ctx) res" where
  "MD5FileUpdateFile ctx file =
     (case file of None \<Rightarrow> Inr (-1, ctx)
      | Some content \<Rightarrow> bind_res (update_from_file ctx content) (\<lambda>ctx. Inr (0, ctx)))"

definition MD5File :: "'a::len itself \<Rightarrow> byte list \<Rightarrow> byte list option \<Rightarrow> (int \<times> byte list option) res" where
  "MD5File _ garbage file =
     (case file of None \<Rightarrow> Inr (-1, None)
      | Some content \<Rightarrow>
          bind_res (update_from_file (MD5Init garbage :: 'a word md5_ctx) content) (\<lambda>ctx.
            bind_res (MD5Final ctx) (\<lambda>(digest, ctx). Inr (0, Some digest))))"

subsection \<open>The hexadecimal string\<close>

definition hex_digit :: "nat \<Rightarrow> char" where
  "hex_digit n = ''0123456789abcdef'' ! n"

text \<open>\<^verbatim>\<open>%x\<close>: no leading zeros.\<close>

fun hex_of :: "nat \<Rightarrow> string" where
  "hex_of n = (if n < 16 then [hex_digit n] else hex_of (n div 16) @ [hex_digit (n mod 16)])"

declare hex_of.simps [simp del]

definition digest_word :: "byte list \<Rightarrow> nat \<Rightarrow> u32" where
  "digest_word digest k = of_le_bytes (take 4 (drop (4 * k) digest))"

definition md5_digest :: "'a::len itself \<Rightarrow> byte list \<Rightarrow> byte list \<Rightarrow> byte list res" where
  "md5_digest _ garbage buf =
     bind_res (MD5Update (MD5Init garbage :: 'a word md5_ctx) buf) (\<lambda>ctx.
       bind_res (MD5Final ctx) (\<lambda>(digest, ctx). Inr digest))"

definition md5_encode :: "'a::len itself \<Rightarrow> byte list \<Rightarrow> byte list \<Rightarrow> string res" where
  "md5_encode T garbage buf =
     bind_res (md5_digest T garbage buf) (\<lambda>digest.
       Inr (hex_of (unat (digest_word digest 0)) @ hex_of (unat (digest_word digest 1)) @
            hex_of (unat (digest_word digest 2)) @ hex_of (unat (digest_word digest 3))))"

subsection \<open>The specification\<close>

text \<open>Whole blocks are compressed, the rest is kept.\<close>

function absorb :: "'a::len word list \<Rightarrow> byte list \<Rightarrow> 'a word list \<times> byte list" where
  "absorb st xs =
     (if length xs < 64 then (st, xs)
      else absorb (MD5Transform st (take 64 xs)) (drop 64 xs))"
  by auto
termination by (relation "measure (\<lambda>(st, xs). length xs)") auto

declare absorb.simps [simp del]

definition md5_IV :: "'a::len word list" where
  "md5_IV = [0x67452301, 0xefcdab89, 0x98badcfe, 0x10325476]"

text \<open>RFC 1321, 3.1 and 3.2: a one bit, zeros up to 56 modulo 64 bytes, the bit length.\<close>

definition md5_padded :: "byte list \<Rightarrow> byte list" where
  "md5_padded xs =
     xs @ 0x80 # replicate (if length xs mod 64 < 56 then 55 - length xs mod 64
                            else 119 - length xs mod 64) 0
        @ le_bytes 8 (word_of_nat (8 * length xs) :: u64)"

definition md5_spec :: "'a::len itself \<Rightarrow> byte list \<Rightarrow> byte list" where
  "md5_spec _ xs = Encode (fst (absorb (md5_IV :: 'a word list) (md5_padded xs)))"

lemma absorb_append:
  "absorb st (xs @ ys) = (let (st', rest) = absorb st xs in absorb st' (rest @ ys))"
proof (induction st xs rule: absorb.induct)
  case (1 st xs)
  show ?case
  proof (cases "length xs < 64")
    case True
    then show ?thesis by (simp add: absorb.simps [of st xs])
  next
    case False
    then have "absorb st (xs @ ys) = absorb (MD5Transform st (take 64 xs)) (drop 64 xs @ ys)"
      by (subst absorb.simps) simp
    then show ?thesis using 1 [OF False] False by (simp add: absorb.simps [of st xs])
  qed
qed

lemma length_absorb: "length (snd (absorb st xs)) = length xs mod 64"
proof (induction st xs rule: absorb.induct)
  case (1 st xs)
  then show ?case
    by (cases "length xs < 64") (simp_all add: absorb.simps [of st xs] le_mod_geq)
qed

lemma transform_blocks_absorb:
  assumes "i \<le> length input" "transform_blocks st input i = (st', j)"
  shows "absorb st (drop i input) = (st', drop j input) \<and> i \<le> j \<and> j \<le> length input \<and>
    length input < j + 64"
  using assms
proof (induction st input i rule: transform_blocks.induct)
  case (1 st input i)
  show ?case
  proof (cases "i + 63 < length input")
    case True
    have "\<not> length (drop i input) < 64" using True by simp
    then have "absorb st (drop i input) =
        absorb (MD5Transform st (take 64 (drop i input))) (drop (i + 64) input)"
      by (subst absorb.simps) (simp only: if_False drop_drop add.commute)
    moreover have "transform_blocks (MD5Transform st (take 64 (drop i input))) input (i + 64) = (st', j)"
      using 1(3) True by (simp add: transform_blocks.simps [of st])
    ultimately show ?thesis using 1(1) [OF True] True by simp
  next
    case False
    then have "length (drop i input) < 64" by simp
    then have "absorb st (drop i input) = (st, drop i input)"
      by (subst absorb.simps) (simp only: if_True)
    then show ?thesis using 1(2,3) False
      by (auto simp add: transform_blocks.simps [of st])
  qed
qed

subsection \<open>The buffered update is the specification\<close>

definition pending :: "'a::len word md5_ctx \<Rightarrow> byte list" where
  "pending ctx = take (md5_index (count0 ctx)) (buffer ctx)"

lemma md5_index_nat: "md5_index (c :: 'a::len word) = unat c div 8 mod 64"
proof -
  have "(0x3F :: 'a word) = mask 6" by (simp add: mask_eq_exp_minus_1)
  then have "md5_index c = take_bit 6 (unat (drop_bit 3 c))"
    unfolding md5_index_def by (simp only: take_bit_eq_mask [symmetric] unsigned_take_bit_eq)
  then show ?thesis
    by (simp only: unsigned_drop_bit_eq take_bit_eq_mod [where 'a = nat] drop_bit_eq_div [where 'a = nat]) simp
qed

lemma md5_index_less: "md5_index c < 64"
  by (simp add: md5_index_nat)

lemma index_add:
  assumes "9 \<le> LENGTH('a)"
  shows "md5_index (c + push_bit 3 (word_of_nat n) :: 'a::len word) = (md5_index c + n) mod 64"
proof -
  have "unat (c + push_bit 3 (word_of_nat n)) = take_bit LENGTH('a) (unat c + 8 * n)"
    by (simp add: unat_word_ariths push_bit_eq_mult unat_of_nat take_bit_eq_mod mod_simps mult.commute)
  then have "md5_index (c + push_bit 3 (word_of_nat n)) =
      take_bit 6 (drop_bit 3 (take_bit LENGTH('a) (unat c + 8 * n)))"
    by (simp add: md5_index_nat take_bit_eq_mod drop_bit_eq_div)
  also have "\<dots> = take_bit 6 (drop_bit 3 (unat c + 8 * n))"
    using assms by (auto simp: drop_bit_take_bit min_def)
  also have "\<dots> = (unat c div 8 mod 64 + n) mod 64"
    by (simp add: take_bit_eq_mod drop_bit_eq_div mod_simps add.commute)
  finally show ?thesis by (simp add: md5_index_nat)
qed

lemma MD5Update_absorb:
  assumes L: "9 \<le> LENGTH('a)" and b: "length (buffer (ctx :: 'a::len word md5_ctx)) = 64"
  shows "\<exists>ctx'. MD5Update ctx xs = Inr ctx' \<and> length (buffer ctx') = 64 \<and>
    (state ctx', pending ctx') = absorb (state ctx) (pending ctx @ xs) \<and>
    count0 ctx' = count0 ctx + push_bit 3 (word_of_nat (length xs)) \<and>
    count1 ctx' = (if count0 ctx' < push_bit 3 (word_of_nat (length xs)) then count1 ctx + 1
                   else count1 ctx) + drop_bit 29 (word_of_nat (length xs))"
proof -
  define ix where "ix = md5_index (count0 ctx)"
  have ix: "ix < 64" by (simp add: ix_def md5_index_less)
  have p: "pending ctx = take ix (buffer ctx)" by (simp add: pending_def ix_def)
  note ix' = index_add [OF L, of "count0 ctx" "length xs", folded ix_def]
  show ?thesis
  proof (cases "64 - ix \<le> length xs")
    case True
    define buf where "buf = overwrite ix (take (64 - ix) xs) (buffer ctx)"
    have buf: "buf = take ix (buffer ctx) @ take (64 - ix) xs"
      using True b ix by (simp add: buf_def overwrite_def)
    have lbuf: "length buf = 64" using buf b ix True by simp
    obtain st' j where tb: "transform_blocks (MD5Transform (state ctx) buf) xs (64 - ix) = (st', j)"
      by fastforce
    from transform_blocks_absorb [OF True tb]
    have a: "absorb (MD5Transform (state ctx) buf) (drop (64 - ix) xs) = (st', drop j xs)"
      and j: "64 - ix \<le> j" "j \<le> length xs" "length xs < j + 64" by auto
    have "take 64 (pending ctx @ xs) = buf" "drop 64 (pending ctx @ xs) = drop (64 - ix) xs"
      using p buf b ix by simp_all
    moreover have "\<not> length (pending ctx @ xs) < 64" using True p b ix by simp
    ultimately have abs: "absorb (state ctx) (pending ctx @ xs) = (st', drop j xs)"
      using a by (subst absorb.simps) (simp only: if_False)
    have "length xs - j = (length (pending ctx) + length xs) mod 64"
      using length_absorb [of "state ctx" "pending ctx @ xs"] by (simp add: abs)
    then have lj: "(ix + length xs) mod 64 = length xs - j" using p b ix by simp
    define buf' where "buf' = overwrite 0 (drop j xs) buf"
    have "take (length xs - j) buf' = drop j xs"
      by (simp add: buf'_def overwrite_def)
    moreover have "length buf' = 64" using lbuf j by (simp add: buf'_def)
    ultimately show ?thesis
      using True b ix j lbuf
      by (simp add: MD5Update_def Let_def ix_def [symmetric] MD5_memcpy_def buf_def [symmetric] tb
          buf'_def [symmetric] abs [unfolded p] p pending_def [of "_\<lparr>state := _\<rparr>"] pending_def ix' lj)
  next
    case False
    then have l: "ix + length xs < 64" by simp
    then have abs: "absorb (state ctx) (pending ctx @ xs) = (state ctx, pending ctx @ xs)"
      using p b by (subst absorb.simps) simp
    have m: "(ix + length xs) mod 64 = ix + length xs" using l by simp
    have "take (ix + length xs) (overwrite ix xs (buffer ctx)) = take ix (buffer ctx) @ xs"
      using l b by (intro take_overwrite) simp
    then show ?thesis using False b l
      by (simp add: MD5Update_def Let_def ix_def [symmetric] MD5_memcpy_def abs [unfolded p] pending_def ix' m)
  qed
qed

subsection \<open>A context that has been fed a message\<close>

lemma md5_IV_init: "state (MD5Init g) = md5_IV" "buffer (MD5Init g) = g"
    "count0 (MD5Init g) = 0" "count1 (MD5Init g) = 0"
  by (simp_all add: MD5Init_def md5_IV_def)

definition fed :: "'a::len word md5_ctx \<Rightarrow> byte list \<Rightarrow> bool" where
  "fed ctx xs \<longleftrightarrow>
     length (buffer ctx) = 64 \<and> (state ctx, pending ctx) = absorb md5_IV xs \<and>
     count0 ctx = word_of_nat (8 * length xs) \<and> count1 ctx = 0"

lemma fed_init [simp]: "length g = 64 \<Longrightarrow> fed (MD5Init g) []"
  by (simp add: fed_def md5_IV_init pending_def md5_index_def absorb.simps)

lemma shift_len: "push_bit 3 (word_of_nat n :: 'a::len word) = word_of_nat (8 * n)"
  by (simp add: push_bit_eq_mult mult.commute)

lemma unat_bits:
  assumes "32 \<le> LENGTH('a)" "n < 2 ^ 29"
  shows "unat (word_of_nat (8 * n) :: 'a::len word) = 8 * n"
proof -
  have "8 * n < 2 ^ 32" using assms(2) by simp
  also have "(2 :: nat) ^ 32 \<le> 2 ^ LENGTH('a)" using assms(1) by (rule power_increasing) simp
  finally show ?thesis by (simp only: unat_of_nat mod_less)
qed

lemma high_bits_zero:
  assumes "32 \<le> LENGTH('a)" "n < 2 ^ 29"
  shows "drop_bit 29 (word_of_nat n :: 'a::len word) = 0"
proof (rule unat_word_eqI)
  have "n < 2 ^ 32" using assms(2) by simp
  also have "(2 :: nat) ^ 32 \<le> 2 ^ LENGTH('a)" using assms(1) by (rule power_increasing) simp
  finally have "unat (word_of_nat n :: 'a word) = n" by (simp add: unat_of_nat)
  then have "unat (drop_bit 29 (word_of_nat n :: 'a word)) = n div 2 ^ 29"
    by (simp only: unat_drop_word)
  then show "unat (drop_bit 29 (word_of_nat n :: 'a word)) = unat (0 :: 'a word)"
    using assms(2) by simp
qed

lemma MD5Update_fed:
  assumes L: "32 \<le> LENGTH('a)" and f: "fed (ctx :: 'a::len word md5_ctx) xs"
    and n: "length (xs @ ys) < 2 ^ 29"
  shows "\<exists>ctx'. MD5Update ctx ys = Inr ctx' \<and> fed ctx' (xs @ ys)"
proof -
  obtain ctx' where u: "MD5Update ctx ys = Inr ctx'" "length (buffer ctx') = 64"
      "(state ctx', pending ctx') = absorb (state ctx) (pending ctx @ ys)"
      "count0 ctx' = count0 ctx + push_bit 3 (word_of_nat (length ys))"
      "count1 ctx' = (if count0 ctx' < push_bit 3 (word_of_nat (length ys)) then count1 ctx + 1
                      else count1 ctx) + drop_bit 29 (word_of_nat (length ys))"
    using MD5Update_absorb [of ctx ys] L f by (auto simp: fed_def)
  have "count0 ctx = word_of_nat (8 * length xs)" using f by (simp only: fed_def)
  then have c0: "count0 ctx' = word_of_nat (8 * length (xs @ ys))"
    using u(4) by (simp add: shift_len algebra_simps)
  have ys: "length ys < 2 ^ 29" using n by simp
  have "\<not> count0 ctx' < push_bit 3 (word_of_nat (length ys))"
    unfolding c0 shift_len word_less_nat_alt unat_bits [OF L n] unat_bits [OF L ys] by simp
  moreover have "count1 ctx = 0" using f by (simp only: fed_def)
  ultimately have "count1 ctx' = 0"
    by (simp only: u(5) high_bits_zero [OF L ys] if_False add_0_left)
  moreover have "absorb md5_IV xs = (state ctx, pending ctx)"
    using f by (simp only: fed_def)
  then have "(state ctx', pending ctx') = absorb md5_IV (xs @ ys)"
    by (simp only: absorb_append [of md5_IV xs ys] Let_def prod.case u(3))
  ultimately show ?thesis using u(1,2) c0 unfolding fed_def by blast
qed

lemma Encode_word: "Encode (w # ws) = le_bytes 4 w @ Encode ws"
proof -
  have u: "ucast (v AND 0xff) = (ucast v :: byte)" for v :: "'b::len word"
  proof -
    have "(0xff :: 'b word) = mask 8" by (simp add: mask_eq_exp_minus_1)
    then have "v AND 0xff = v AND mask 8" by (simp only:)
    then show ?thesis
      by (intro bit_word_eqI) (simp only: bit_ucast_iff bit_and_iff bit_mask_iff, auto dest: bit_imp_le_length)
  qed
  have "le_bytes (Suc (Suc (Suc (Suc 0)))) w =
      [ucast w, ucast (drop_bit 8 w), ucast (drop_bit 16 w), ucast (drop_bit 24 w)]"
    by (simp add: drop_bit_drop_bit)
  moreover have "Suc (Suc (Suc (Suc 0))) = 4" by simp
  ultimately have "le_bytes 4 w =
      [ucast w, ucast (drop_bit 8 w), ucast (drop_bit 16 w), ucast (drop_bit 24 w)]"
    by (simp only:)
  then show ?thesis by (simp add: u)
qed

lemma le_bytes_width:
  assumes "8 * k \<le> LENGTH('a)" "8 * k \<le> LENGTH('b)"
  shows "le_bytes k (word_of_nat n :: 'a::len word) = le_bytes k (word_of_nat n :: 'b::len word)"
proof (rule nth_equalityI)
  fix i
  assume "i < length (le_bytes k (word_of_nat n :: 'a word))"
  then have i: "i < k" by simp
  then have "8 * i + 8 \<le> LENGTH('a)" "8 * i + 8 \<le> LENGTH('b)" using assms by linarith+
  then show "le_bytes k (word_of_nat n :: 'a word) ! i = le_bytes k (word_of_nat n :: 'b word) ! i"
    by (intro bit_word_eqI) (simp add: nth_le_bytes [OF i] bit_ucast_iff bit_drop_bit_eq bit_of_nat_iff)
qed simp

lemma le_bytes_add: "le_bytes (m + n) w = le_bytes m w @ le_bytes n (drop_bit (8 * m) w)"
  by (induction m arbitrary: w) (simp_all add: add.commute)

lemma Encode_length_bits:
  assumes L: "32 \<le> LENGTH('a)" and n: "n < 2 ^ 29"
  shows "Encode [word_of_nat (8 * n), 0 :: 'a::len word] = le_bytes 8 (word_of_nat (8 * n) :: u64)"
proof -
  have "drop_bit 32 (word_of_nat (8 * n) :: u64) = 0"
  proof (rule unat_word_eqI)
    have "unat (word_of_nat (8 * n) :: u64) = 8 * n" using n by (intro unat_bits) simp
    then have "unat (drop_bit 32 (word_of_nat (8 * n) :: u64)) = 8 * n div 2 ^ 32"
      by (simp only: unat_drop_word)
    then show "unat (drop_bit 32 (word_of_nat (8 * n) :: u64)) = unat (0 :: u64)"
      using n by simp
  qed
  then have "le_bytes 8 (word_of_nat (8 * n) :: u64) =
      le_bytes 4 (word_of_nat (8 * n) :: u64) @ le_bytes 4 (0 :: u64)"
    using le_bytes_add [of 4 4 "word_of_nat (8 * n) :: u64"] by simp
  moreover have "le_bytes 4 (word_of_nat (8 * n) :: u64) = le_bytes 4 (word_of_nat (8 * n) :: 'a word)"
    using L by (intro le_bytes_width) simp_all
  ultimately show ?thesis by (simp only: Encode_word) simp
qed

lemma md5_index_fed:
  assumes "32 \<le> LENGTH('a)" "fed (ctx :: 'a::len word md5_ctx) xs" "length xs < 2 ^ 29"
  shows "md5_index (count0 ctx) = length xs mod 64"
proof -
  have "count0 ctx = word_of_nat (8 * length xs)" using assms(2) by (simp only: fed_def)
  then show ?thesis by (simp only: md5_index_nat unat_bits [OF assms(1,3)]) simp
qed

lemma take_PADDING: "0 < n \<Longrightarrow> n \<le> 64 \<Longrightarrow> take n PADDING = 0x80 # replicate (n - 1) 0"
  by (cases n) (simp_all add: PADDING_def)

lemma MD5Final_fed:
  assumes L: "32 \<le> LENGTH('a)" and f: "fed (ctx :: 'a::len word md5_ctx) xs"
    and n: "length xs < 2 ^ 29"
  shows "MD5Final ctx = Inr (md5_spec TYPE('a) xs,
    \<lparr>state = replicate 4 0, count0 = 0, count1 = 0, buffer = replicate 64 0\<rparr>)"
proof -
  let ?ix = "length xs mod 64"
  let ?k = "if ?ix < 56 then 56 - ?ix else 120 - ?ix"
  let ?bits = "Encode [count0 ctx, count1 ctx]"
  have L9: "9 \<le> LENGTH('a)" using L by simp
  have "?ix < 64" by simp
  then have k: "0 < ?k" "?k \<le> 64" by auto
  have "?k - 1 = (if ?ix < 56 then 55 - ?ix else 119 - ?ix)" by simp
  then have pad: "take ?k PADDING = 0x80 # replicate (if ?ix < 56 then 55 - ?ix else 119 - ?ix) 0"
    by (simp only: take_PADDING [OF k])
  have fd: "length (buffer ctx) = 64" "absorb md5_IV xs = (state ctx, pending ctx)"
      "count0 ctx = word_of_nat (8 * length xs)" "count1 ctx = 0"
    using f by (simp_all only: fed_def)
  have bits: "?bits = le_bytes 8 (word_of_nat (8 * length xs) :: u64)"
    by (simp only: fd(3,4) Encode_length_bits [OF L n])
  obtain c1 where c1: "MD5Update ctx (take ?k PADDING) = Inr c1" "length (buffer c1) = 64"
      "(state c1, pending c1) = absorb (state ctx) (pending ctx @ take ?k PADDING)"
    using MD5Update_absorb [OF L9 fd(1), of "take ?k PADDING"] by blast
  obtain c2 where c2: "MD5Update c1 ?bits = Inr c2" "length (buffer c2) = 64"
      "(state c2, pending c2) = absorb (state c1) (pending c1 @ ?bits)"
    using MD5Update_absorb [OF L9 c1(2), of ?bits] by blast
  have "absorb md5_IV (xs @ take ?k PADDING @ ?bits) = absorb (state ctx) (pending ctx @ take ?k PADDING @ ?bits)"
    by (simp only: absorb_append [of md5_IV xs] Let_def fd(2) prod.case)
  also have "\<dots> = (state c2, pending c2)"
    unfolding append_assoc [symmetric]
    by (simp only: absorb_append [of _ "pending ctx @ take ?k PADDING"] Let_def c1(3) [symmetric] prod.case
        c2(3))
  finally have "absorb md5_IV (md5_padded xs) = (state c2, pending c2)"
    unfolding md5_padded_def pad bits by (simp only: append_Cons append_assoc)
  then have "md5_spec TYPE('a) xs = Encode (state c2)" by (simp add: md5_spec_def)
  then show ?thesis
    by (simp add: MD5Final_def Let_def md5_index_fed [OF L f n] c1(1) c2(1) del: Encode.simps)
qed

lemma md5_digest_fed:
  assumes "32 \<le> LENGTH('a)" "length g = 64" "length xs < 2 ^ 29"
  shows "md5_digest TYPE('a::len) g xs = Inr (md5_spec TYPE('a) xs)"
proof -
  obtain c where "MD5Update (MD5Init g :: 'a word md5_ctx) xs = Inr c" "fed c xs"
    using MD5Update_fed [of "MD5Init g :: 'a word md5_ctx" "[]" xs] assms by auto
  then show ?thesis using MD5Final_fed [OF assms(1) _ assms(3), of c] by (simp add: md5_digest_def)
qed

lemma update_from_file_fed:
  assumes "32 \<le> LENGTH('a)" "fed (ctx :: 'a::len word md5_ctx) xs" "length (xs @ rest) < 2 ^ 29"
  shows "\<exists>ctx'. update_from_file ctx rest = Inr ctx' \<and> fed ctx' (xs @ rest)"
  using assms
proof (induction ctx rest arbitrary: xs rule: update_from_file.induct)
  case (1 ctx rest)
  show ?case
  proof (cases "rest = []")
    case True
    then show ?thesis using 1(3) by (simp add: update_from_file.simps)
  next
    case False
    have "length (xs @ take 1024 rest) < 2 ^ 29" using 1(4) by simp
    then obtain c where c: "MD5Update ctx (take 1024 rest) = Inr c" "fed c (xs @ take 1024 rest)"
      using MD5Update_fed [OF 1(2,3)] by blast
    have "length ((xs @ take 1024 rest) @ drop 1024 rest) < 2 ^ 29" using 1(4) by simp
    from 1(1) [OF False c(1) 1(2) c(2) this] show ?thesis
      using False c(1) by (simp add: update_from_file.simps [of ctx])
  qed
qed

lemma absorb_block: "length xs = 64 \<Longrightarrow> absorb st xs = (MD5Transform st xs, [])"
  by (subst absorb.simps) (simp add: absorb.simps)

lemma transform_empty_32:
  "MD5Transform md5_IV (md5_padded []) = [0xd98c1dd4, 0x04b2008f, 0x980980e9, 0x7e42f8ec :: u32]"
  by code_simp

lemma transform_empty_64:
  "MD5Transform md5_IV (md5_padded []) =
     [0x7b0286ff6237c2e4, 0x3a9fc5b4a22328ed, 0xa935cdb74ba6627e, 0xcd3c53bce724c095 :: u64]"
  by code_simp

lemma md5_spec_empty:
  "md5_spec TYPE(32) [] = [0xd4, 0x1d, 0x8c, 0xd9, 0x8f, 0x00, 0xb2, 0x04, 0xe9, 0x80, 0x09, 0x98, 0xec, 0xf8, 0x42, 0x7e]"
  "md5_spec TYPE(64) [] = [0xe4, 0xc2, 0x37, 0x62, 0xed, 0x28, 0x23, 0xa2, 0x7e, 0x62, 0xa6, 0x4b, 0x95, 0xc0, 0x24, 0xe7]"
proof -
  have l: "length (md5_padded []) = 64" by (simp add: md5_padded_def)
  show "md5_spec TYPE(32) [] = [0xd4, 0x1d, 0x8c, 0xd9, 0x8f, 0x00, 0xb2, 0x04, 0xe9, 0x80, 0x09, 0x98, 0xec, 0xf8, 0x42, 0x7e]"
    unfolding md5_spec_def absorb_block [OF l] fst_conv transform_empty_32 by simp
  show "md5_spec TYPE(64) [] = [0xe4, 0xc2, 0x37, 0x62, 0xed, 0x28, 0x23, 0xa2, 0x7e, 0x62, 0xa6, 0x4b, 0x95, 0xc0, 0x24, 0xe7]"
    unfolding md5_spec_def absorb_block [OF l] fst_conv transform_empty_64 by simp
qed

subsection \<open>Properties\<close>

text \<open>C18: For every message below 512 MB and either width of \<^verbatim>\<open>UINT4\<close>, the
  context machinery (the 64-byte buffer, the bit counters, the padding of
  \<^verbatim>\<open>MD5Final\<close>) stays inside its buffer and produces what RFC 1321 prescribes: the
  compression function run over the padded message.\<close>

theorem md5_digest_is_spec:
  assumes "32 \<le> LENGTH('a)" "length g = 64" "length xs < 2 ^ 29"
  shows "md5_digest TYPE('a::len) g xs = Inr (md5_spec TYPE('a) xs)"
  by (rule md5_digest_fed [OF assms])

theorem md5_digest_is_spec_witness:
  "md5_digest TYPE(32) (replicate 64 7) [97, 98, 99] = Inr (md5_spec TYPE(32) [97, 98, 99])"
  by (rule md5_digest_is_spec) simp_all

text \<open>C19: Feeding a message in pieces is feeding it at once: a file below 512 MB, read and
  hashed in 1024-byte pieces by \<^verbatim>\<open>MD5File\<close>, gets the digest of its contents.\<close>

theorem md5_file_is_digest:
  assumes "32 \<le> LENGTH('a)" "length g = 64" "length content < 2 ^ 29"
  shows "MD5File TYPE('a::len) g (Some content) = Inr (0, Some (md5_spec TYPE('a) content))"
proof -
  obtain c where "update_from_file (MD5Init g :: 'a word md5_ctx) content = Inr c" "fed c content"
    using update_from_file_fed [of "MD5Init g :: 'a word md5_ctx" "[]" content] assms by auto
  then show ?thesis using MD5Final_fed [OF assms(1) _ assms(3), of c] by (simp add: MD5File_def)
qed

theorem md5_file_is_digest_witness:
  "MD5File TYPE(64) (replicate 64 7) (Some [1, 2]) = Inr (0, Some (md5_spec TYPE(64) [1, 2]))"
  by (rule md5_file_is_digest) simp_all

text \<open>With a 32-bit \<^verbatim>\<open>UINT4\<close> the digest of the empty message is the test vector of
  RFC 1321; with the 64-bit one of LP64 systems it is not. Even where the digest is right,
  \<^verbatim>\<open>md5::encode\<close> prints its words with the bytes swapped and drops leading zeros:
  31 characters for the empty message.\<close>

theorem md5_widths_differ:
  "md5_spec TYPE(32) [] =
     [0xd4, 0x1d, 0x8c, 0xd9, 0x8f, 0x00, 0xb2, 0x04, 0xe9, 0x80, 0x09, 0x98, 0xec, 0xf8, 0x42, 0x7e] \<and>
   md5_digest TYPE(64) (replicate 64 0) [] \<noteq> md5_digest TYPE(32) (replicate 64 0) [] \<and>
   md5_encode TYPE(32) (replicate 64 0) [] = Inr ''d98c1dd44b2008f980980e97e42f8ec''"
proof (intro conjI)
  have d: "md5_digest TYPE(32) (replicate 64 0) [] = Inr (md5_spec TYPE(32) [])"
      "md5_digest TYPE(64) (replicate 64 0) [] = Inr (md5_spec TYPE(64) [])"
    by (rule md5_digest_fed; simp)+
  show "md5_spec TYPE(32) [] =
     [0xd4, 0x1d, 0x8c, 0xd9, 0x8f, 0x00, 0xb2, 0x04, 0xe9, 0x80, 0x09, 0x98, 0xec, 0xf8, 0x42, 0x7e]"
    by (simp add: md5_spec_empty)
  show "md5_digest TYPE(64) (replicate 64 0) [] \<noteq> md5_digest TYPE(32) (replicate 64 0) []"
    unfolding d md5_spec_empty by simp
  have "digest_word (md5_spec TYPE(32) []) 0 = 0xd98c1dd4"
    "digest_word (md5_spec TYPE(32) []) 1 = 0x04b2008f"
    "digest_word (md5_spec TYPE(32) []) 2 = 0x980980e9"
    "digest_word (md5_spec TYPE(32) []) 3 = 0x7e42f8ec"
    unfolding md5_spec_empty digest_word_def by code_simp+
  then show "md5_encode TYPE(32) (replicate 64 0) [] = Inr ''d98c1dd44b2008f980980e97e42f8ec''"
    unfolding md5_encode_def d by (simp add: hex_of.simps hex_digit_def)
qed

end
