(* ===== verification/WsMsg.thy ===== *)
theory WsMsg
  imports Msg
begin

text \<open>
  \<^verbatim>\<open>src/src/wsmsg\<close>: the frame with a 16-bit head of bit fields, an extended length of
  0, 4 or 8 bytes and an optional 4-byte mask. The bit fields of a \<^verbatim>\<open>u16\<close> are
  allocated from its low bit (the ABI of x86-64): \<^verbatim>\<open>fin\<close> is bit 0, \<^verbatim>\<open>rsv\<close> bits
  1 to 3, \<^verbatim>\<open>opcode\<close> bits 4 to 7, \<^verbatim>\<open>mask\<close> bit 8, \<^verbatim>\<open>len\<close> bits 9 to 15.
\<close>

subsection \<open>The head\<close>

definition sizeof_WSMSG :: nat where "sizeof_WSMSG = 2"
definition wsbit32 :: nat where "wsbit32 = 126"
definition wsbit64 :: nat where "wsbit64 = 127"
definition wsu32max :: nat where "wsu32max = 0x100000000"

definition head_mask :: "u16 \<Rightarrow> nat" where
  "head_mask w = unat (drop_bit 8 w AND 1)"

definition head_len :: "u16 \<Rightarrow> nat" where
  "head_len w = unat (drop_bit 9 w AND 0x7F)"

definition head_set_mask :: "u16 \<Rightarrow> u16" where
  "head_set_mask w = w OR 0x100"

definition head_set_len :: "nat \<Rightarrow> u16 \<Rightarrow> u16" where
  "head_set_len n w = (w AND 0x1FF) OR push_bit 9 (word_of_nat n AND 0x7F)"

definition ws_head :: "byte list \<Rightarrow> u16 res" where
  "ws_head mem = bind_res (read_bytes 0 2 mem) (\<lambda>bs. Inr (of_le_bytes bs))"

definition ws_set_head :: "u16 \<Rightarrow> byte list \<Rightarrow> byte list res" where
  "ws_set_head w mem = write_bytes 0 (le_bytes 2 w) mem"

subsection \<open>The operations\<close>

definition payload_size :: "u16 \<Rightarrow> nat" where
  "payload_size w = (if head_len w < wsbit32 then 0 else if head_len w < wsbit64 then 4 else 8)"

definition mask_size :: "u16 \<Rightarrow> nat" where
  "mask_size w = (if head_mask w = 1 then 4 else 0)"

definition extend_size :: "u16 \<Rightarrow> nat" where
  "extend_size w = mask_size w + payload_size w"

definition head_size :: "u16 \<Rightarrow> nat" where
  "head_size w = sizeof_WSMSG + extend_size w"

definition ws_size :: "byte list \<Rightarrow> u64 res" where
  "ws_size mem =
     bind_res (ws_head mem) (\<lambda>w.
       if head_len w < wsbit32 then Inr (word_of_nat (head_len w))
       else if head_len w < wsbit64
       then bind_res (read_bytes sizeof_WSMSG 4 mem) (\<lambda>bs. Inr (of_le_bytes bs))
       else bind_res (read_bytes sizeof_WSMSG 8 mem) (\<lambda>bs. Inr (of_le_bytes bs)))"

definition ws_message_size :: "byte list \<Rightarrow> u64 res" where
  "ws_message_size mem =
     bind_res (ws_head mem) (\<lambda>w. bind_res (ws_size mem) (\<lambda>n. Inr (word_of_nat (head_size w) + n)))"

definition get_mask :: "byte list \<Rightarrow> u32 res" where
  "get_mask mem =
     bind_res (ws_head mem) (\<lambda>w.
       if head_mask w = 1
       then bind_res (read_bytes (sizeof_WSMSG + payload_size w) 4 mem) (\<lambda>bs. Inr (of_le_bytes bs))
       else Inr 0)"

definition set_mask :: "u32 \<Rightarrow> byte list \<Rightarrow> byte list res" where
  "set_mask m mem =
     bind_res (ws_head mem) (\<lambda>w.
       bind_res (ws_set_head (head_set_mask w) mem)
         (write_bytes (sizeof_WSMSG + payload_size (head_set_mask w)) (le_bytes 4 m)))"

definition set_size :: "u64 \<Rightarrow> byte list \<Rightarrow> byte list res" where
  "set_size s mem =
     bind_res (ws_head mem) (\<lambda>w.
       if unat s < wsbit32 then ws_set_head (head_set_len (unat s) w) mem
       else if unat s < wsu32max
       then bind_res (ws_set_head (head_set_len wsbit32 w) mem)
              (write_bytes sizeof_WSMSG (le_bytes 4 (ucast s :: u32)))
       else bind_res (ws_set_head (head_set_len wsbit64 w) mem)
              (write_bytes sizeof_WSMSG (le_bytes 8 s)))"

definition data_offset :: "byte list \<Rightarrow> nat res" where
  "data_offset mem = bind_res (ws_head mem) (\<lambda>w. Inr (sizeof_WSMSG + extend_size w))"

definition c_payload_size :: "u64 \<Rightarrow> nat" where
  "c_payload_size s = (if unat s < wsbit32 then 0 else if unat s < wsu32max then 4 else 8)"

definition c_mask_size :: "u32 \<Rightarrow> nat" where
  "c_mask_size mk = 4"

definition copy_payload :: "byte list \<Rightarrow> u64 \<Rightarrow> byte list \<Rightarrow> byte list res" where
  "copy_payload buf s r =
     (if 0 < unat s
      then bind_res (data_offset r) (\<lambda>off.
             bind_res (read_bytes 0 (unat s) buf) (\<lambda>xs. write_bytes off xs r))
      else Inr r)"

definition ws_make_mask :: "u32 \<Rightarrow> byte list \<Rightarrow> u64 \<Rightarrow> byte list res" where
  "ws_make_mask mk buf s =
     (let r = replicate (sizeof_WSMSG + c_mask_size mk + c_payload_size s + unat s) 0
      in bind_res (set_size s r) (\<lambda>r. bind_res (set_mask mk r) (copy_payload buf s)))"

definition ws_make :: "byte list \<Rightarrow> u64 \<Rightarrow> byte list res" where
  "ws_make buf s =
     (let r = replicate (sizeof_WSMSG + c_payload_size s + unat s) 0
      in bind_res (set_size s r) (copy_payload buf s))"

subsection \<open>The head fields\<close>

definition len_field :: "u64 \<Rightarrow> nat" where
  "len_field s = (if unat s < 126 then unat s else if unat s < wsu32max then 126 else 127)"

lemma len_field_less: "len_field s < 128"
  by (simp add: len_field_def)

lemma head_fields_code:
  "list_all (\<lambda>n. head_len (head_set_len n 0) = n \<and> head_mask (head_set_len n 0) = 0 \<and>
     head_len (head_set_mask (head_set_len n 0)) = n \<and>
     head_mask (head_set_mask (head_set_len n 0)) = 1) [0..<128]"
  by code_simp

lemma head_fields:
  assumes "n < 128"
  shows "head_len (head_set_len n 0) = n" "head_mask (head_set_len n 0) = 0"
    "head_len (head_set_mask (head_set_len n 0)) = n"
    "head_mask (head_set_mask (head_set_len n 0)) = 1"
proof -
  have "n \<in> set [0..<128]" unfolding set_upt atLeastLessThan_iff using assms by linarith
  then show "head_len (head_set_len n 0) = n" "head_mask (head_set_len n 0) = 0"
    "head_len (head_set_mask (head_set_len n 0)) = n"
    "head_mask (head_set_mask (head_set_len n 0)) = 1"
    using head_fields_code unfolding list_all_iff by blast+
qed

lemma write_at:
  "length pre = off \<Longrightarrow> length xs \<le> length ys \<Longrightarrow>
     write_bytes off xs (pre @ ys) = Inr (pre @ xs @ drop (length xs) ys)"
  by (simp add: write_bytes_def overwrite_def)

lemma read_at:
  "length pre = off \<Longrightarrow> length xs = n \<Longrightarrow> read_bytes off n (pre @ xs @ post) = Inr xs"
  by (simp add: read_bytes_def)

lemma ws_head_at [simp]: "ws_head (le_bytes 2 w @ rest) = Inr w"
  by (simp add: ws_head_def read_bytes_def)

lemma ws_set_head_at [simp]: "ws_set_head w' (le_bytes 2 w @ rest) = Inr (le_bytes 2 w' @ rest)"
  by (simp add: ws_set_head_def write_bytes_def overwrite_def)

subsection \<open>What make writes\<close>

definition ext_bytes :: "u64 \<Rightarrow> byte list" where
  "ext_bytes s = (if unat s < 126 then [] else if unat s < wsu32max then le_bytes 4 (ucast s :: u32)
                  else le_bytes 8 s)"

definition frame_head :: "bool \<Rightarrow> u64 \<Rightarrow> u16" where
  "frame_head masked s = (let w = head_set_len (len_field s) 0 in if masked then head_set_mask w else w)"

lemma length_ext_bytes [simp]: "length (ext_bytes s) = c_payload_size s"
  by (simp add: ext_bytes_def c_payload_size_def wsbit32_def)

lemma frame_head_fields:
  "head_len (frame_head m s) = len_field s" "head_mask (frame_head m s) = (if m then 1 else 0)"
  "payload_size (frame_head m s) = c_payload_size s"
  "extend_size (frame_head m s) = (if m then 4 else 0) + c_payload_size s"
proof -
  show l: "head_len (frame_head m s) = len_field s"
    by (simp add: frame_head_def Let_def head_fields [OF len_field_less])
  show k: "head_mask (frame_head m s) = (if m then 1 else 0)"
    by (simp add: frame_head_def Let_def head_fields [OF len_field_less])
  show p: "payload_size (frame_head m s) = c_payload_size s"
    unfolding payload_size_def l
    by (simp add: len_field_def c_payload_size_def wsbit32_def wsbit64_def)
  show "extend_size (frame_head m s) = (if m then 4 else 0) + c_payload_size s"
    unfolding extend_size_def mask_size_def k p by simp
qed

lemma set_size_fresh:
  "set_size s (replicate (sizeof_WSMSG + c_payload_size s + n) 0) =
     Inr (le_bytes 2 (frame_head False s) @ ext_bytes s @ replicate n 0)"
proof -
  have r: "replicate (sizeof_WSMSG + c_payload_size s + n) (0 :: byte) =
      le_bytes 2 (0 :: u16) @ replicate (c_payload_size s) 0 @ replicate n 0"
    by (simp only: le_bytes_0 replicate_add append_assoc sizeof_WSMSG_def)
  have hd: "frame_head False s = head_set_len (len_field s) 0" by (simp add: frame_head_def)
  consider "unat s < 126" | "126 \<le> unat s" "unat s < wsu32max" | "wsu32max \<le> unat s" by linarith
  then show ?thesis
  proof cases
    case 1
    then show ?thesis unfolding r set_size_def ws_head_at bind_res.simps
      by (simp add: hd wsbit32_def len_field_def ext_bytes_def c_payload_size_def del: le_bytes_0)
  next
    case 2
    then show ?thesis unfolding r set_size_def ws_head_at bind_res.simps
      by (simp add: hd wsbit32_def len_field_def ext_bytes_def c_payload_size_def sizeof_WSMSG_def
          write_at del: le_bytes_0)
  next
    case 3
    then show ?thesis unfolding r set_size_def ws_head_at bind_res.simps
      by (simp add: hd wsbit32_def wsbit64_def len_field_def ext_bytes_def c_payload_size_def
          sizeof_WSMSG_def wsu32max_def write_at del: le_bytes_0)
  qed
qed

definition ws_bytes :: "u32 option \<Rightarrow> u64 \<Rightarrow> byte list \<Rightarrow> byte list" where
  "ws_bytes mk s xs =
     le_bytes 2 (frame_head (mk \<noteq> None) s) @ ext_bytes s @
     (case mk of None \<Rightarrow> [] | Some m \<Rightarrow> le_bytes 4 m) @ xs"

lemma copy_payload_at:
  assumes "unat s \<le> length buf" "length pre = sizeof_WSMSG + extend_size w" "pre = le_bytes 2 w @ pre'"
  shows "copy_payload buf s (pre @ replicate (unat s) 0) = Inr (pre @ take (unat s) buf)"
proof -
  have "data_offset (pre @ replicate (unat s) 0) = Inr (length pre)"
    by (simp add: data_offset_def assms(2)) (simp add: assms(3))
  then show ?thesis
    using assms(1) by (simp add: copy_payload_def read_bytes_def write_at)
qed

lemma ws_make_bytes:
  assumes "unat s \<le> length buf"
  shows "ws_make buf s = Inr (ws_bytes None s (take (unat s) buf))"
  unfolding ws_make_def Let_def set_size_fresh bind_res.simps append_assoc [symmetric]
  by (subst copy_payload_at [OF assms, where w = "frame_head False s" and pre' = "ext_bytes s"])
     (simp_all add: sizeof_WSMSG_def frame_head_fields ws_bytes_def)

lemma ws_make_mask_bytes:
  assumes "unat s \<le> length buf"
  shows "ws_make_mask mk buf s = Inr (ws_bytes (Some mk) s (take (unat s) buf))"
proof -
  have r: "sizeof_WSMSG + c_mask_size mk + c_payload_size s + unat s =
      sizeof_WSMSG + c_payload_size s + (4 + unat s)" by (simp add: c_mask_size_def)
  have h: "head_set_mask (frame_head False s) = frame_head True s" by (simp add: frame_head_def Let_def)
  let ?pre = "le_bytes 2 (frame_head True s) @ ext_bytes s"
  have "set_mask mk (le_bytes 2 (frame_head False s) @ ext_bytes s @ replicate (4 + unat s) 0) =
      write_bytes (sizeof_WSMSG + c_payload_size s) (le_bytes 4 mk) (?pre @ replicate (4 + unat s) 0)"
    by (simp add: set_mask_def h frame_head_fields del: bind_res_Inr)
  also have "\<dots> = Inr (?pre @ le_bytes 4 mk @ replicate (unat s) 0)"
    by (subst write_at) (simp_all add: sizeof_WSMSG_def)
  finally have m: "set_mask mk (le_bytes 2 (frame_head False s) @ ext_bytes s @ replicate (4 + unat s) 0) =
      Inr ((?pre @ le_bytes 4 mk) @ replicate (unat s) 0)" by simp
  show ?thesis
    unfolding ws_make_mask_def Let_def r set_size_fresh bind_res.simps m
    by (subst copy_payload_at [OF assms, where w = "frame_head True s" and pre' = "ext_bytes s @ le_bytes 4 mk"])
       (simp_all add: sizeof_WSMSG_def frame_head_fields ws_bytes_def)
qed

lemma ws_size_bytes: "ws_size (ws_bytes mk s xs @ rest) = Inr s"
proof -
  have u: "unat (word_of_nat (unat s) :: u64) = unat s" by simp
  consider "unat s < 126" | "126 \<le> unat s" "unat s < wsu32max" | "wsu32max \<le> unat s" by linarith
  then show ?thesis
  proof cases
    case 1
    then show ?thesis
      by (simp add: ws_size_def ws_bytes_def frame_head_fields len_field_def wsbit32_def)
  next
    case 2
    have low: "of_le_bytes (le_bytes 4 (ucast s :: u32)) = s"
    proof (rule bit_word_eqI)
      fix i
      assume "i < LENGTH(64)"
      have "\<not> bit s i" if "32 \<le> i"
      proof -
        have "unat s < 2 ^ 32" using 2 by (simp add: wsu32max_def)
        then have "take_bit 32 s = s" by (intro unat_word_eqI) (simp add: unsigned_take_bit_eq take_bit_nat_eq_self)
        then show ?thesis using that by (metis bit_take_bit_iff not_le)
      qed
      then show "bit (of_le_bytes (le_bytes 4 (ucast s :: u32)) :: u64) i \<longleftrightarrow> bit s i"
        by (cases "i < 32") (auto simp: bit_of_le_bytes nth_le_bytes bit_ucast_iff bit_drop_bit_eq)
    qed
    show ?thesis using 2 low
      by (simp add: ws_size_def ws_bytes_def frame_head_fields len_field_def wsbit32_def wsbit64_def
          ext_bytes_def sizeof_WSMSG_def read_bytes_def)
  next
    case 3
    then show ?thesis
      by (simp add: ws_size_def ws_bytes_def frame_head_fields len_field_def wsbit32_def wsbit64_def
          wsu32max_def ext_bytes_def sizeof_WSMSG_def read_bytes_def)
  qed
qed

lemma get_mask_bytes:
  "get_mask (ws_bytes mk s xs @ rest) = Inr (case mk of None \<Rightarrow> 0 | Some m \<Rightarrow> m)"
proof (cases mk)
  case None
  then show ?thesis by (simp add: get_mask_def ws_bytes_def frame_head_fields)
next
  case (Some m)
  have "read_bytes (sizeof_WSMSG + c_payload_size s) 4
      ((le_bytes 2 (frame_head True s) @ ext_bytes s) @ le_bytes 4 m @ xs @ rest) = Inr (le_bytes 4 m)"
    by (rule read_at) (simp_all add: sizeof_WSMSG_def)
  then show ?thesis using Some by (simp add: get_mask_def ws_bytes_def frame_head_fields)
qed

subsection \<open>Properties\<close>

text \<open>C21: What either \<^verbatim>\<open>WSMSG::make\<close> builds reads back, for every size of a
  \<^verbatim>\<open>u64\<close> and thus on all three encodings of the length: the size, the mask, the payload
  at \<^verbatim>\<open>data()\<close>, and a \<^verbatim>\<open>message_size\<close> equal to the bytes built.\<close>

theorem wsmsg_roundtrip:
  assumes "unat s \<le> length buf" "unat s + 14 < 2 ^ 64"
    "r = ws_make_mask mk buf s \<and> m = Some mk \<or> r = ws_make buf s \<and> m = None"
  shows "\<exists>t. r = Inr t \<and> ws_size (t @ rest) = Inr s \<and>
    get_mask (t @ rest) = Inr (case m of None \<Rightarrow> 0 | Some mk \<Rightarrow> mk) \<and>
    bind_res (data_offset (t @ rest)) (\<lambda>off. read_bytes off (unat s) (t @ rest)) = Inr (take (unat s) buf) \<and>
    (\<exists>n. ws_message_size (t @ rest) = Inr n \<and> unat n = length t)"
proof -
  let ?xs = "take (unat s) buf"
  let ?t = "ws_bytes m s ?xs"
  let ?w = "frame_head (m \<noteq> None) s"
  have r: "r = Inr ?t" using assms(3) ws_make_bytes [OF assms(1)] ws_make_mask_bytes [OF assms(1)] by auto
  have lx: "length ?xs = unat s" using assms(1) by simp
  have hd: "ws_head (?t @ rest) = Inr ?w" by (simp add: ws_bytes_def)
  have len: "length ?t = head_size ?w + unat s"
    using lx by (cases m) (simp_all add: ws_bytes_def head_size_def frame_head_fields sizeof_WSMSG_def)
  have t: "?t = take (head_size ?w) ?t @ ?xs" "length (take (head_size ?w) ?t) = head_size ?w"
    using lx by (cases m; simp add: ws_bytes_def head_size_def frame_head_fields sizeof_WSMSG_def)+
  have "read_bytes (head_size ?w) (unat s) (take (head_size ?w) ?t @ ?xs @ rest) = Inr ?xs"
    using t(2) lx by (intro read_at) simp_all
  then have d: "bind_res (data_offset (?t @ rest)) (\<lambda>off. read_bytes off (unat s) (?t @ rest)) = Inr ?xs"
    using t(1) by (simp add: data_offset_def hd head_size_def [symmetric] del: bind_res_Inr) (metis append_assoc)
  have "head_size ?w \<le> 14" by (simp add: head_size_def frame_head_fields sizeof_WSMSG_def c_payload_size_def)
  then have "unat (word_of_nat (head_size ?w) + s) = length ?t"
    using assms(2) len by (simp add: unat_word_ariths unat_of_nat)
  moreover have "ws_message_size (?t @ rest) = Inr (word_of_nat (head_size ?w) + s)"
    by (simp add: ws_message_size_def hd ws_size_bytes)
  ultimately show ?thesis using r d ws_size_bytes get_mask_bytes by metis
qed

theorem wsmsg_roundtrip_witness:
  "\<exists>t. ws_make_mask 7 (replicate 200 1) 130 = Inr t \<and> ws_size (t @ [9]) = Inr 130 \<and>
    get_mask (t @ [9]) = Inr (case Some (7 :: u32) of None \<Rightarrow> 0 | Some mk \<Rightarrow> mk) \<and>
    bind_res (data_offset (t @ [9])) (\<lambda>off. read_bytes off (unat (130 :: u64)) (t @ [9])) =
      Inr (take (unat (130 :: u64)) (replicate 200 1)) \<and>
    (\<exists>n. ws_message_size (t @ [9]) = Inr n \<and> unat n = length t)"
  by (rule wsmsg_roundtrip [where mk = 7]) simp_all

end
