(* ===== verification/Spec2Isabelle.thy ===== *)
theory Spec2Isabelle
  imports Wire Wakeup NetTypes SessionThreads EndToEnd PbRpc HttpConn EventThreads Heartbeats System Support Http ConnectPool Kafka Redis Mysql Rpc Services Json Registry Addr IoBuffer Base64 Md5 Msg WsMsg Client AsyncNet AsyncStream AsyncLoop Session MsgSession
begin

text \<open>
  \<^bold>\<open>The program.\<close> asyncsys is a C++ library of asynchronous services on Linux. Each thread has an event loop
  over epoll (\<^verbatim>\<open>net/asyncnet.cpp\<close>) that owns the callbacks, the write buffers and the timers of its
  descriptors; other threads reach it through a queue of notifications. \<^verbatim>\<open>net/asyncsys.cpp\<close> splits
  addresses and starts listeners and connections. A connection is a \<^verbatim>\<open>client\<close>
  (\<^verbatim>\<open>service/client.cpp\<close>), which reads into an \<^verbatim>\<open>ioBufferEx\<close> and calls a dispatcher for each frame;
  a server's side of it is a \<^verbatim>\<open>session\<close>, a client's side an \<^verbatim>\<open>msgsession\<close> with a list of queries
  and reconnection. Frames are \<^verbatim>\<open>MSG\<close>, \<^verbatim>\<open>PBMSG\<close> (a protobuf message) or \<^verbatim>\<open>WSMSG\<close>; on
  top of the first two stand typed calls (\<^verbatim>\<open>msg/rpc.h\<close>, \<^verbatim>\<open>pbmsg/pbrpc.h\<close>). Beside these are an HTTP server, clients of Redis,
  MySQL and Kafka, a pool of clients, and the base: buffers, base64, MD5, tables of registrations.

  \<^bold>\<open>Theories.\<close> Paths are below \<^verbatim>\<open>src/src\<close>.
  \<^item> \<open>Prelude\<close>: outcomes of operations, programs over a state, the rules \<open>preserves\<close>, \<open>keeps\<close> and
    \<open>gives\<close> for them, little-endian memory, tables, lists.
  \<^item> \<open>IoBuffer\<close> (\<^verbatim>\<open>ioBuffer.h\<close>): both buffers refine a byte queue (locale \<open>byte_queue\<close>).
  \<^item> \<open>Base64\<close>, \<open>Md5\<close>: the encoder is RFC 4648's grouping, the decoder never leaves its arrays and inverts it;
    the buffered digest is the padded-block computation, at 32 bits the one of RFC 1321.
  \<^item> \<open>Msg\<close>, \<open>WsMsg\<close> (\<^verbatim>\<open>msg/\<close>, \<^verbatim>\<open>pbmsg/\<close>, \<^verbatim>\<open>wsmsg/\<close>): frames as bytes; what a
    constructor builds, the accessors and the dispatchers read back.
  \<^item> \<open>Client\<close> (\<^verbatim>\<open>service/client.cpp\<close>): the read loop over any frame format of the locale
    \<open>stream_frames\<close> delivers every frame once and in order, however the stream is cut.
  \<^item> \<open>AsyncNet\<close> (\<^verbatim>\<open>net/asyncnet.cpp\<close>, operations), \<open>AsyncStream\<close> (its write path is an ordered
    channel, locale \<open>fifo_channel\<close>), \<open>AsyncLoop\<close> (mutex, exceptions, closing, notifications, timers),
    \<open>NetTypes\<close> (the type invariant, operation by operation), \<open>Wakeup\<close> (\<^verbatim>\<open>notify\<close> racing with
    \<^verbatim>\<open>__onevent\<close> as a step relation, which the two operations refine).
  \<^item> \<open>Session\<close>, \<open>MsgSession\<close> (\<^verbatim>\<open>service/session.cpp\<close>, \<^verbatim>\<open>msgsession.cpp\<close>,
    \<^verbatim>\<open>msgdispatch.inl\<close>): a session sends in order (an instance of \<open>fifo_channel\<close>); queries are
    answered once, in order, and one is in flight while any waits. \<open>SessionThreads\<close> runs the operations of a session
    from several threads: no message stays behind without a notification under way. \<open>Wire\<close> puts a session and the
    reader of the other process together: every byte between them is accounted for at any time.
  \<^item> \<open>Registry\<close> (\<^verbatim>\<open>pool.h\<close>, \<^verbatim>\<open>object.h\<close>, \<^verbatim>\<open>net/asyncevent.cpp\<close>,
    \<^verbatim>\<open>service/msgserver.inl\<close>): tables in which the first registration stays (locale \<open>registry\<close>, also
    interpreted by the router of \<open>Http\<close>).
  \<^item> \<open>EventThreads\<close> (\<^verbatim>\<open>rwlock.cpp\<close>, \<^verbatim>\<open>net/asyncevent.cpp\<close>): the read-write lock, and threads
    that register and emit events as a step relation: who is in the table alone, and when they can deadlock.
  \<^item> \<open>Controllers\<close> (\<^verbatim>\<open>msg/rpc.h\<close>, \<^verbatim>\<open>pbmsg/pbrpc.h\<close>): the controller of a request answers once, when its
    last reference goes (locale \<open>responder\<close>). \<open>Calls\<close>: a client's session and a server joined by a connection that
    cuts the bytes anywhere; for any template of calls (locale \<open>call_link\<close>) all queries are answered, in order.
    \<open>Rpc\<close> with \<open>EndToEnd\<close> (\<^verbatim>\<open>msg/rpc.h\<close>) and \<open>PbRpc\<close> (\<^verbatim>\<open>pbmsg/pbrpc.h\<close>) are the two
    templates, each an instance of both locales and, at both ends, of \<open>stream_frames\<close>.
    \<open>Heartbeats\<close> (\<^verbatim>\<open>net/heardbeat.h\<close>, \<^verbatim>\<open>msg/rpccli.h\<close>, \<^verbatim>\<open>pbmsg/pbclient.h\<close>) adds the
    heartbeat frames: servers do not notice those of clients; the other direction is broken.
  \<^item> \<open>Services\<close> (\<^verbatim>\<open>service/msgserver.inl\<close>, \<^verbatim>\<open>http/httpserver.cpp\<close>, \<^verbatim>\<open>client::init\<close>): the wiring of an
    accepted connection over \<open>AsyncNet\<close>, its life until the hangup, and who owns what of it afterwards.
  \<^item> \<open>Addr\<close> (\<^verbatim>\<open>net/asyncsys.cpp\<close>): the regular expressions, splitting addresses and urls, starting.
  \<^item> \<open>Http\<close> (\<^verbatim>\<open>http/\<close>): responses are framed, requests are put together and routed; \<open>HttpConn\<close> puts the
    reader, the parser's callbacks, the router and the response together, from bytes to bytes.
  \<^item> \<open>ConnectPool\<close> (\<^verbatim>\<open>service/connectpool.h\<close>), \<open>Kafka\<close>, \<open>Redis\<close>,
    \<open>Mysql\<close> (the directories of these names): exclusive use of clients; the state machines of
    the clients, with the ledger of what was asked and answered as their invariant.
  \<^item> \<open>Json\<close> (\<^verbatim>\<open>json/json.h\<close>): the wrapper frees every node it takes, once; its views do not keep to that.
  \<^item> \<open>System\<close> (\<^verbatim>\<open>mysys.cpp\<close>, \<^verbatim>\<open>log.cpp\<close>): splitting at a pattern, stopping all threads, signals, fork, log levels.
  \<^item> \<open>Support\<close>: \<^verbatim>\<open>joint.h\<close>, \<^verbatim>\<open>logic/condition.cpp\<close>, \<^verbatim>\<open>net/heartbeat.cpp\<close>, \<^verbatim>\<open>thdid.cpp\<close>.

  \<^bold>\<open>Reading the definitions.\<close> A function has the name of its source, a method of a class with a prefix where
  the name is taken; \<^verbatim>\<open>__f\<close> of \<^verbatim>\<open>asyncnet\<close> is \<open>i_f\<close>. A record has the fields of the class. A
  pure operation that can fail answers a \<open>res\<close>; one on a state that outlives a throw is a \<open>prog\<close>, which ends as
  \<open>Done\<close>, \<open>Threw\<close> (with the state reached) or \<open>Stuck\<close>. A failure is \<open>Ub\<close> (an access outside an
  allocation, a null or dangling pointer, a mutex locked twice), \<open>Assertion\<close> or \<open>Throw\<close>. Where an assertion
  matters the build is an argument: the default of \<^verbatim>\<open>CMakeLists.txt\<close> is a release build, in which \<^verbatim>\<open>assert\<close>
  does nothing. Integers are words at their width where the code can wrap, of the LP64 little-endian x86-64 the code
  is built for; \<^verbatim>\<open>size_t\<close> sums in \<open>IoBuffer\<close> and indices are naturals. Vectors grow as in libstdc++; a
  moved-from string or \<^verbatim>\<open>std::function\<close> is empty.

  \<^bold>\<open>Parameters.\<close> Code that is not in the repository is an argument: the kernel (a function of the trace of
  system calls), the resolver, \<^verbatim>\<open>http_parser\<close> (the callbacks it makes), protobuf (serialize and parse),
  hiredis (the callbacks it makes, as steps), the MySQL API (the answers of its nonblocking calls), librdkafka, cJSON, and what
  \<^verbatim>\<open>new\<close> leaves in memory. Users' callbacks are programs over the component's state or what they ask of it;
  a theorem that needs more of them names it (\<open>calm\<close>: does not throw, \<open>quiet\<close>: queries nothing).

  \<^bold>\<open>Bounds.\<close> Frames are below \<open>2 ^ 31\<close> bytes with their head, where the sign of the \<^verbatim>\<open>int\<close> the
  dispatchers compare is that of the length (\<open>Client.huge_length_overreads\<close> is what happens above); MD5 lengths are
  below \<open>2 ^ 32\<close>, base64 inputs below \<open>2 ^ 29\<close>. The dispatch loop and the buffers' loops terminate by a measure.
  The loop \<^verbatim>\<open>__retry__\<close> of the MySQL client, which callbacks can keep busy, has rounds: \<open>Mysql.recv_ends\<close>
  shows that one more than there are queries is enough when callbacks query nothing. The event loop runs over the batches
  \<^verbatim>\<open>epoll_wait\<close> returns.

  \<^bold>\<open>Threads.\<close> Three places are modelled at the grain at which threads interleave: the queue of notifications
  (\<open>Wakeup\<close>, one step for each of: queue, write, report, swap, read, call), the session
  (\<open>SessionThreads\<close>, one step per operation, as its mutex makes them) and the table of events (\<open>EventThreads\<close>, one
  step for each of: lock, find, call, emplace, unlock). Everything else belongs to one loop.

  \<^bold>\<open>Readings.\<close> \<^verbatim>\<open>serialize\<close> of \<^verbatim>\<open>pbrpc\<close> calls \<^verbatim>\<open>std::forward\<close> without its template argument and
  does not compile when it is instantiated with arguments; \<open>PbRpc\<close> reads it as \<^verbatim>\<open>std::forward<_ARGS>\<close>, as the other
  functions of the file are written. A pointer to a parsed \<^verbatim>\<open>MsgBase\<close> is represented by the bytes it was parsed
  from.

  \<^bold>\<open>Not modelled.\<close> The text of log lines; the singleton and thread-local wrappers, the clock and typedefs, which
  have no logic of their own; generated protobuf code; threads beyond the three places named; callbacks that destroy
  the \<^verbatim>\<open>std::function\<close> that is running.
\<close>

end
